(* ===== verification/Prelude.thy ===== *)
theory Prelude imports Complex_Main "HOL-Library.AList" "HOL-Library.List_Lexorder" "HOL-Library.Char_ord" "HOL-Library.Product_Lexorder" "HOL-Library.Code_Target_Numeral" begin

text \<open>
  Shared vocabulary of the development: Python exceptions as values, the result type of a
  call that may raise, traversals that stop at the first exception, insertion-ordered
  dictionaries, and a locale for state invariants that several components interpret.
\<close>

section \<open>Collections of facts\<close>

named_theorems result_simps \<open>computation rules of the result type\<close>
named_theorems step_intros \<open>one preservation fact per operation of a component\<close>

section \<open>Exceptions and results\<close>

text \<open>
  Every exception class the sources raise or let through. The string is the text
  \<open>str(e)\<close> yields; a class whose text no code reads carries none.
\<close>

datatype py_exc =
    ValueError string
  | TypeError string
  | KeyError string
  | IndexError string
  | AttributeError string
  | OverflowError string
  | InvalidOperation
  | DivisionByZero
  | OSError string
  | FileNotFoundError string
  | NvmlError string
  | PynvmlError string
  | DockerError string
  | JobSpecError string
  | GpuClaimConflict string
  | PluginNotConfigured string

text \<open>\<open>except ValueError\<close> also catches \<open>JobSpecError\<close>, which derives from it, and
  \<open>except OSError\<close> also catches \<open>FileNotFoundError\<close>. \<open>OverflowError\<close> and
  \<open>decimal.InvalidOperation\<close> are arithmetic errors, not value errors.\<close>

fun is_value_error :: "py_exc \<Rightarrow> bool" where
  "is_value_error (ValueError _) = True"
| "is_value_error (JobSpecError _) = True"
| "is_value_error _ = False"

fun is_os_error :: "py_exc \<Rightarrow> bool" where
  "is_os_error (OSError _) = True"
| "is_os_error (FileNotFoundError _) = True"
| "is_os_error _ = False"

fun is_docker_error :: "py_exc \<Rightarrow> bool" where
  "is_docker_error (DockerError _) = True"
| "is_docker_error _ = False"

fun is_nvml_error :: "py_exc \<Rightarrow> bool" where
  "is_nvml_error (NvmlError _) = True"
| "is_nvml_error _ = False"

fun exc_str :: "py_exc \<Rightarrow> string" where
  "exc_str (ValueError s) = s"
| "exc_str (TypeError s) = s"
| "exc_str (KeyError s) = s"
| "exc_str (IndexError s) = s"
| "exc_str (AttributeError s) = s"
| "exc_str (OverflowError s) = s"
| "exc_str InvalidOperation = []"
| "exc_str DivisionByZero = []"
| "exc_str (OSError s) = s"
| "exc_str (FileNotFoundError s) = s"
| "exc_str (NvmlError s) = s"
| "exc_str (PynvmlError s) = s"
| "exc_str (DockerError s) = s"
| "exc_str (JobSpecError s) = s"
| "exc_str (GpuClaimConflict s) = s"
| "exc_str (PluginNotConfigured s) = s"

type_synonym 'a result = "py_exc + 'a"

primrec rbind :: "'a result \<Rightarrow> ('a \<Rightarrow> 'b result) \<Rightarrow> 'b result" where
  "rbind (Inl e) f = Inl e"
| "rbind (Inr x) f = f x"

declare rbind.simps [result_simps]

definition rmap :: "('a \<Rightarrow> 'b) \<Rightarrow> 'a result \<Rightarrow> 'b result" where
  "rmap f r = rbind r (\<lambda>x. Inr (f x))"

fun traverse :: "('a \<Rightarrow> 'b result) \<Rightarrow> 'a list \<Rightarrow> 'b list result" where
  "traverse f [] = Inr []"
| "traverse f (x # xs) = rbind (f x) (\<lambda>y. rbind (traverse f xs) (\<lambda>ys. Inr (y # ys)))"

definition is_ok :: "'a result \<Rightarrow> bool" where
  "is_ok r = (case r of Inl _ \<Rightarrow> False | Inr _ \<Rightarrow> True)"

lemma rbind_Inr_iff: "rbind r f = Inr y \<longleftrightarrow> (\<exists>x. r = Inr x \<and> f x = Inr y)"
  by (cases r) auto

lemma rbind_Inl_iff: "rbind r f = Inl e \<longleftrightarrow> r = Inl e \<or> (\<exists>x. r = Inr x \<and> f x = Inl e)"
  by (cases r) auto

lemma rmap_simps [simp, result_simps]: "rmap f (Inl e) = Inl e" "rmap f (Inr x) = Inr (f x)"
  by (simp_all add: rmap_def)

lemma rmap_Inr_iff: "rmap f r = Inr y \<longleftrightarrow> (\<exists>x. r = Inr x \<and> y = f x)"
  by (cases r) auto

lemma is_ok_simps [simp, result_simps]: "is_ok (Inr x)" "\<not> is_ok (Inl e)"
  by (simp_all add: is_ok_def)

lemma is_okE: "is_ok r \<Longrightarrow> (\<And>x. r = Inr x \<Longrightarrow> P) \<Longrightarrow> P"
  by (cases r) auto

lemma traverse_Inr_iff: "traverse f xs = Inr ys \<longleftrightarrow> list_all2 (\<lambda>x y. f x = Inr y) xs ys"
  by (induction xs arbitrary: ys) (auto simp: rbind_Inr_iff list_all2_Cons1)

lemma traverse_length: "traverse f xs = Inr ys \<Longrightarrow> length ys = length xs"
  by (auto simp: traverse_Inr_iff dest: list_all2_lengthD)

lemma traverse_total: "(\<And>x. x \<in> set xs \<Longrightarrow> f x = Inr (g x)) \<Longrightarrow> traverse f xs = Inr (map g xs)"
  by (induction xs) auto

lemma traverse_ok_iff: "is_ok (traverse f xs) \<longleftrightarrow> (\<forall>x \<in> set xs. is_ok (f x))"
proof (induction xs)
  case (Cons x xs)
  then show ?case by (cases "f x"; cases "traverse f xs") auto
qed simp

lemmas result_iffs = rbind_Inr_iff rbind_Inl_iff rmap_Inr_iff traverse_Inr_iff

section \<open>Ordered dictionaries\<close>

text \<open>
  A Python \<open>dict\<close> keeps insertion order: assigning to a present key replaces the value in
  place, a new key goes to the end. \<^const>\<open>AList.update\<close> does exactly that on an
  association list, and \<^const>\<open>AList.delete\<close> is \<open>del d[k]\<close>.
\<close>

type_synonym ('k, 'v) pydict = "('k \<times> 'v) list"

abbreviation dict_get :: "('k, 'v) pydict \<Rightarrow> 'k \<Rightarrow> 'v option" where
  "dict_get d k \<equiv> map_of d k"

abbreviation dict_set :: "'k \<Rightarrow> 'v \<Rightarrow> ('k, 'v) pydict \<Rightarrow> ('k, 'v) pydict" where
  "dict_set k v d \<equiv> AList.update k v d"

abbreviation dict_keys :: "('k, 'v) pydict \<Rightarrow> 'k list" where
  "dict_keys d \<equiv> map fst d"

definition get_or :: "'v \<Rightarrow> ('k, 'v) pydict \<Rightarrow> 'k \<Rightarrow> 'v" where
  "get_or v d k = (case dict_get d k of None \<Rightarrow> v | Some w \<Rightarrow> w)"

text \<open>\<open>d.update(d')\<close> and the comprehension \<open>{k: v for \<dots>}\<close>, which later entries overwrite.\<close>

definition dict_update :: "('k, 'v) pydict \<Rightarrow> ('k, 'v) pydict \<Rightarrow> ('k, 'v) pydict" where
  "dict_update d d' = fold (\<lambda>(k, v). dict_set k v) d' d"

definition dict_of :: "('k \<times> 'v) list \<Rightarrow> ('k, 'v) pydict" where
  "dict_of kvs = dict_update [] kvs"

lemma dict_get_set [simp]: "dict_get (dict_set k v d) k' = (if k' = k then Some v else dict_get d k')"
  by (simp add: update_conv')

lemma dict_keys_set: "fst ` set (dict_set k v d) = insert k (fst ` set d)"
proof -
  have "set (dict_keys (dict_set k v d)) = insert k (set (dict_keys d))"
    unfolding update_keys by auto
  then show ?thesis by simp
qed

lemma dict_keys_distinct: "distinct (dict_keys d) \<Longrightarrow> distinct (dict_keys (dict_set k v d))"
  by (rule distinct_update)

lemma dict_get_update: "dict_get (dict_update d d') k =
    (case map_of (rev d') k of None \<Rightarrow> dict_get d k | Some v \<Rightarrow> Some v)"
  by (induction d' arbitrary: d) (auto simp: dict_update_def map_add_def split: option.splits)

lemma dict_update_distinct: "distinct (dict_keys d) \<Longrightarrow> distinct (dict_keys (dict_update d d'))"
  unfolding dict_update_def
  by (induction d' arbitrary: d) (auto simp: dict_keys_distinct distinct_update)

lemma dict_update_keys: "fst ` set (dict_update d d') = fst ` set d \<union> fst ` set d'"
  unfolding dict_update_def
  by (induction d' arbitrary: d) (simp_all add: dict_keys_set case_prod_unfold)

lemma dict_get_of: "dict_get (dict_of kvs) k = map_of (rev kvs) k"
  by (auto simp: dict_of_def dict_get_update split: option.splits)

lemma dict_of_distinct [simp]: "distinct (dict_keys (dict_of kvs))"
  by (simp add: dict_of_def dict_update_distinct)

lemma dict_of_keys: "fst ` set (dict_of kvs) = fst ` set kvs"
  by (simp add: dict_of_def dict_update_keys)

lemma dict_set_new: "k \<notin> set (dict_keys d) \<Longrightarrow> dict_set k v d = d @ [(k, v)]"
  by (induction d) auto

lemma dict_update_append:
  "distinct (dict_keys (d @ d')) \<Longrightarrow> dict_update d d' = d @ d'"
proof (induction d' arbitrary: d)
  case (Cons p d')
  obtain k v where p: "p = (k, v)" by (cases p)
  with Cons.prems have new: "k \<notin> set (dict_keys d)" by auto
  from Cons.prems p have "distinct (dict_keys ((d @ [(k, v)]) @ d'))" by auto
  from Cons.IH [OF this] show ?case
    using new p by (simp add: dict_update_def dict_set_new)
qed (simp add: dict_update_def)

lemma dict_of_id: "distinct (dict_keys kvs) \<Longrightarrow> dict_of kvs = kvs"
  by (simp add: dict_of_def dict_update_append)

lemma distinct_map_of_rev: "distinct (map fst kvs) \<Longrightarrow> map_of (rev kvs) = map_of kvs"
  by (metis distinct_rev map_of_inject_set rev_map set_rev)

section \<open>State invariants\<close>

text \<open>
  A component's transitions with the states they are meant to keep: \<open>inv\<close> holds at the
  start and every step keeps it. Clients obtain it for whole runs.
\<close>

locale invariant_machine =
  fixes initial :: "'s \<Rightarrow> bool"
    and step :: "'e \<Rightarrow> 's \<Rightarrow> 's"
    and inv :: "'s \<Rightarrow> bool"
  assumes inv_initial: "initial s \<Longrightarrow> inv s"
    and inv_step: "inv s \<Longrightarrow> inv (step e s)"
begin

lemma inv_run: "inv s \<Longrightarrow> inv (fold step es s)"
  by (induction es arbitrary: s) (auto intro: inv_step)

lemma inv_reachable: "initial s \<Longrightarrow> inv (fold step es s)"
  by (rule inv_run) (rule inv_initial)

lemma inv_prefix: "initial s \<Longrightarrow> inv (fold step (take n es) s)"
  by (rule inv_reachable)

end

section \<open>Lists\<close>

lemma sort_key_sorted_id: "sorted (map f xs) \<Longrightarrow> sort_key f xs = xs"
  by (induction xs) (auto simp: insort_is_Cons)

lemma find_Some_in: "find P xs = Some x \<Longrightarrow> x \<in> set xs \<and> P x"
  by (auto simp: find_Some_iff)

lemma find_None_all: "find P xs = None \<longleftrightarrow> (\<forall>x \<in> set xs. \<not> P x)"
  by (auto simp: find_None_iff)

lemma sum_list_filter_le: "(\<And>x. x \<in> set xs \<Longrightarrow> (0::int) \<le> f x) \<Longrightarrow>
    sum_list (map f (filter P xs)) \<le> sum_list (map f xs)"
  by (induction xs) (auto simp: add_increasing)

end
