(* ===== verification/Py_Text.thy ===== *)
theory Py_Text imports Prelude begin

text \<open>
  The part of Python's \<open>str\<close> the sources use. A string is a list of code points; HOL's
  \<^typ>\<open>char\<close> holds the points U+0000 to U+00FF, and every character class below is the
  one CPython uses on that range.
\<close>

section \<open>Character classes\<close>

definition code :: "char \<Rightarrow> nat" where
  "code c = of_char c"

definition is_space :: "char \<Rightarrow> bool" where
  "is_space c = (let n = code c in
     9 \<le> n \<and> n \<le> 13 \<or> 28 \<le> n \<and> n \<le> 31 \<or> n = 32 \<or> n = 133 \<or> n = 160)"

text \<open>\<open>int()\<close> maps the spaces from U+007F on to blanks and then strips C's \<open>isspace\<close>
  only, so the separators U+001C to U+001F are not skipped.\<close>

definition is_int_space :: "char \<Rightarrow> bool" where
  "is_int_space c = (let n = code c in
     9 \<le> n \<and> n \<le> 13 \<or> n = 32 \<or> n = 133 \<or> n = 160)"

definition is_line_break :: "char \<Rightarrow> bool" where
  "is_line_break c = (let n = code c in 10 \<le> n \<and> n \<le> 13 \<or> 28 \<le> n \<and> n \<le> 30 \<or> n = 133)"

definition is_dec :: "char \<Rightarrow> bool" where
  "is_dec c = (let n = code c in 48 \<le> n \<and> n \<le> 57)"

text \<open>\<open>str.isdigit\<close> also accepts the superscripts U+00B2, U+00B3 and U+00B9.\<close>

definition is_digit :: "char \<Rightarrow> bool" where
  "is_digit c = (is_dec c \<or> code c \<in> {178, 179, 185})"

definition is_alpha :: "char \<Rightarrow> bool" where
  "is_alpha c = (let n = code c in 65 \<le> n \<and> n \<le> 90 \<or> 97 \<le> n \<and> n \<le> 122 \<or> n = 170 \<or> n = 181 \<or>
     n = 186 \<or> 192 \<le> n \<and> n \<le> 214 \<or> 216 \<le> n \<and> n \<le> 246 \<or> 248 \<le> n)"

definition is_lower_hex :: "char \<Rightarrow> bool" where
  "is_lower_hex c = (let n = code c in 48 \<le> n \<and> n \<le> 57 \<or> 97 \<le> n \<and> n \<le> 102)"

definition lower_char :: "char \<Rightarrow> char" where
  "lower_char c = (let n = code c in
     if 65 \<le> n \<and> n \<le> 90 \<or> 192 \<le> n \<and> n \<le> 222 \<and> n \<noteq> 215 then char_of (n + 32) else c)"

definition ascii_upper_char :: "char \<Rightarrow> char" where
  "ascii_upper_char c = (let n = code c in if 97 \<le> n \<and> n \<le> 122 then char_of (n - 32) else c)"

definition lower :: "string \<Rightarrow> string" where
  "lower s = map lower_char s"

text \<open>\<open>s.upper()\<close> for ASCII \<open>s\<close>, the only strings the sources apply it to.\<close>

definition upper :: "string \<Rightarrow> string" where
  "upper s = map ascii_upper_char s"

definition str_isdigit :: "string \<Rightarrow> bool" where
  "str_isdigit s = (s \<noteq> [] \<and> list_all is_digit s)"

lemma code_lt [simp]: "code c < 256"
proof -
  have "code c = of_char c mod 256" by (simp add: code_def)
  then show ?thesis by simp
qed

lemma code_char_of: "n < 256 \<Longrightarrow> code (char_of n) = n"
  by (simp add: code_def)

lemma char_of_code [simp]: "char_of (code c) = c"
  by (simp add: code_def)

lemma code_inj: "code c = code d \<Longrightarrow> c = d"
  by (metis char_of_code)

lemma lower_idem [simp]: "lower (lower s) = lower s"
proof -
  have "lower_char (lower_char c) = lower_char c" for c
    by (auto simp: lower_char_def Let_def code_char_of)
  then show ?thesis by (simp add: lower_def)
qed

lemma lower_append [simp]: "lower (s @ t) = lower s @ lower t"
  and lower_Nil [simp]: "lower [] = []"
  and length_lower [simp]: "length (lower s) = length s"
  by (simp_all add: lower_def)

section \<open>Trimming and splitting\<close>

definition lstrip_by :: "(char \<Rightarrow> bool) \<Rightarrow> string \<Rightarrow> string" where
  "lstrip_by P s = dropWhile P s"

definition strip_by :: "(char \<Rightarrow> bool) \<Rightarrow> string \<Rightarrow> string" where
  "strip_by P s = rev (dropWhile P (rev (dropWhile P s)))"

definition strip :: "string \<Rightarrow> string" where
  "strip s = strip_by is_space s"

text \<open>\<open>s.split(sep)\<close> for a one-character separator.\<close>

fun split_on :: "char \<Rightarrow> string \<Rightarrow> string list" where
  "split_on sep [] = [[]]"
| "split_on sep (c # s) = (if c = sep then [] # split_on sep s
     else case split_on sep s of [] \<Rightarrow> [[c]] | w # ws \<Rightarrow> (c # w) # ws)"

text \<open>\<open>s.split(sep, n)\<close>.\<close>

fun split_max :: "char \<Rightarrow> nat \<Rightarrow> string \<Rightarrow> string list" where
  "split_max sep 0 s = [s]"
| "split_max sep (Suc n) s = (case dropWhile (\<lambda>c. c \<noteq> sep) s of
     [] \<Rightarrow> [s] | _ # rest \<Rightarrow> takeWhile (\<lambda>c. c \<noteq> sep) s # split_max sep n rest)"

text \<open>\<open>s.partition(sep)\<close> without the separator: what is before it and what is after.\<close>

definition partition :: "char \<Rightarrow> string \<Rightarrow> string \<times> string" where
  "partition sep s = (takeWhile (\<lambda>c. c \<noteq> sep) s, drop 1 (dropWhile (\<lambda>c. c \<noteq> sep) s))"

text \<open>\<open>s.split()\<close>: maximal runs of non-space characters.\<close>

fun words_acc :: "string \<Rightarrow> string \<Rightarrow> string list" where
  "words_acc w [] = (if w = [] then [] else [rev w])"
| "words_acc w (c # s) = (if is_space c then (if w = [] then words_acc [] s else rev w # words_acc [] s)
     else words_acc (c # w) s)"

definition words :: "string \<Rightarrow> string list" where
  "words s = words_acc [] s"

text \<open>\<open>s.splitlines()\<close>: a final line break opens no further line, \<open>\r\n\<close> is one break.\<close>

fun lines_acc :: "string \<Rightarrow> string \<Rightarrow> string list" where
  "lines_acc w [] = (if w = [] then [] else [rev w])"
| "lines_acc w (c # s) = (if is_line_break c
     then rev w # lines_acc [] (if code c = 13 \<and> s \<noteq> [] \<and> code (hd s) = 10 then tl s else s)
     else lines_acc (c # w) s)"

definition splitlines :: "string \<Rightarrow> string list" where
  "splitlines s = lines_acc [] s"

fun join :: "string \<Rightarrow> string list \<Rightarrow> string" where
  "join sep [] = []"
| "join sep [w] = w"
| "join sep (w # v # ws) = w @ sep @ join sep (v # ws)"

definition startswith :: "string \<Rightarrow> string \<Rightarrow> bool" where
  "startswith s p = (take (length p) s = p)"

definition removeprefix :: "string \<Rightarrow> string \<Rightarrow> string" where
  "removeprefix s p = (if startswith s p then drop (length p) s else s)"

lemma split_on_not_Nil [simp]: "split_on sep s \<noteq> []"
  by (induction s) (auto split: list.splits)

lemma split_on_no_sep: "w \<in> set (split_on sep s) \<Longrightarrow> sep \<notin> set w"
  by (induction s arbitrary: w) (auto split: if_splits list.splits)

lemma split_on_single: "sep \<notin> set s \<Longrightarrow> split_on sep s = [s]"
  by (induction s) auto

lemma split_on_append: "sep \<notin> set w \<Longrightarrow> split_on sep (w @ sep # s) = w # split_on sep s"
  by (induction w) auto

lemma join_split: "join [sep] (split_on sep s) = s"
proof (induction s)
  case (Cons c s)
  obtain w ws where w: "split_on sep s = w # ws" by (cases "split_on sep s") auto
  show ?case
    using Cons.IH w by (cases ws) (auto split: list.splits)
qed simp

lemma split_join:
  "ws \<noteq> [] \<Longrightarrow> (\<And>w. w \<in> set ws \<Longrightarrow> sep \<notin> set w) \<Longrightarrow> split_on sep (join [sep] ws) = ws"
  by (induction "[sep]" ws rule: join.induct) (auto simp: split_on_single split_on_append)

lemma partition_join: "sep \<notin> set k \<Longrightarrow> partition sep (k @ sep # v) = (k, v)"
  by (induction k) (auto simp: partition_def)

lemma partition_no_sep: "sep \<notin> set (fst (partition sep s))"
  by (auto simp: partition_def dest: set_takeWhileD)

lemma startswith_append [simp]: "startswith (p @ s) p"
  by (simp add: startswith_def)

lemma startswith_split: "startswith s p \<Longrightarrow> s = p @ drop (length p) s"
  by (metis append_take_drop_id startswith_def)

lemma startswith_iff: "startswith s p \<longleftrightarrow> (\<exists>t. s = p @ t)"
  by (metis append_take_drop_id startswith_append startswith_def)

lemma words_acc_no_space: "w \<in> set (words_acc v s) \<Longrightarrow> list_all (\<lambda>c. \<not> is_space c) v \<Longrightarrow>
    w \<noteq> [] \<and> list_all (\<lambda>c. \<not> is_space c) w"
proof (induction s arbitrary: v)
  case Nil
  then show ?case by (cases "v = []") (simp_all add: list_all_iff)
next
  case (Cons c s)
  have "list_all (\<lambda>c. \<not> is_space c) (rev v)"
    using Cons.prems(2) by (simp add: list_all_iff)
  with Cons.prems Cons.IH [of "[]"] Cons.IH [of "c # v"] show ?case
    by (cases "is_space c"; cases "v = []") auto
qed

lemma words_no_space: "w \<in> set (words s) \<Longrightarrow> w \<noteq> [] \<and> (\<forall>c \<in> set w. \<not> is_space c)"
  using words_acc_no_space [of w "[]" s] by (simp add: words_def list_all_iff)

section \<open>Numbers as text\<close>

definition digit_char :: "nat \<Rightarrow> char" where
  "digit_char n = char_of (48 + n)"

fun nat_str :: "nat \<Rightarrow> string" where
  "nat_str n = (if n < 10 then [digit_char n] else nat_str (n div 10) @ [digit_char (n mod 10)])"

declare nat_str.simps [simp del]

definition int_str :: "int \<Rightarrow> string" where
  "int_str i = (if i < 0 then CHR ''-'' # nat_str (nat (- i)) else nat_str (nat i))"

definition digit_val :: "char \<Rightarrow> nat" where
  "digit_val c = code c - 48"

definition digits_val :: "string \<Rightarrow> nat" where
  "digits_val s = foldl (\<lambda>n c. 10 * n + digit_val c) 0 s"

text \<open>The digits of an integer literal: decimal digits with single underscores between them.\<close>

fun int_body :: "string \<Rightarrow> bool" where
  "int_body [] = False"
| "int_body [c] = is_dec c"
| "int_body (c # d # s) = (is_dec c \<and> (if d = CHR ''_'' then int_body s else int_body (d # s)))"

text \<open>\<open>int(s)\<close>; \<open>None\<close> is the \<open>ValueError\<close>, also raised beyond 4300 digits.\<close>

definition py_int :: "string \<Rightarrow> int option" where
  "py_int s = (let t = strip_by is_int_space s;
                   neg = (t \<noteq> [] \<and> hd t = CHR ''-'');
                   body = (if t \<noteq> [] \<and> (hd t = CHR ''-'' \<or> hd t = CHR ''+'') then tl t else t);
                   ds = filter is_dec body
               in if int_body body \<and> length ds \<le> 4300
                  then Some (if neg then - int (digits_val ds) else int (digits_val ds)) else None)"

lemma digit_char_dec: "n < 10 \<Longrightarrow> is_dec (digit_char n)"
  by (simp add: is_dec_def digit_char_def code_char_of)

lemma digit_val_char: "n < 10 \<Longrightarrow> digit_val (digit_char n) = n"
  by (simp add: digit_val_def digit_char_def code_char_of)

lemma digits_val_snoc: "digits_val (s @ [c]) = 10 * digits_val s + digit_val c"
  by (simp add: digits_val_def)

lemma digits_val_nat_str [simp]: "digits_val (nat_str n) = n"
proof (induction n rule: nat_str.induct)
  case (1 n)
  show ?case
  proof (cases "n < 10")
    case True
    then show ?thesis by (simp add: nat_str.simps digits_val_def digit_val_char)
  next
    case False
    with 1 show ?thesis
      by (subst nat_str.simps) (simp add: digits_val_snoc digit_val_char)
  qed
qed

lemma nat_str_dec: "\<forall>c \<in> set (nat_str n). is_dec c"
proof (induction n rule: nat_str.induct)
  case (1 n)
  then show ?case
    by (subst nat_str.simps) (auto simp: digit_char_dec)
qed

lemma nat_str_nonempty [simp]: "nat_str n \<noteq> []"
  by (subst nat_str.simps) simp

lemma nat_str_inj: "nat_str m = nat_str n \<Longrightarrow> m = n"
  by (metis digits_val_nat_str)

lemma is_dec_not:
  assumes "is_dec c"
  shows "c \<noteq> CHR '',''" "c \<noteq> CHR ''_''" "c \<noteq> CHR ''-''" "c \<noteq> CHR ''+''" "c \<noteq> CHR '':''"
    "c \<noteq> CHR ''=''" "\<not> is_space c" "\<not> is_int_space c"
proof -
  from assms have n: "48 \<le> code c" "code c \<le> 57" by (simp_all add: is_dec_def Let_def)
  have "code (CHR '','') = 44" "code (CHR ''_'') = 95" "code (CHR ''-'') = 45" "code (CHR ''+'') = 43"
    "code (CHR '':'') = 58" "code (CHR ''='') = 61"
    by (simp_all add: code_def)
  with n show "c \<noteq> CHR '',''" "c \<noteq> CHR ''_''" "c \<noteq> CHR ''-''" "c \<noteq> CHR ''+''" "c \<noteq> CHR '':''"
    "c \<noteq> CHR ''=''" by fastforce+
  from n show "\<not> is_space c" "\<not> is_int_space c"
    by (simp_all add: is_space_def is_int_space_def Let_def)
qed

lemma nat_str_chars: "c \<in> set (nat_str n) \<Longrightarrow> is_dec c"
  using nat_str_dec by blast

lemma int_str_inj: "int_str i = int_str j \<Longrightarrow> i = j"
proof -
  assume eq: "int_str i = int_str j"
  have hd: "hd (nat_str n) \<noteq> CHR ''-''" for n
    by (rule is_dec_not(3), rule nat_str_chars [of _ n]) simp
  show "i = j"
  proof (cases "i < 0"; cases "j < 0")
    assume "i < 0" "j < 0"
    with eq nat_str_inj show ?thesis by (fastforce simp: int_str_def)
  next
    assume "i < 0" "\<not> j < 0"
    with eq hd show ?thesis by (metis int_str_def list.sel(1))
  next
    assume "\<not> i < 0" "j < 0"
    with eq hd show ?thesis by (metis int_str_def list.sel(1))
  next
    assume "\<not> i < 0" "\<not> j < 0"
    with eq nat_str_inj show ?thesis by (fastforce simp: int_str_def)
  qed
qed

lemma int_body_digits: "s \<noteq> [] \<Longrightarrow> \<forall>c \<in> set s. is_dec c \<Longrightarrow> int_body s"
  by (induction s rule: int_body.induct) (use is_dec_not in auto)

lemma strip_by_id: "s = [] \<or> \<not> P (hd s) \<and> \<not> P (last s) \<Longrightarrow> strip_by P s = s"
proof (cases s)
  case (Cons c t)
  assume "s = [] \<or> \<not> P (hd s) \<and> \<not> P (last s)"
  with Cons have c: "\<not> P c" and l: "\<not> P (last s)" by auto
  obtain d u where r: "rev s = d # u" and d: "d = last s"
    using Cons by (metis hd_rev list.exhaust_sel list.simps(3) rev_is_Nil_conv)
  from c Cons have "dropWhile P s = s" by simp
  moreover from l d have "dropWhile P (d # u) = d # u" by simp
  then have "dropWhile P (rev s) = rev s" by (simp only: r)
  ultimately show ?thesis by (simp add: strip_by_def)
qed (simp add: strip_by_def)

lemma py_int_nat_str: "length (nat_str n) \<le> 4300 \<Longrightarrow> py_int (nat_str n) = Some (int n)"
proof -
  assume len: "length (nat_str n) \<le> 4300"
  have hd: "is_dec (hd (nat_str n))" by (rule nat_str_chars [of _ n]) simp
  have la: "is_dec (last (nat_str n))" by (rule nat_str_chars [of _ n]) simp
  have "strip_by is_int_space (nat_str n) = nat_str n"
    using hd la is_dec_not by (intro strip_by_id) blast
  moreover have "filter is_dec (nat_str n) = nat_str n"
    using nat_str_dec by (simp add: filter_id_conv)
  moreover have "int_body (nat_str n)" using nat_str_dec by (intro int_body_digits) auto
  moreover have "hd (nat_str n) \<noteq> CHR ''-''" "hd (nat_str n) \<noteq> CHR ''+''"
    using hd is_dec_not by blast+
  ultimately show ?thesis using len by (simp add: py_int_def Let_def)
qed

section \<open>\<open>repr\<close> of strings and lists\<close>

definition hex_digit :: "nat \<Rightarrow> char" where
  "hex_digit n = (if n < 10 then char_of (48 + n) else char_of (87 + n))"

definition is_printable :: "char \<Rightarrow> bool" where
  "is_printable c = (let n = code c in 32 \<le> n \<and> n \<le> 126 \<or> 161 \<le> n \<and> n \<noteq> 173)"

definition repr_char :: "char \<Rightarrow> char \<Rightarrow> string" where
  "repr_char q c = (let n = code c in
     if c = q \<or> n = 92 then [char_of (92::nat), c]
     else if n = 9 then [char_of (92::nat), CHR ''t''] else if n = 10 then [char_of (92::nat), CHR ''n'']
     else if n = 13 then [char_of (92::nat), CHR ''r'']
     else if is_printable c then [c]
     else [char_of (92::nat), CHR ''x'', hex_digit (n div 16), hex_digit (n mod 16)])"

text \<open>Single quotes, unless the string holds a single quote and no double quote.\<close>

definition repr_str :: "string \<Rightarrow> string" where
  "repr_str s = (let q = (if char_of (39::nat) \<in> set s \<and> char_of (34::nat) \<notin> set s
                          then char_of (34::nat) else char_of (39::nat))
                 in [q] @ concat (map (repr_char q) s) @ [q])"

definition repr_list :: "('a \<Rightarrow> string) \<Rightarrow> 'a list \<Rightarrow> string" where
  "repr_list r xs = ''['' @ join '', '' (map r xs) @ '']''"

end
