(* ===== verification/Procmap.thy ===== *)
theory Procmap imports Py_Text begin

text \<open>
  \<open>labgpu/procmap.py\<close>: from a process's \<open>/proc/<pid>/cgroup\<close> text to the Docker
  container it runs in. Reading the file is the parameter \<open>read_cgroup\<close>.
\<close>

definition is_container_id :: "string \<Rightarrow> bool" where
  "is_container_id s = (length s = 64 \<and> list_all is_lower_hex s)"

text \<open>\<open>(?:/|$)\<close>: a lines's text holds no line break, so \<open>$\<close> is the end.\<close>

definition at_end :: "string \<Rightarrow> bool" where
  "at_end s = (s = [] \<or> hd s = CHR ''/'')"

text \<open>The identifier at the head of \<open>s\<close>: 64 hex digits, perhaps \<open>.scope\<close>, then a slash
  or the end.\<close>

definition id_at :: "string \<Rightarrow> string option" where
  "id_at s = (let w = take 64 s; r = drop 64 s in
     if is_container_id w \<and> (startswith r ''.scope'' \<and> at_end (drop 6 r) \<or> at_end r) then Some w else None)"

fun search_after_sep :: "string \<Rightarrow> string option" where
  "search_after_sep [] = None"
| "search_after_sep (c # s) = (if c = CHR ''/'' \<or> c = CHR ''-''
     then (case id_at s of Some w \<Rightarrow> Some w | None \<Rightarrow> search_after_sep s) else search_after_sep s)"

text \<open>\<open>_rx_container_id.search\<close>: leftmost match, first at the start of the text, then after
  each slash or hyphen.\<close>

definition search_container_id :: "string \<Rightarrow> string option" where
  "search_container_id s = (case id_at s of Some w \<Rightarrow> Some w | None \<Rightarrow> search_after_sep s)"

fun parse_cgroup_lines :: "string list \<Rightarrow> string option" where
  "parse_cgroup_lines [] = None"
| "parse_cgroup_lines (l # ls) = (case split_max (CHR '':'') 2 l of
     [_, _, path] \<Rightarrow> (case search_container_id path of Some w \<Rightarrow> Some w | None \<Rightarrow> parse_cgroup_lines ls)
   | _ \<Rightarrow> parse_cgroup_lines ls)"

definition parse_cgroup :: "string \<Rightarrow> string option" where
  "parse_cgroup text = parse_cgroup_lines (splitlines text)"

definition cgroup_v2_path :: "string \<Rightarrow> string option" where
  "cgroup_v2_path text = map_option (drop 3) (find (\<lambda>l. startswith l ''0::'') (splitlines text))"

definition container_of_pid :: "(int \<Rightarrow> string result) \<Rightarrow> int \<Rightarrow> string option result" where
  "container_of_pid read_cgroup pid = (case read_cgroup pid of
     Inl e \<Rightarrow> if is_os_error e then Inr None else Inl e
   | Inr text \<Rightarrow> Inr (parse_cgroup text))"

definition map_pids :: "(int \<Rightarrow> string result) \<Rightarrow> int list \<Rightarrow> (int, string option) pydict result" where
  "map_pids read_cgroup pids =
     rmap (\<lambda>cs. dict_of (zip pids cs)) (traverse (container_of_pid read_cgroup) pids)"

section \<open>Properties\<close>

text \<open>The regular expression's language: an identifier between boundaries.\<close>

definition occurs :: "string \<Rightarrow> string \<Rightarrow> bool" where
  "occurs w s \<longleftrightarrow> (\<exists>p q. s = p @ w @ q \<and> is_container_id w \<and>
     (p = [] \<or> last p = CHR ''/'' \<or> last p = CHR ''-'') \<and>
     (at_end q \<or> (\<exists>q'. q = ''.scope'' @ q' \<and> at_end q')))"

lemma id_at_SomeD:
  assumes "id_at s = Some w"
  obtains q where "s = w @ q" "is_container_id w" "at_end q \<or> (\<exists>q'. q = ''.scope'' @ q' \<and> at_end q')"
proof -
  from assms have w: "w = take 64 s" "is_container_id w"
    and r: "startswith (drop 64 s) ''.scope'' \<and> at_end (drop 6 (drop 64 s)) \<or> at_end (drop 64 s)"
    by (auto simp: id_at_def Let_def split: if_splits)
  have "at_end (drop 64 s) \<or> (\<exists>q'. drop 64 s = ''.scope'' @ q' \<and> at_end q')"
  proof (rule disjE [OF r])
    assume "startswith (drop 64 s) ''.scope'' \<and> at_end (drop 6 (drop 64 s))"
    then show ?thesis using startswith_split [of "drop 64 s" "''.scope''"] by simp
  qed simp
  then show thesis using that [of "drop 64 s"] w by simp
qed

lemma id_atI:
  assumes "is_container_id w" "at_end q \<or> (\<exists>q'. q = ''.scope'' @ q' \<and> at_end q')"
  shows "id_at (w @ q) = Some w"
proof -
  have "take 64 (w @ q) = w" "drop 64 (w @ q) = q" using assms(1) by (simp_all add: is_container_id_def)
  moreover have "startswith q ''.scope'' \<and> at_end (drop 6 q) \<or> at_end q"
    using assms(2) by (auto simp: startswith_iff)
  ultimately show ?thesis using assms(1) by (simp add: id_at_def)
qed

lemma search_after_sep_sound:
  "search_after_sep s = Some w \<Longrightarrow> \<exists>p q. s = p @ w @ q \<and> is_container_id w \<and> p \<noteq> [] \<and>
     (last p = CHR ''/'' \<or> last p = CHR ''-'') \<and> (at_end q \<or> (\<exists>q'. q = ''.scope'' @ q' \<and> at_end q'))"
proof (induction s)
  case (Cons c s)
  show ?case
  proof (cases "(c = CHR ''/'' \<or> c = CHR ''-'') \<and> id_at s = Some w")
    case True
    then obtain q where "s = w @ q" "is_container_id w" "at_end q \<or> (\<exists>q'. q = ''.scope'' @ q' \<and> at_end q')"
      by (auto elim: id_at_SomeD)
    with True show ?thesis by (intro exI [of _ "[c]"] exI [of _ q]) auto
  next
    case False
    with Cons.prems have "search_after_sep s = Some w" by (auto split: if_splits option.splits)
    from Cons.IH [OF this] obtain p q where "s = p @ w @ q" "is_container_id w" "p \<noteq> []"
      "last p = CHR ''/'' \<or> last p = CHR ''-''" "at_end q \<or> (\<exists>q'. q = ''.scope'' @ q' \<and> at_end q')"
      by blast
    then show ?thesis by (intro exI [of _ "c # p"] exI [of _ q]) auto
  qed
qed simp

lemma search_after_sep_complete:
  "search_after_sep s = None \<Longrightarrow> s = p @ c # w @ q \<Longrightarrow> c = CHR ''/'' \<or> c = CHR ''-'' \<Longrightarrow> id_at (w @ q) = None"
proof (induction p arbitrary: s)
  case Nil
  then show ?case by (auto split: option.splits)
next
  case (Cons d p)
  from Cons.prems(1,2) have "search_after_sep (p @ c # w @ q) = None"
    by (auto split: if_splits option.splits)
  from Cons.IH [OF this refl Cons.prems(3)] show ?case .
qed

lemma search_sound: "search_container_id s = Some w \<Longrightarrow> occurs w s"
proof -
  assume s: "search_container_id s = Some w"
  show ?thesis
  proof (cases "id_at s")
    case None
    with s have "search_after_sep s = Some w" by (simp add: search_container_id_def)
    from search_after_sep_sound [OF this] show ?thesis unfolding occurs_def by blast
  next
    case (Some v)
    with s have "id_at s = Some w" by (simp add: search_container_id_def)
    then show ?thesis by (elim id_at_SomeD) (auto simp: occurs_def intro: exI [of _ "[]"])
  qed
qed

lemma search_complete: "search_container_id s = None \<Longrightarrow> \<not> occurs w s"
proof
  assume none: "search_container_id s = None" and "occurs w s"
  then obtain p q where s: "s = p @ w @ q" and w: "is_container_id w"
    and p: "p = [] \<or> last p = CHR ''/'' \<or> last p = CHR ''-''"
    and q: "at_end q \<or> (\<exists>q'. q = ''.scope'' @ q' \<and> at_end q')" by (auto simp: occurs_def)
  from none have none': "id_at s = None" "search_after_sep s = None"
    by (auto simp: search_container_id_def split: option.splits)
  show False
  proof (cases "p = []")
    case True
    with s none'(1) id_atI [OF w q] show ?thesis by simp
  next
    case False
    then have "s = butlast p @ last p # w @ q" using s by (metis append_Cons append_assoc append_butlast_last_id append_self_conv2)
    with none'(2) p False have "id_at (w @ q) = None" by (intro search_after_sep_complete) auto
    with id_atI [OF w q] show ?thesis by simp
  qed
qed

text \<open>The container path of a cgroup line: what follows its second colon.\<close>

definition line_path :: "string \<Rightarrow> string option" where
  "line_path l = (case split_max (CHR '':'') 2 l of [_, _, path] \<Rightarrow> Some path | _ \<Rightarrow> None)"

lemma parse_cgroup_lines_Cons: "parse_cgroup_lines (l # ls) =
    (case line_path l of None \<Rightarrow> parse_cgroup_lines ls | Some path \<Rightarrow>
       (case search_container_id path of Some w \<Rightarrow> Some w | None \<Rightarrow> parse_cgroup_lines ls))"
  by (simp add: line_path_def split: list.splits option.splits)

declare parse_cgroup_lines.simps(2) [simp del]

lemma parse_cgroup_lines_sound: "parse_cgroup_lines ls = Some w \<Longrightarrow>
    \<exists>l \<in> set ls. \<exists>path. line_path l = Some path \<and> occurs w path"
  by (induction ls) (auto simp: parse_cgroup_lines_Cons dest: search_sound split: option.splits)

lemma parse_cgroup_lines_None: "parse_cgroup_lines ls = None \<longleftrightarrow>
    (\<forall>l \<in> set ls. \<forall>path. line_path l = Some path \<longrightarrow> search_container_id path = None)"
  by (induction ls) (auto simp: parse_cgroup_lines_Cons split: option.splits)

end
