(* ===== verification/Py_Num.thy ===== *)
theory Py_Num imports Py_Text begin

text \<open>
  Python's \<open>float\<close> (IEEE binary64) and \<open>decimal.Decimal\<close> under the default context
  (28 digits, round half to even), over their exact values in \<^typ>\<open>rat\<close>. Each arithmetic
  operation of the sources is the exact one followed by \<open>fl\<close> or \<open>dec_rnd\<close>. Infinities
  and NaNs are not values of the model; where the code can produce an infinity the
  overflow is tested by \<open>fl_overflows\<close>.
\<close>

section \<open>Rounding to a number of significant digits\<close>

text \<open>Digits of \<open>n\<close> in base \<open>b\<close> (none for \<open>0\<close>).\<close>

fun num_digits :: "nat \<Rightarrow> nat \<Rightarrow> nat" where
  "num_digits b n = (if n = 0 \<or> b < 2 then 0 else Suc (num_digits b (n div b)))"

declare num_digits.simps [simp del]

definition pow_int :: "nat \<Rightarrow> int \<Rightarrow> rat" where
  "pow_int b e = (if 0 \<le> e then of_nat b ^ nat e else 1 / of_nat b ^ nat (- e))"

text \<open>The exponent \<open>e\<close> with \<open>b\<^sup>e \<le> x < b\<^sup>e\<^sup>+\<^sup>1\<close>, for positive \<open>x\<close>.\<close>

definition adj_exp :: "nat \<Rightarrow> rat \<Rightarrow> int" where
  "adj_exp b x = (if 1 \<le> x then int (num_digits b (nat \<lfloor>x\<rfloor>)) - 1
                  else - int (num_digits b (nat (\<lceil>1 / x\<rceil> - 1))))"

definition round_half_even :: "rat \<Rightarrow> int" where
  "round_half_even x = (let f = \<lfloor>x\<rfloor>; d = x - of_int f in
     if d < 1 / 2 then f else if 1 / 2 < d then f + 1 else if even f then f else f + 1)"

definition quantum_exp :: "nat \<Rightarrow> nat \<Rightarrow> int \<Rightarrow> rat \<Rightarrow> int" where
  "quantum_exp b p emin x = max (adj_exp b \<bar>x\<bar> - int p + 1) emin"

definition round_to :: "nat \<Rightarrow> nat \<Rightarrow> int \<Rightarrow> rat \<Rightarrow> rat" where
  "round_to b p emin x = (if x = 0 then 0
     else let q = pow_int b (quantum_exp b p emin x) in of_int (round_half_even (x / q)) * q)"

definition rep :: "nat \<Rightarrow> nat \<Rightarrow> int \<Rightarrow> rat \<Rightarrow> bool" where
  "rep b p emin y \<longleftrightarrow> (\<exists>m e. y = of_int m * pow_int b e \<and> \<bar>m\<bar> \<le> int b ^ p \<and> emin \<le> e)"

subsection \<open>Powers and exponents\<close>

lemma pow_int_pos [simp]: "2 \<le> b \<Longrightarrow> 0 < pow_int b e"
  by (simp add: pow_int_def)

lemma pow_int_nonzero [simp]: "2 \<le> b \<Longrightarrow> pow_int b e \<noteq> 0"
  using pow_int_pos [of b e] by linarith

lemma pow_int_0 [simp]: "pow_int b 0 = 1"
  by (simp add: pow_int_def)

lemma pow_int_nat: "pow_int b (int n) = of_nat b ^ n"
  by (simp add: pow_int_def)

lemma pow_int_neg_nat: "pow_int b (- int n) = 1 / of_nat b ^ n"
proof (cases "n = 0")
  case False
  then have "\<not> 0 \<le> - int n" by simp
  then show ?thesis by (simp add: pow_int_def)
qed simp

lemma pow_int_powi: "2 \<le> b \<Longrightarrow> pow_int b e = of_nat b powi e"
  by (simp add: pow_int_def power_int_def divide_inverse power_inverse)

lemma pow_int_add: "2 \<le> b \<Longrightarrow> pow_int b (e + f) = pow_int b e * pow_int b f"
  by (simp add: pow_int_powi power_int_add)

lemma pow_int_mono: "2 \<le> b \<Longrightarrow> e \<le> f \<Longrightarrow> pow_int b e \<le> pow_int b f"
  by (simp add: pow_int_powi power_int_increasing)

lemma pow_int_multiple:
  assumes "2 \<le> b" "f \<le> e"
  shows "\<exists>k. 0 < k \<and> pow_int b e = of_int k * pow_int b f"
proof -
  have "pow_int b e = pow_int b (e - f) * pow_int b f"
    using pow_int_add [OF assms(1), of "e - f" f] by simp
  moreover have "pow_int b (e - f) = of_int (int b ^ nat (e - f))"
    using assms(2) by (simp add: pow_int_def)
  moreover have "0 < int b ^ nat (e - f)" using assms(1) by simp
  ultimately show ?thesis by metis
qed

lemma num_digits_bounds:
  "0 < n \<Longrightarrow> 2 \<le> b \<Longrightarrow> 0 < num_digits b n \<and> b ^ (num_digits b n - 1) \<le> n \<and> n < b ^ num_digits b n"
proof (induction b n rule: num_digits.induct)
  case (1 b n)
  show ?case
  proof (cases "n div b = 0")
    case True
    with 1 have "n < b" by (simp add: div_eq_0_iff)
    with 1 True show ?thesis by (subst (1 2 3) num_digits.simps) (simp add: num_digits.simps)
  next
    case False
    let ?d = "num_digits b (n div b)"
    from False 1 have ih: "0 < ?d" "b ^ (?d - 1) \<le> n div b" "n div b < b ^ ?d" by auto
    have eq: "num_digits b n = Suc ?d" using 1 by (subst num_digits.simps) simp
    have "b ^ ?d = b ^ (?d - 1) * b" using ih(1) by (metis Suc_diff_1 power_Suc2)
    also have "\<dots> \<le> n div b * b" using ih(2) by simp
    also have "\<dots> \<le> n" by simp
    finally have lo: "b ^ ?d \<le> n" .
    have "n < b ^ ?d * b" using ih(3) 1 by (simp add: div_less_iff_less_mult)
    then have hi: "n < b ^ Suc ?d" by (simp add: mult.commute)
    from eq lo hi show ?thesis by simp
  qed
qed

lemma adj_exp_bounds:
  assumes b: "2 \<le> b" and x: "0 < x"
  shows "pow_int b (adj_exp b x) \<le> x" "x < pow_int b (adj_exp b x + 1)"
proof -
  have "pow_int b (adj_exp b x) \<le> x \<and> x < pow_int b (adj_exp b x + 1)"
  proof (cases "1 \<le> x")
    case True
    let ?n = "nat \<lfloor>x\<rfloor>" and ?d = "num_digits b (nat \<lfloor>x\<rfloor>)"
    have n: "0 < ?n" using True by simp
    from num_digits_bounds [OF n b] have d: "0 < ?d" "b ^ (?d - 1) \<le> ?n" "?n < b ^ ?d" by auto
    have e: "adj_exp b x = int (?d - 1)" using True d(1) by (simp add: adj_exp_def)
    have "of_nat ?n = (of_int \<lfloor>x\<rfloor> :: rat)" using True by simp
    then have fl: "of_nat ?n \<le> x" "x < of_nat ?n + 1" by linarith+
    have "(of_nat b ^ (?d - 1) :: rat) \<le> of_nat ?n" using d(2) by (metis of_nat_le_iff of_nat_power)
    moreover have "of_nat ?n + 1 \<le> (of_nat b ^ ?d :: rat)"
      using d(3) by (metis Suc_leI add.commute of_nat_Suc of_nat_le_iff of_nat_power)
    moreover have "adj_exp b x + 1 = int ?d" using e d(1) by simp
    ultimately show ?thesis using fl e by (simp only: pow_int_nat) linarith
  next
    case False
    let ?z = "1 / x" let ?n = "nat (\<lceil>?z\<rceil> - 1)" let ?d = "num_digits b ?n"
    have z: "1 < ?z" using False x by simp
    then have c: "2 \<le> \<lceil>?z\<rceil>" by (simp add: le_ceiling_iff)
    then have n: "0 < ?n" by simp
    from num_digits_bounds [OF n b] have d: "0 < ?d" "b ^ (?d - 1) \<le> ?n" "?n < b ^ ?d" by auto
    have "of_nat ?n = (of_int (\<lceil>?z\<rceil> - 1) :: rat)"
      by (rule of_nat_nat) (use c in linarith)
    then have cl: "of_nat ?n < ?z" "?z \<le> of_nat ?n + 1" by linarith+
    have "(of_nat b ^ (?d - 1) :: rat) \<le> of_nat ?n" using d(2) by (metis of_nat_le_iff of_nat_power)
    moreover have "of_nat ?n + 1 \<le> (of_nat b ^ ?d :: rat)"
      using d(3) by (metis Suc_leI add.commute of_nat_Suc of_nat_le_iff of_nat_power)
    ultimately have lo: "of_nat b ^ (?d - 1) < ?z" and hi: "?z \<le> of_nat b ^ ?d" using cl by linarith+
    have pos: "(0::rat) < of_nat b ^ k" for k using b by simp
    have "1 / of_nat b ^ ?d \<le> x" using hi x pos [of ?d] by (simp add: field_simps)
    moreover have "x < 1 / of_nat b ^ (?d - 1)" using lo x pos [of "?d - 1"] by (simp add: field_simps)
    moreover have "pow_int b (adj_exp b x) = 1 / of_nat b ^ ?d"
      using False d(1) by (simp add: adj_exp_def pow_int_def)
    moreover have "pow_int b (adj_exp b x + 1) = 1 / of_nat b ^ (?d - 1)"
    proof -
      have "adj_exp b x + 1 = - int (?d - 1)" using False d(1) by (simp add: adj_exp_def)
      then show ?thesis by (simp only: pow_int_neg_nat)
    qed
    ultimately show ?thesis by simp
  qed
  then show "pow_int b (adj_exp b x) \<le> x" "x < pow_int b (adj_exp b x + 1)" by auto
qed

subsection \<open>Rounding to the nearest integer\<close>

lemma round_half_even_error: "\<bar>of_int (round_half_even x) - x\<bar> \<le> 1 / 2"
proof -
  have "of_int \<lfloor>x\<rfloor> \<le> x" "x < of_int \<lfloor>x\<rfloor> + 1" by linarith+
  then show ?thesis by (auto simp: round_half_even_def Let_def abs_le_iff)
qed

lemma round_half_even_near: "\<bar>of_int (round_half_even x) - x\<bar> \<le> \<bar>of_int k - x\<bar>"
proof -
  have f: "of_int \<lfloor>x\<rfloor> \<le> x" "x < of_int \<lfloor>x\<rfloor> + 1" by linarith+
  consider "k \<le> \<lfloor>x\<rfloor>" | "\<lfloor>x\<rfloor> + 1 \<le> k" by linarith
  then show ?thesis
  proof cases
    case 1
    then have "(of_int k :: rat) \<le> of_int \<lfloor>x\<rfloor>" by simp
    with f show ?thesis by (auto simp: round_half_even_def Let_def)
  next
    case 2
    then have "(of_int \<lfloor>x\<rfloor> + 1 :: rat) \<le> of_int k"
      by (metis of_int_1 of_int_add of_int_le_iff)
    with f show ?thesis by (auto simp: round_half_even_def Let_def)
  qed
qed

lemma round_half_even_of_int [simp]: "round_half_even (of_int k) = k"
  by (simp add: round_half_even_def Let_def)

subsection \<open>Rounding to a representable number\<close>

text \<open>A representable number between \<open>0\<close> and a bound in the binade of \<open>x\<close> is a multiple
  of \<open>x\<close>'s quantum or lies at most at the binade's lower end, itself a multiple.\<close>

lemma rep_multiple_or_low:
  assumes b: "2 \<le> b" and p: "0 < p" and x: "0 < x" and y: "rep b p emin y"
  shows "(\<exists>k. y = of_int k * pow_int b (quantum_exp b p emin x)) \<or>
    (\<exists>k. y \<le> of_int k * pow_int b (quantum_exp b p emin x) \<and>
      of_int k * pow_int b (quantum_exp b p emin x) \<le> x)"
proof -
  let ?q = "quantum_exp b p emin x" and ?E = "adj_exp b x"
  from y obtain m e where m: "y = of_int m * pow_int b e" "\<bar>m\<bar> \<le> int b ^ p" "emin \<le> e"
    by (auto simp: rep_def)
  show ?thesis
  proof (cases "?q \<le> e")
    case True
    from pow_int_multiple [OF b True] obtain k where "pow_int b e = of_int k * pow_int b ?q" by blast
    with m(1) have "y = of_int (m * k) * pow_int b ?q" by simp
    then show ?thesis by blast
  next
    case False
    with m(3) x have q: "?q = ?E - int p + 1" by (auto simp: quantum_exp_def)
    have "of_int m \<le> (of_nat b ^ p :: rat)"
      using m(2) by (metis abs_le_D1 of_int_le_iff of_int_of_nat_eq of_int_power)
    then have "y \<le> of_nat b ^ p * pow_int b e"
      unfolding m(1) using b by (intro mult_right_mono) (simp_all add: less_imp_le)
    also have "\<dots> = pow_int b (int p + e)" using b by (simp add: pow_int_add pow_int_nat)
    also have "\<dots> \<le> pow_int b ?E" using b False q by (intro pow_int_mono) auto
    finally have "y \<le> pow_int b ?E" .
    moreover obtain k where "pow_int b ?E = of_int k * pow_int b ?q"
      using pow_int_multiple [OF b, of ?q ?E] p q by auto
    ultimately show ?thesis using adj_exp_bounds(1) [OF b x] by metis
  qed
qed

lemma quantum_near:
  assumes "0 < q"
  shows "\<bar>of_int (round_half_even (x / q)) * q - x\<bar> \<le> \<bar>of_int k * q - x\<bar>"
proof -
  have "\<bar>of_int j * q - x\<bar> = \<bar>of_int j - x / q\<bar> * q" for j :: int
  proof -
    have "of_int j * q - x = (of_int j - x / q) * q" using assms by (simp add: field_simps)
    then show ?thesis using assms by (simp add: abs_mult)
  qed
  then show ?thesis using round_half_even_near [of "x / q" k] assms by simp
qed

lemma round_to_near_pos:
  assumes b: "2 \<le> b" and p: "0 < p" and x: "0 < x" and y: "rep b p emin y"
  shows "\<bar>round_to b p emin x - x\<bar> \<le> \<bar>y - x\<bar>"
proof -
  let ?q = "pow_int b (quantum_exp b p emin x)"
  have q: "0 < ?q" using b by simp
  have r: "round_to b p emin x = of_int (round_half_even (x / ?q)) * ?q"
    using x by (simp add: round_to_def Let_def)
  from rep_multiple_or_low [OF b p x y] obtain k where
    "y = of_int k * ?q \<or> y \<le> of_int k * ?q \<and> of_int k * ?q \<le> x" by blast
  then have "\<bar>of_int k * ?q - x\<bar> \<le> \<bar>y - x\<bar>" by auto
  with quantum_near [OF q, of x k] show ?thesis unfolding r by linarith
qed

lemma round_half_even_nonneg: "0 \<le> x \<Longrightarrow> 0 \<le> round_half_even x"
  by (simp add: round_half_even_def Let_def)

lemma round_half_even_le: "x \<le> of_int k \<Longrightarrow> round_half_even x \<le> k"
proof (rule ccontr)
  assume le: "x \<le> of_int k" and "\<not> round_half_even x \<le> k"
  then have "(of_int k + 1 :: rat) \<le> of_int (round_half_even x)"
    by (metis not_le of_int_1 of_int_add of_int_le_iff zless_imp_add1_zle)
  with round_half_even_near [of x k] le show False by linarith
qed

lemma round_half_even_minus: "round_half_even (- x) = - round_half_even x"
proof (cases "x = of_int \<lfloor>x\<rfloor>")
  case True
  then have "- x = of_int (- \<lfloor>x\<rfloor>)" by simp
  then show ?thesis by (metis True round_half_even_of_int)
next
  case False
  have f: "of_int \<lfloor>x\<rfloor> < x" "x < of_int \<lfloor>x\<rfloor> + 1" using False by linarith+
  have "\<lfloor>- x\<rfloor> = - \<lfloor>x\<rfloor> - 1" using f by linarith
  then show ?thesis using f by (auto simp: round_half_even_def Let_def)
qed

lemma round_to_minus: "round_to b p emin (- x) = - round_to b p emin x"
  by (simp add: round_to_def Let_def quantum_exp_def round_half_even_minus)

lemma rep_minus: "rep b p emin y \<Longrightarrow> rep b p emin (- y)"
proof -
  assume "rep b p emin y"
  then obtain m e where "y = of_int m * pow_int b e" "\<bar>m\<bar> \<le> int b ^ p" "emin \<le> e" by (auto simp: rep_def)
  then have "- y = of_int (- m) * pow_int b e" "\<bar>- m\<bar> \<le> int b ^ p" "emin \<le> e" by simp_all
  then show ?thesis unfolding rep_def by blast
qed

lemma round_to_near:
  assumes b: "2 \<le> b" and p: "0 < p" and y: "rep b p emin y"
  shows "\<bar>round_to b p emin x - x\<bar> \<le> \<bar>y - x\<bar>"
proof -
  consider "0 < x" | "x = 0" | "0 < - x" by linarith
  then show ?thesis
  proof cases
    case 1
    then show ?thesis using round_to_near_pos [OF b p _ y] by blast
  next
    case 2
    then show ?thesis by (simp add: round_to_def)
  next
    case 3
    have "\<bar>round_to b p emin (- x) - - x\<bar> \<le> \<bar>- y - - x\<bar>"
      by (rule round_to_near_pos [OF b p 3 rep_minus [OF y]])
    then show ?thesis by (simp add: round_to_minus abs_minus_commute)
  qed
qed

lemma rep_round_to:
  assumes b: "2 \<le> b" and p: "0 < p"
  shows "rep b p emin (round_to b p emin x)"
proof (cases "x = 0")
  case True
  then have "round_to b p emin x = of_int 0 * pow_int b emin" by (simp add: round_to_def)
  then show ?thesis unfolding rep_def by (intro exI [of _ 0] exI [of _ emin]) simp
next
  case False
  let ?e = "quantum_exp b p emin x" let ?q = "pow_int b ?e" let ?r = "round_half_even (x / ?q)"
  have q: "0 < ?q" using b by simp
  have "\<bar>x\<bar> < pow_int b (adj_exp b \<bar>x\<bar> + 1)" using False b by (intro adj_exp_bounds) auto
  also have "\<dots> \<le> pow_int b (int p + ?e)"
    using b by (intro pow_int_mono) (auto simp: quantum_exp_def)
  also have "\<dots> = of_nat b ^ p * ?q" using b by (simp add: pow_int_add pow_int_nat)
  finally have "\<bar>x\<bar> / ?q \<le> of_nat b ^ p" using q by (simp add: field_simps)
  then have "\<bar>x / ?q\<bar> \<le> of_int (int b ^ p)" using q by simp
  then have "x / ?q \<le> of_int (int b ^ p)" "- (x / ?q) \<le> of_int (int b ^ p)"
    by (simp_all only: abs_le_iff)
  then have "?r \<le> int b ^ p" "- ?r \<le> int b ^ p"
    using round_half_even_le [of "x / ?q" "int b ^ p"] round_half_even_le [of "- (x / ?q)" "int b ^ p"]
    by (simp_all only: round_half_even_minus)
  then have "\<bar>?r\<bar> \<le> int b ^ p" by (simp add: abs_le_iff)
  moreover have "emin \<le> ?e" by (simp add: quantum_exp_def)
  moreover have "round_to b p emin x = of_int ?r * ?q" using False by (simp add: round_to_def Let_def)
  ultimately show ?thesis unfolding rep_def by blast
qed

text \<open>The relative error is at most half a unit in the last of the \<open>p\<close> digits.\<close>

lemma round_to_error:
  assumes b: "2 \<le> b" and p: "0 < p"
  shows "\<bar>round_to b p emin x - x\<bar> \<le> \<bar>x\<bar> * pow_int b (1 - int p) / 2 + pow_int b emin / 2"
proof (cases "x = 0")
  case True
  then show ?thesis using pow_int_pos [OF b, of emin] by (simp add: round_to_def)
next
  case False
  let ?e = "quantum_exp b p emin x" let ?q = "pow_int b ?e"
  have q: "0 < ?q" using b by simp
  have "\<bar>of_int (round_half_even (x / ?q)) - x / ?q\<bar> * ?q \<le> 1 / 2 * ?q"
    using round_half_even_error q by (intro mult_right_mono) (simp_all add: less_imp_le)
  also have "\<bar>of_int (round_half_even (x / ?q)) - x / ?q\<bar> * ?q =
      \<bar>(of_int (round_half_even (x / ?q)) - x / ?q) * ?q\<bar>" using q by (simp add: abs_mult)
  also have "(of_int (round_half_even (x / ?q)) - x / ?q) * ?q = round_to b p emin x - x"
    using False q by (simp add: round_to_def Let_def left_diff_distrib)
  finally have err: "\<bar>round_to b p emin x - x\<bar> \<le> ?q / 2" by simp
  have "?q \<le> \<bar>x\<bar> * pow_int b (1 - int p) + pow_int b emin"
  proof (cases "?e = emin")
    case True
    then show ?thesis using pow_int_pos [OF b, of "1 - int p"] by simp
  next
    case False
    then have "?e = adj_exp b \<bar>x\<bar> + (1 - int p)" by (auto simp: quantum_exp_def)
    then have "?q = pow_int b (adj_exp b \<bar>x\<bar>) * pow_int b (1 - int p)" using b by (simp only: pow_int_add)
    also have "\<dots> \<le> \<bar>x\<bar> * pow_int b (1 - int p)"
      using adj_exp_bounds(1) [OF b, of "\<bar>x\<bar>"] \<open>x \<noteq> 0\<close> b
      by (intro mult_right_mono) (simp_all add: less_imp_le)
    finally show ?thesis using pow_int_pos [OF b, of emin] by linarith
  qed
  with err show ?thesis by (simp add: field_simps)
qed

lemma rep_int:
  assumes "2 \<le> b" "\<bar>k\<bar> \<le> int b ^ p" "emin \<le> 0"
  shows "rep b p emin (of_int k)"
  unfolding rep_def by (rule exI [of _ k], rule exI [of _ 0]) (use assms in simp)

section \<open>Rounding as an interface\<close>

text \<open>What the components use of a rounding: results are representable and no representable
  number is nearer to the exact value.\<close>

locale rounding =
  fixes rnd :: "rat \<Rightarrow> rat" and repr :: "rat \<Rightarrow> bool"
  assumes repr_rnd: "repr (rnd x)"
    and rnd_near: "repr y \<Longrightarrow> \<bar>rnd x - x\<bar> \<le> \<bar>y - x\<bar>"
begin

lemma rnd_repr: "repr y \<Longrightarrow> rnd y = y"
  using rnd_near [of y y] by simp

lemma rnd_idem: "rnd (rnd x) = rnd x"
  by (rule rnd_repr) (rule repr_rnd)

lemma rnd_le: "repr y \<Longrightarrow> x \<le> y \<Longrightarrow> rnd x \<le> y"
  using rnd_near [of y x] by linarith

lemma rnd_ge: "repr y \<Longrightarrow> y \<le> x \<Longrightarrow> y \<le> rnd x"
  using rnd_near [of y x] by linarith

lemma rnd_mono: "x \<le> y \<Longrightarrow> rnd x \<le> rnd y"
proof (rule ccontr)
  assume le: "x \<le> y" and "\<not> rnd x \<le> rnd y"
  then have lt: "rnd y < rnd x" by simp
  have "y < rnd x" using rnd_ge [OF repr_rnd [of x], of y] lt by linarith
  moreover have "rnd y < x" using rnd_le [OF repr_rnd [of y], of x] lt by linarith
  ultimately have "x = y"
    using rnd_near [OF repr_rnd [of y], of x] rnd_near [OF repr_rnd [of x], of y] le by linarith
  with lt show False by simp
qed

end

section \<open>Floats\<close>

definition fl :: "rat \<Rightarrow> rat" where
  "fl x = round_to 2 53 (-1074) x"

definition fl_rep :: "rat \<Rightarrow> bool" where
  "fl_rep y = rep 2 53 (-1074) y"

text \<open>Rounding the result up to \<open>2\<^sup>1\<^sup>0\<^sup>2\<^sup>4\<close> gives an infinity.\<close>

definition fl_overflows :: "rat \<Rightarrow> bool" where
  "fl_overflows x = (2 ^ 1024 \<le> \<bar>fl x\<bar>)"

definition fadd :: "rat \<Rightarrow> rat \<Rightarrow> rat" where "fadd a b = fl (a + b)"

definition fsub :: "rat \<Rightarrow> rat \<Rightarrow> rat" where "fsub a b = fl (a - b)"

definition fmul :: "rat \<Rightarrow> rat \<Rightarrow> rat" where "fmul a b = fl (a * b)"

definition fdiv :: "rat \<Rightarrow> rat \<Rightarrow> rat" where "fdiv a b = fl (a / b)"

interpretation flt: rounding fl fl_rep
  by unfold_locales (simp_all add: fl_def fl_rep_def rep_round_to round_to_near)

lemma fl_rep_int: "\<bar>k\<bar> \<le> 2 ^ 53 \<Longrightarrow> fl_rep (of_int k)"
  unfolding fl_rep_def by (rule rep_int) simp_all

lemma fl_of_int: "\<bar>k\<bar> \<le> 2 ^ 53 \<Longrightarrow> fl (of_int k) = of_int k"
  by (intro flt.rnd_repr fl_rep_int)

text \<open>Small integers, the common case when examples are evaluated, need no rounding.\<close>

lemma fl_code [code]: "fl x = (let k = \<lfloor>x\<rfloor> in if of_int k = x \<and> \<bar>k\<bar> \<le> 9007199254740992 then x else round_to 2 53 (-1074) x)"
  using fl_of_int [of "\<lfloor>x\<rfloor>"] by (auto simp: Let_def fl_def)

lemma fl_0 [simp]: "fl 0 = 0"
  using fl_of_int [of 0] by simp

lemma fl_1 [simp]: "fl 1 = 1"
  using fl_of_int [of 1] by simp

lemma fl_numeral: "numeral n \<le> (2 ^ 53 :: int) \<Longrightarrow> fl (numeral n) = numeral n"
  using fl_of_int [of "numeral n"] by simp

lemma fl_neg_numeral: "numeral n \<le> (2 ^ 53 :: int) \<Longrightarrow> fl (- numeral n) = - numeral n"
  using fl_of_int [of "- numeral n"] by simp

lemma fl_nonneg: "0 \<le> x \<Longrightarrow> 0 \<le> fl x"
  using flt.rnd_mono [of 0 x] by simp

lemma fl_nonpos: "x \<le> 0 \<Longrightarrow> fl x \<le> 0"
  using flt.rnd_mono [of x 0] by simp

lemma fl_half: "numeral n \<le> (2 ^ 53 :: int) \<Longrightarrow> fl (numeral n / 2) = numeral n / 2"
proof (rule flt.rnd_repr)
  assume "numeral n \<le> (2 ^ 53 :: int)"
  then show "fl_rep (numeral n / 2)"
    unfolding fl_rep_def rep_def
    by (intro exI [of _ "numeral n"] exI [of _ "-1"]) (simp add: pow_int_def)
qed

section \<open>Decimals\<close>

definition dec_rnd :: "rat \<Rightarrow> rat" where
  "dec_rnd x = round_to 10 28 (-1000026) x"

definition dec_rep :: "rat \<Rightarrow> bool" where
  "dec_rep y = rep 10 28 (-1000026) y"

definition dec_mul :: "rat \<Rightarrow> rat \<Rightarrow> rat" where "dec_mul a b = dec_rnd (a * b)"

definition dec_div :: "rat \<Rightarrow> rat \<Rightarrow> rat" where "dec_div a b = dec_rnd (a / b)"

interpretation dec: rounding dec_rnd dec_rep
  by unfold_locales (simp_all add: dec_rnd_def dec_rep_def rep_round_to round_to_near)

lemma dec_rep_int: "\<bar>k\<bar> \<le> 10 ^ 28 \<Longrightarrow> dec_rep (of_int k)"
  unfolding dec_rep_def by (rule rep_int) simp_all

lemma dec_rnd_0 [simp]: "dec_rnd 0 = 0"
  using dec.rnd_repr [OF dec_rep_int [of 0]] by simp

lemma dec_rnd_1 [simp]: "dec_rnd 1 = 1"
  using dec.rnd_repr [OF dec_rep_int [of 1]] by simp

lemma dec_rnd_nonneg: "0 \<le> x \<Longrightarrow> 0 \<le> dec_rnd x"
  using dec.rnd_mono [of 0 x] by simp

text \<open>A decimal literal: at most 28 digits and a point.\<close>

lemma dec_rnd_literal:
  assumes "\<bar>m\<bar> \<le> 10 ^ 28" "k \<le> 1000026"
  shows "dec_rnd (of_int m / 10 ^ k) = of_int m / 10 ^ k"
proof (rule dec.rnd_repr)
  show "dec_rep (of_int m / 10 ^ k)"
    unfolding dec_rep_def rep_def
    by (intro exI [of _ m] exI [of _ "- int k"]) (use assms in \<open>simp add: pow_int_neg_nat\<close>)
qed

text \<open>\<open>int(x)\<close> truncates toward zero.\<close>

definition trunc :: "rat \<Rightarrow> int" where
  "trunc x = (if 0 \<le> x then \<lfloor>x\<rfloor> else \<lceil>x\<rceil>)"

lemma trunc_nonneg: "0 \<le> x \<Longrightarrow> 0 \<le> trunc x"
  by (simp add: trunc_def)

lemma trunc_mono: "x \<le> y \<Longrightarrow> trunc x \<le> trunc y"
proof -
  assume le: "x \<le> y"
  have "\<lceil>x\<rceil> \<le> \<lfloor>y\<rfloor>" if "x < 0" "0 \<le> y"
  proof -
    have "\<lceil>x\<rceil> \<le> 0" using that(1) by (simp add: ceiling_le_iff)
    also have "0 \<le> \<lfloor>y\<rfloor>" using that(2) by simp
    finally show ?thesis .
  qed
  with le show "trunc x \<le> trunc y"
    unfolding trunc_def by (auto simp: floor_mono ceiling_mono)
qed

lemma trunc_of_int [simp]: "trunc (of_int k) = k"
  by (simp add: trunc_def)

end
