(* ===== verification/Py_Value.thy ===== *)
theory Py_Value imports Py_Num begin

text \<open>
  Dynamically typed Python values, as TOML documents, JSON documents, \<open>docker inspect\<close>
  output and etcd settings deliver them, with \<open>str\<close>, \<open>repr\<close>, truth and the number
  formats the sources use. Tuples and lists are both \<open>PList\<close>: the sources only iterate
  over them, and JSON does not tell them apart.
\<close>

datatype pyval =
    PNone
  | PBool bool
  | PInt int
  | PFloat rat
  | PStr string
  | PList "pyval list"
  | PDict "(string \<times> pyval) list"

fun is_str :: "pyval \<Rightarrow> bool" where
  "is_str (PStr _) = True"
| "is_str _ = False"

fun type_name :: "pyval \<Rightarrow> string" where
  "type_name PNone = ''NoneType''"
| "type_name (PBool _) = ''bool''"
| "type_name (PInt _) = ''int''"
| "type_name (PFloat _) = ''float''"
| "type_name (PStr _) = ''str''"
| "type_name (PList _) = ''list''"
| "type_name (PDict _) = ''dict''"

text \<open>\<open>bool(v)\<close>.\<close>

fun truthy :: "pyval \<Rightarrow> bool" where
  "truthy PNone = False"
| "truthy (PBool b) = b"
| "truthy (PInt i) = (i \<noteq> 0)"
| "truthy (PFloat x) = (x \<noteq> 0)"
| "truthy (PStr s) = (s \<noteq> [])"
| "truthy (PList xs) = (xs \<noteq> [])"
| "truthy (PDict d) = (d \<noteq> [])"

section \<open>Number formats\<close>

text \<open>\<open>f"{x:.kf}"\<close>: the exact value rounded half to even at the \<open>k\<close>-th decimal.\<close>

definition fixed :: "nat \<Rightarrow> rat \<Rightarrow> string" where
  "fixed k x = (let r = nat (round_half_even (\<bar>x\<bar> * 10 ^ k));
                    frac = nat_str (r mod 10 ^ k)
                in (if x < 0 then ''-'' else '''') @ nat_str (r div 10 ^ k) @
                   (if k = 0 then '''' else ''.'' @ replicate (k - length frac) (CHR ''0'') @ frac))"

text \<open>The shortest decimal that rounds to the float \<open>x > 0\<close>, and among those of that length
  the nearest: a significand and an exponent. Seventeen digits always suffice.\<close>

definition shortest_of_length :: "rat \<Rightarrow> nat \<Rightarrow> (int \<times> int) list" where
  "shortest_of_length x n = (let e = adj_exp 10 x - int n + 1; y = x / pow_int 10 e;
       near = round_half_even y; other = (if of_int near \<le> y then near + 1 else near - 1)
     in filter (\<lambda>(m, e). fl (of_int m * pow_int 10 e) = x) [(near, e), (other, e)])"

definition shortest_decimal :: "rat \<Rightarrow> int \<times> int" where
  "shortest_decimal x = (case concat (map (shortest_of_length x) [1..<18]) of
     [] \<Rightarrow> (\<lfloor>x\<rfloor>, 0) | c # _ \<Rightarrow> c)"

definition float_repr_pos :: "rat \<Rightarrow> string" where
  "float_repr_pos x = (let (m, e) = shortest_decimal x; all_ds = nat_str (nat m);
       ds = rev (dropWhile (\<lambda>c. c = CHR ''0'') (rev all_ds)); adj = e + int (length all_ds) - 1;
       tail = drop 1 ds; zero = CHR ''0''
     in if 0 \<le> adj \<and> adj < 16 then
          (let k = nat adj + 1; whole = take k ds; rest = drop k ds
           in whole @ replicate (k - length whole) zero @ ''.'' @ (if rest = [] then ''0'' else rest))
        else if -4 \<le> adj \<and> adj < 0 then ''0.'' @ replicate (nat (- adj - 1)) zero @ ds
        else (let ea = nat_str (nat \<bar>adj\<bar>)
              in take 1 ds @ (if tail = [] then '''' else ''.'' @ tail) @ ''e'' @
                 (if adj < 0 then ''-'' else ''+'') @ replicate (2 - length ea) zero @ ea))"

definition float_repr :: "rat \<Rightarrow> string" where
  "float_repr x = (if x = 0 then ''0.0'' else if x < 0 then CHR ''-'' # float_repr_pos (- x)
                   else float_repr_pos x)"

section \<open>\<open>repr\<close> and \<open>str\<close>\<close>

fun py_repr :: "pyval \<Rightarrow> string" and py_repr_items :: "(string \<times> pyval) list \<Rightarrow> string list" where
  "py_repr PNone = ''None''"
| "py_repr (PBool b) = (if b then ''True'' else ''False'')"
| "py_repr (PInt i) = int_str i"
| "py_repr (PFloat x) = float_repr x"
| "py_repr (PStr s) = repr_str s"
| "py_repr (PList xs) = ''['' @ join '', '' (map py_repr xs) @ '']''"
| "py_repr (PDict d) = ''{'' @ join '', '' (py_repr_items d) @ ''}''"
| "py_repr_items [] = []"
| "py_repr_items ((k, v) # d) = (repr_str k @ '': '' @ py_repr v) # py_repr_items d"

definition py_str :: "pyval \<Rightarrow> string" where
  "py_str v = (case v of PStr s \<Rightarrow> s | _ \<Rightarrow> py_repr v)"

lemma py_str_PStr [simp]: "py_str (PStr s) = s"
  by (simp add: py_str_def)

section \<open>Decimal literals\<close>

text \<open>A run of decimal digits at the head of a string, with a point and more digits when
  those follow: the digits before and after the point, and the rest.\<close>

definition scan_number :: "string \<Rightarrow> (string \<times> string \<times> string) option" where
  "scan_number s = (let w = takeWhile is_dec s; r = dropWhile is_dec s in
     if w = [] then None
     else case r of
       [] \<Rightarrow> Some (w, [], r)
     | c # r' \<Rightarrow> if c = CHR ''.'' \<and> takeWhile is_dec r' \<noteq> []
                 then Some (w, takeWhile is_dec r', dropWhile is_dec r') else Some (w, [], r))"

definition literal_value :: "string \<Rightarrow> string \<Rightarrow> rat" where
  "literal_value w f = of_nat (digits_val (w @ f)) / 10 ^ length f"

text \<open>\<open>Decimal(s)\<close> for a finite literal: blanks around it and underscores anywhere are
  dropped; sign, digits with at most one point, optional exponent. \<open>None\<close> is
  \<open>InvalidOperation\<close>.\<close>

definition strip_sign :: "string \<Rightarrow> bool \<times> string" where
  "strip_sign s = (if s \<noteq> [] \<and> hd s = CHR ''-'' then (True, tl s)
                   else if s \<noteq> [] \<and> hd s = CHR ''+'' then (False, tl s) else (False, s))"

definition dec_exponent :: "string \<Rightarrow> int option" where
  "dec_exponent s = (if s = [] then Some 0
     else if code (hd s) = 101 \<or> code (hd s) = 69 then
       (let (neg, ds) = strip_sign (tl s) in
        if ds \<noteq> [] \<and> list_all is_dec ds
        then Some (if neg then - int (digits_val ds) else int (digits_val ds)) else None)
     else None)"

definition py_decimal :: "string \<Rightarrow> rat option" where
  "py_decimal s = (let t = filter (\<lambda>c. c \<noteq> CHR ''_'') (strip s); (neg, u) = strip_sign t;
       w = takeWhile is_dec u; r = dropWhile is_dec u;
       f = (if r \<noteq> [] \<and> hd r = CHR ''.'' then takeWhile is_dec (tl r) else []);
       r' = (if r \<noteq> [] \<and> hd r = CHR ''.'' then dropWhile is_dec (tl r) else r)
     in if w @ f = [] then None
        else case dec_exponent r' of None \<Rightarrow> None
          | Some e \<Rightarrow> Some ((if neg then -1 else 1) * literal_value w f * pow_int 10 e))"

lemma takeWhile_all: "\<forall>c \<in> set s. P c \<Longrightarrow> takeWhile P (s @ t) = s @ takeWhile P t"
  by (induction s) auto

lemma dropWhile_all: "\<forall>c \<in> set s. P c \<Longrightarrow> dropWhile P (s @ t) = dropWhile P t"
  by (induction s) auto

lemma scan_number_nat_str:
  assumes "t = [] \<or> \<not> is_dec (hd t) \<and> hd t \<noteq> CHR ''.''"
  shows "scan_number (nat_str n @ t) = Some (nat_str n, [], t)"
proof -
  have "takeWhile is_dec t = []" "dropWhile is_dec t = t" using assms by (cases t; auto)+
  then have "takeWhile is_dec (nat_str n @ t) = nat_str n" "dropWhile is_dec (nat_str n @ t) = t"
    by (simp_all add: takeWhile_all [OF nat_str_dec] dropWhile_all [OF nat_str_dec])
  then show ?thesis using assms
    unfolding scan_number_def Let_def by (cases t) (simp_all del: append_Nil2)
qed

lemma literal_value_nat_str [simp]: "literal_value (nat_str n) [] = of_nat n"
  by (simp add: literal_value_def)

end
