(* ===== verification/Sizes.thy ===== *)
theory Sizes imports Py_Value begin

text \<open>
  \<open>labgpu/sizes.py\<close>: human-readable binary sizes to bytes and back to HAMi-core's syntax.
\<close>

definition MiB :: int where
  "MiB = 2 ^ 20"

definition GiB :: int where
  "GiB = 2 ^ 30"

text \<open>The factors \<open>_UNITS\<close> of a unit letter, in either case.\<close>

definition unit_factor :: "char \<Rightarrow> int option" where
  "unit_factor c = (let d = lower_char c in
     if d = CHR ''k'' then Some (2 ^ 10) else if d = CHR ''m'' then Some (2 ^ 20)
     else if d = CHR ''g'' then Some (2 ^ 30) else if d = CHR ''t'' then Some (2 ^ 40) else None)"

text \<open>The part of \<open>_rx_size\<close> after the number and its blanks: an optional unit letter, an
  optional \<open>b\<close> or \<open>ib\<close>, blanks. The alternatives start with different characters, so no
  backtracking is needed.\<close>

definition skip_ib :: "string \<Rightarrow> string" where
  "skip_ib s = (case s of [] \<Rightarrow> []
     | c # t \<Rightarrow> if lower_char c = CHR ''b'' then t
                else if lower_char c = CHR ''i'' \<and> t \<noteq> [] \<and> lower_char (hd t) = CHR ''b'' then tl t
                else s)"

definition scan_unit :: "string \<Rightarrow> int \<times> string" where
  "scan_unit s = (case s of [] \<Rightarrow> (1, [])
     | c # t \<Rightarrow> (case unit_factor c of Some u \<Rightarrow> (u, t) | None \<Rightarrow> (1, s)))"

definition match_size :: "string \<Rightarrow> (rat \<times> int) option" where
  "match_size s = (case scan_number (lstrip_by is_space s) of
     None \<Rightarrow> None
   | Some (w, f, r) \<Rightarrow>
       let (u, r') = scan_unit (lstrip_by is_space r) in
       if list_all is_space (skip_ib r') then Some (literal_value w f, u) else None)"

text \<open>\<open>int(float(number) * unit)\<close>; a number too large for a float becomes an infinity, which
  \<open>int\<close> refuses with \<open>OverflowError\<close>. Anything but a string or an integer fails in
  \<open>_rx_size.match\<close>.\<close>

definition parse_size :: "pyval \<Rightarrow> int result" where
  "parse_size value = (case value of
     PInt n \<Rightarrow> if n < 0 then Inl (ValueError (''negative size: '' @ int_str n)) else Inr n
   | PBool b \<Rightarrow> Inr (if b then 1 else 0)
   | PStr s \<Rightarrow> (case match_size s of
       None \<Rightarrow> Inl (ValueError (''invalid size: '' @ repr_str s))
     | Some (v, u) \<Rightarrow>
         if fl_overflows v \<or> fl_overflows (fl v * of_int u)
         then Inl (OverflowError ''cannot convert float infinity to integer'')
         else Inr (trunc (fmul (fl v) (of_int u))))
   | _ \<Rightarrow> Inl (TypeError (''expected string or bytes-like object, got '' @ repr_str (type_name value))))"

definition format_mib :: "int \<Rightarrow> string" where
  "format_mib num_bytes = int_str (num_bytes div MiB) @ ''m''"

section \<open>Properties\<close>

lemma lstrip_nat_str: "lstrip_by is_space (nat_str n @ t) = nat_str n @ t"
proof -
  obtain c s where s: "nat_str n = c # s" by (cases "nat_str n") auto
  then have "is_dec c" using nat_str_chars [of c n] by simp
  then show ?thesis using s is_dec_not by (simp add: lstrip_by_def)
qed

lemma literal_value_nonneg: "0 \<le> literal_value w f"
  by (simp add: literal_value_def)

lemma match_size_unit_nonneg: "match_size s = Some (v, u) \<Longrightarrow> 0 \<le> v \<and> 0 < u"
  by (auto simp: match_size_def scan_unit_def unit_factor_def literal_value_nonneg Let_def
      split: option.splits if_splits list.splits prod.splits)

lemma parse_size_nonneg: "parse_size v = Inr n \<Longrightarrow> 0 \<le> n"
proof (cases v)
  case (PStr s)
  assume ok: "parse_size v = Inr n"
  then obtain x u where m: "match_size s = Some (x, u)" and n: "n = trunc (fmul (fl x) (of_int u))"
    using PStr by (auto simp: parse_size_def split: option.splits if_splits)
  from match_size_unit_nonneg [OF m] have "0 \<le> fl x * of_int u" by (simp add: fl_nonneg)
  then show "0 \<le> n" unfolding n fmul_def by (intro trunc_nonneg fl_nonneg)
qed (auto simp: parse_size_def split: if_splits)

lemma fl_scaled: "\<bar>k\<bar> \<le> 2 ^ 53 \<Longrightarrow> fl (of_int k * 2 ^ j) = of_int k * 2 ^ j"
proof (rule flt.rnd_repr)
  assume "\<bar>k\<bar> \<le> 2 ^ 53"
  then show "fl_rep (of_int k * 2 ^ j)"
    unfolding fl_rep_def rep_def
    by (intro exI [of _ k] exI [of _ "int j"]) (simp add: pow_int_nat)
qed

lemma match_size_suffix:
  assumes "t = [] \<or> \<not> is_dec (hd t) \<and> hd t \<noteq> CHR ''.'' \<and> \<not> is_space (hd t)"
    and "scan_unit t = (u, r)" and "list_all is_space (skip_ib r)"
  shows "match_size (nat_str n @ t) = Some (of_nat n, u)"
proof -
  have "scan_number (nat_str n @ t) = Some (nat_str n, [], t)"
    using assms(1) by (intro scan_number_nat_str) auto
  moreover have "lstrip_by is_space t = t"
    using assms(1) by (cases t) (auto simp: lstrip_by_def)
  ultimately show ?thesis using assms(2,3) by (simp add: match_size_def lstrip_nat_str)
qed

text \<open>A size of at most 53 significant bits is parsed exactly.\<close>

lemma parse_size_exact:
  assumes m: "match_size s = Some (of_nat n, 2 ^ j)" and n: "n \<le> 2 ^ 53" and j: "j \<le> 40"
  shows "parse_size (PStr s) = Inr (int n * 2 ^ j)"
proof -
  have n': "\<bar>int n\<bar> \<le> 2 ^ 53" using n by (simp flip: of_nat_le_iff)
  have v: "fl (of_nat n) = of_nat n" using fl_of_int [OF n'] by simp
  have p: "fl (of_nat n * 2 ^ j) = of_nat n * 2 ^ j" using fl_scaled [OF n', of j] by simp
  have "(of_nat n * 2 ^ j :: rat) \<le> 2 ^ 53 * 2 ^ 40"
  proof (rule mult_mono)
    show "(of_nat n :: rat) \<le> 2 ^ 53" using n by (metis of_nat_le_iff of_nat_numeral of_nat_power)
    show "(2 ^ j :: rat) \<le> 2 ^ 40" using j by (rule power_increasing) simp
  qed simp_all
  also have "\<dots> < (2 ^ 1024 :: rat)" by (simp flip: power_add)
  finally have small: "(of_nat n * 2 ^ j :: rat) < 2 ^ 1024" .
  have "(of_nat n :: rat) \<le> of_nat n * 2 ^ j" by (simp add: mult_le_cancel_left1)
  with small have "(of_nat n :: rat) < 2 ^ 1024" by linarith
  then have "\<not> fl_overflows (of_nat n)" by (simp add: fl_overflows_def v)
  moreover have "\<not> fl_overflows (fl (of_nat n) * of_int (2 ^ j))"
    using small by (simp add: fl_overflows_def v p)
  moreover have "trunc (fmul (fl (of_nat n)) (of_int (2 ^ j))) = int n * 2 ^ j"
  proof -
    have "fmul (fl (of_nat n)) (of_int (2 ^ j)) = of_int (int n * 2 ^ j)"
      by (simp add: fmul_def v p)
    then show ?thesis by (simp only: trunc_of_int)
  qed
  ultimately show ?thesis using m by (simp add: parse_size_def)
qed

text \<open>What \<open>format_mib\<close> writes reads back as the size rounded down to whole MiB.\<close>

lemma parse_format_mib:
  assumes "0 \<le> n" "n div MiB \<le> 2 ^ 53"
  shows "parse_size (PStr (format_mib n)) = Inr (n div MiB * MiB)"
proof -
  let ?k = "nat (n div MiB)"
  have k: "0 \<le> n div MiB" using assms(1) by (simp add: MiB_def)
  have "format_mib n = nat_str ?k @ ''m''" using k by (simp add: format_mib_def int_str_def)
  moreover have "match_size (nat_str ?k @ ''m'') = Some (of_nat ?k, 2 ^ 20)"
  proof (rule match_size_suffix)
    have "code (CHR ''m'') = 109" by (simp add: code_def)
    moreover from this have lc: "lower_char (CHR ''m'') = CHR ''m''" by (simp add: lower_char_def)
    ultimately show "''m'' = [] \<or> \<not> is_dec (hd ''m'') \<and> hd ''m'' \<noteq> CHR ''.'' \<and> \<not> is_space (hd ''m'')"
      by (simp add: is_dec_def is_space_def)
    show "scan_unit ''m'' = (2 ^ 20, [])" by (simp add: scan_unit_def unit_factor_def lc)
  qed (simp add: skip_ib_def)
  moreover have "?k \<le> 2 ^ 53" using assms(2) by simp
  ultimately have "parse_size (PStr (format_mib n)) = Inr (int ?k * 2 ^ 20)"
    using parse_size_exact [of _ ?k 20] by simp
  then show ?thesis using k by (simp add: MiB_def)
qed

end
