(* ===== verification/Devalloc.thy ===== *)
theory Devalloc imports Py_Value begin

text \<open>
  \<open>labgpu/devalloc.py\<close>: the two shapes of Backend.AI's \<open>device_alloc\<close> argument, normalised
  to slot, device, amount; and the order of device identifiers. Amounts are decimals, whose
  copy by \<open>Decimal(amount)\<close> is exact.
\<close>

type_synonym device_amounts = "(string, rat) pydict"
type_synonym slot_alloc = "(string, device_amounts) pydict"

text \<open>A unit of the newer \<open>DeviceAllocation\<close>: its device and its amount per slot.\<close>

record alloc_unit =
  unit_device_id :: string
  unit_amounts :: "(string, rat) pydict"

datatype device_alloc =
    Units "alloc_unit list"
  | SlotMap "(string, device_amounts) pydict"
  | Unsupported string

definition set_amount :: "string \<Rightarrow> string \<Rightarrow> rat \<Rightarrow> slot_alloc \<Rightarrow> slot_alloc" where
  "set_amount slot dev amount result =
     dict_set slot (dict_set dev amount (get_or [] result slot)) result"

definition add_unit :: "alloc_unit \<Rightarrow> slot_alloc \<Rightarrow> slot_alloc" where
  "add_unit u result =
     fold (\<lambda>(slot, amount). set_amount slot (unit_device_id u) amount) (unit_amounts u) result"

fun normalize :: "device_alloc \<Rightarrow> slot_alloc result" where
  "normalize (Units units) = Inr (fold add_unit units [])"
| "normalize (SlotMap m) = Inr (fold (\<lambda>(slot, per_device). dict_set slot (dict_of per_device)) m [])"
| "normalize (Unsupported type) = Inl (TypeError (''unsupported device allocation: '' @ type))"

definition amounts_for_slot :: "device_alloc \<Rightarrow> string \<Rightarrow> device_amounts result" where
  "amounts_for_slot device_alloc slot_name = rmap (\<lambda>r. get_or [] r slot_name) (normalize device_alloc)"

text \<open>Numeric identifiers in numeric order, then any others lexically. \<open>int\<close> refuses the
  superscript digits \<open>isdigit\<close> accepts.\<close>

definition device_sort_key :: "string \<Rightarrow> (int \<times> int \<times> string) result" where
  "device_sort_key device_id = (if str_isdigit device_id
     then (case py_int device_id of Some n \<Rightarrow> Inr (0, n, '''')
           | None \<Rightarrow> Inl (ValueError (''invalid literal for int() with base 10: '' @ repr_str device_id)))
     else Inr (1, 0, device_id))"

text \<open>\<open>sorted(ids, key=device_sort_key)\<close>: keys first, then a stable sort.\<close>

definition sort_devices :: "string list \<Rightarrow> string list result" where
  "sort_devices ids = rmap (\<lambda>ks. map snd (sort_key fst (zip ks ids))) (traverse device_sort_key ids)"

definition active_device_ids :: "device_alloc \<Rightarrow> string list result" where
  "active_device_ids device_alloc = rbind (normalize device_alloc) (\<lambda>alloc.
     sort_devices (remdups (concat (map (\<lambda>(_, per_dev). map fst (filter (\<lambda>(_, amt). 0 < amt) per_dev)) alloc))))"

section \<open>Properties\<close>

lemma get_or_set [simp]: "get_or d (dict_set k v m) k' = (if k' = k then v else get_or d m k')"
  by (simp add: get_or_def)

lemma lookup_set_amount: "dict_get (get_or [] (set_amount s d a r) s') d' =
    (if s' = s \<and> d' = d then Some a else dict_get (get_or [] r s') d')"
  by (simp add: set_amount_def)

text \<open>The last entry of a slot in an amounts list.\<close>

lemma lookup_add_unit: "dict_get (get_or [] (add_unit u r) s) d =
    (if d = unit_device_id u then (case map_of (rev (unit_amounts u)) s of
       Some a \<Rightarrow> Some a | None \<Rightarrow> dict_get (get_or [] r s) d)
     else dict_get (get_or [] r s) d)"
proof -
  have "dict_get (get_or [] (fold (\<lambda>(slot, amount). set_amount slot dev amount) as r) s) d =
      (if d = dev then (case map_of (rev as) s of
         Some a \<Rightarrow> Some a | None \<Rightarrow> dict_get (get_or [] r s) d)
       else dict_get (get_or [] r s) d)" for as dev
    by (induction as arbitrary: r) (auto simp: lookup_set_amount map_add_def split: option.splits)
  then show ?thesis by (simp add: add_unit_def)
qed

text \<open>The per-slot view of a list of units, as the older Backend.AI would pass it: for each
  slot the devices holding an amount of it.\<close>

definition slot_view :: "alloc_unit list \<Rightarrow> string \<Rightarrow> device_amounts" where
  "slot_view units slot = concat (map (\<lambda>u. case map_of (rev (unit_amounts u)) slot of
     None \<Rightarrow> [] | Some a \<Rightarrow> [(unit_device_id u, a)]) units)"

lemma lookup_units: "dict_get (get_or [] (fold add_unit us r) s) d =
    (case map_of (rev (slot_view us s)) d of Some a \<Rightarrow> Some a | None \<Rightarrow> dict_get (get_or [] r s) d)"
proof (induction us arbitrary: r)
  case (Cons u us)
  show ?case
    by (auto simp: Cons.IH lookup_add_unit slot_view_def map_add_def split: option.splits)
qed (simp add: slot_view_def)

lemma lookup_slot_map: "distinct (dict_keys m) \<Longrightarrow>
    dict_get (fold (\<lambda>(slot, per_device). dict_set slot (dict_of per_device)) m r) s =
    (case map_of m s of Some p \<Rightarrow> Some (dict_of p) | None \<Rightarrow> dict_get r s)"
proof (induction m arbitrary: r)
  case (Cons p m)
  obtain k v where p: "p = (k, v)" by (cases p)
  have "s = k \<Longrightarrow> map_of m s = None" using Cons.prems p by (auto simp: map_of_eq_None_iff)
  then show ?case using Cons p by (cases "map_of m s") auto
qed simp

lemma sort_devices_set: "sort_devices ids = Inr out \<Longrightarrow> set out = set ids \<and> length out = length ids"
proof -
  assume "sort_devices ids = Inr out"
  then obtain ks where ks: "traverse device_sort_key ids = Inr ks"
    and out: "out = map snd (sort_key fst (zip ks ids))" by (auto simp: sort_devices_def rmap_Inr_iff)
  from traverse_length [OF ks] have l: "length ks = length ids" .
  have "set out = set (map snd (zip ks ids))" unfolding out by simp
  also have "map snd (zip ks ids) = ids" using l by simp
  finally show ?thesis using l out by simp
qed

lemma sort_devices_distinct: "sort_devices ids = Inr out \<Longrightarrow> distinct ids \<Longrightarrow> distinct out"
  by (metis card_distinct distinct_card sort_devices_set)

text \<open>The result is in key order.\<close>

lemma sort_devices_sorted:
  assumes "sort_devices ids = Inr out"
  shows "sorted (map (\<lambda>d. case device_sort_key d of Inr k \<Rightarrow> k) out)"
proof -
  from assms obtain ks where ks: "traverse device_sort_key ids = Inr ks"
    and out: "out = map snd (sort_key fst (zip ks ids))" by (auto simp: sort_devices_def rmap_Inr_iff)
  have "(case device_sort_key d of Inr k \<Rightarrow> k) = k" if "(k, d) \<in> set (zip ks ids)" for k d
  proof -
    have "(d, k) \<in> set (zip ids ks)" using that by (auto simp: in_set_zip)
    then have "device_sort_key d = Inr k" using ks by (auto simp: traverse_Inr_iff list_all2_iff)
    then show ?thesis by simp
  qed
  then have "map (\<lambda>d. case device_sort_key d of Inr k \<Rightarrow> k) out = map fst (sort_key fst (zip ks ids))"
    unfolding out map_map by (intro map_cong) auto
  then show ?thesis by simp
qed

text \<open>Identifiers as NVML indices give them: the decimal text of an index.\<close>

lemma device_sort_key_index:
  assumes "length (nat_str n) \<le> 4300"
  shows "device_sort_key (nat_str n) = Inr (0, int n, '''')"
proof -
  have "str_isdigit (nat_str n)"
    using nat_str_dec [of n] by (auto simp: str_isdigit_def list_all_iff is_digit_def)
  then show ?thesis by (simp add: device_sort_key_def py_int_nat_str [OF assms])
qed

end
