(* ===== verification/Fraction.thy ===== *)
theory Fraction imports Sizes Devalloc begin

text \<open>
  \<open>labgpu/fraction.py\<close>: from the share of a GPU a container is given to HAMi-core's memory
  and SM limits, and to the environment that carries them. Shares and fractions are
  decimals of 28 digits.
\<close>

definition MEMORY_SHARED_CACHE :: string where
  "MEMORY_SHARED_CACHE = ''/tmp/labgpu-vgpu.cache''"

record device_limit =
  local_index :: int
  lim_device_id :: string
  lim_uuid :: string
  lim_share :: rat
  lim_fraction :: rat
  memory_limit_bytes :: "int option"
  sm_limit_percent :: "int option"

definition is_whole :: "device_limit \<Rightarrow> bool" where
  "is_whole dl = (memory_limit_bytes dl = None)"

text \<open>\<open>share / shares_per_device\<close> in the default decimal context, whose division by zero
  is trapped.\<close>

definition share_fraction :: "rat \<Rightarrow> rat \<Rightarrow> rat result" where
  "share_fraction share shares_per_device = (if shares_per_device = 0
     then Inl (if share = 0 then InvalidOperation else DivisionByZero)
     else Inr (dec_div share shares_per_device))"

definition memory_limit :: "rat \<Rightarrow> int \<Rightarrow> int \<Rightarrow> int" where
  "memory_limit fraction total_memory reserved_memory =
     (let mem_bytes = trunc (dec_mul fraction (of_int total_memory)) - reserved_memory
      in max (mem_bytes div MiB) 1 * MiB)"

definition sm_percent :: "rat \<Rightarrow> int" where
  "sm_percent fraction = min (max \<lceil>dec_mul fraction 100\<rceil> 1) 100"

definition compute_limit ::
    "int \<Rightarrow> string \<Rightarrow> string \<Rightarrow> rat \<Rightarrow> rat \<Rightarrow> int \<Rightarrow> int \<Rightarrow> device_limit result" where
  "compute_limit idx device_id uuid share shares_per_device total_memory reserved_memory =
     rbind (share_fraction share shares_per_device) (\<lambda>fraction. Inr
       (if 1 \<le> fraction
        then \<lparr>local_index = idx, lim_device_id = device_id, lim_uuid = uuid, lim_share = share,
              lim_fraction = fraction, memory_limit_bytes = None, sm_limit_percent = None\<rparr>
        else \<lparr>local_index = idx, lim_device_id = device_id, lim_uuid = uuid, lim_share = share,
              lim_fraction = fraction,
              memory_limit_bytes = Some (memory_limit fraction total_memory reserved_memory),
              sm_limit_percent = Some (sm_percent fraction)\<rparr>))"

definition lookup :: "(string, 'v) pydict \<Rightarrow> string \<Rightarrow> 'v result" where
  "lookup d k = (case dict_get d k of Some v \<Rightarrow> Inr v | None \<Rightarrow> Inl (KeyError (repr_str k)))"

definition compute_limits :: "device_amounts \<Rightarrow> rat \<Rightarrow> (string, int) pydict \<Rightarrow>
    (string, string) pydict \<Rightarrow> int \<Rightarrow> device_limit list result" where
  "compute_limits shares_by_device shares_per_device total_memory_by_device uuid_by_device reserved_memory =
     rbind (sort_devices (map fst (filter (\<lambda>(_, s). 0 < s) shares_by_device))) (\<lambda>active.
       traverse (\<lambda>(idx, dev_id).
         rbind (lookup uuid_by_device dev_id) (\<lambda>uuid.
         rbind (lookup shares_by_device dev_id) (\<lambda>share.
         rbind (lookup total_memory_by_device dev_id) (\<lambda>total.
           compute_limit (int idx) dev_id uuid share shares_per_device total reserved_memory))))
         (enumerate 0 active))"

definition limit_key :: "int \<Rightarrow> string" where
  "limit_key idx = ''CUDA_DEVICE_MEMORY_LIMIT_'' @ int_str idx"

definition or_100 :: "int option \<Rightarrow> int" where
  "or_100 p = (case p of None \<Rightarrow> 100 | Some q \<Rightarrow> if q = 0 then 100 else q)"

definition build_hami_environ :: "device_limit list \<Rightarrow> bool \<Rightarrow> (string, string) pydict" where
  "build_hami_environ limits sm_limit =
     (let fractional = filter (\<lambda>dl. \<not> is_whole dl) limits;
          env = fold (\<lambda>dl env. dict_set (limit_key (local_index dl))
                  (format_mib (the (memory_limit_bytes dl))) env) fractional [];
          env' = dict_set ''CUDA_DEVICE_MEMORY_SHARED_CACHE'' MEMORY_SHARED_CACHE env
      in if fractional = [] then env
         else if sm_limit
         then dict_set ''CUDA_DEVICE_SM_LIMIT''
                (int_str (Max (set (map (or_100 \<circ> sm_limit_percent) fractional)))) env'
         else env')"

section \<open>Limits of one device\<close>

lemma MiB_pos [simp]: "0 < MiB" "MiB \<noteq> 0"
  by (simp_all add: MiB_def)

lemma floor_div_floor:
  fixes x :: rat
  assumes m: "0 < m"
  shows "(\<lfloor>x\<rfloor> - r) div m = \<lfloor>(x - of_int r) / of_int m\<rfloor>"
proof (rule floor_unique [symmetric])
  let ?n = "\<lfloor>x\<rfloor> - r" and ?k = "(\<lfloor>x\<rfloor> - r) div m"
  have lo: "?k * m \<le> ?n" and hi: "?n + 1 \<le> (?k + 1) * m"
    using m minus_mod_eq_div_mult [of ?n m] pos_mod_bound [OF m, of ?n] pos_mod_sign [OF m, of ?n]
    by (simp_all add: distrib_right)
  have "of_int (?k * m) \<le> x - of_int r" using lo by linarith
  then show "of_int ?k \<le> (x - of_int r) / of_int m" using m by (simp add: field_simps)
  have "x - of_int r < of_int ((?k + 1) * m)" using hi by linarith
  then show "(x - of_int r) / of_int m < of_int ?k + 1" using m by (simp add: field_simps)
qed

lemma memory_limit_mono:
  assumes "0 \<le> f" "f \<le> g" "0 \<le> t"
  shows "memory_limit f t r \<le> memory_limit g t r"
proof -
  have "f * of_int t \<le> g * of_int t" using assms by (simp add: mult_right_mono)
  then have "trunc (dec_mul f (of_int t)) \<le> trunc (dec_mul g (of_int t))"
    unfolding dec_mul_def by (intro trunc_mono dec.rnd_mono)
  then have "(trunc (dec_mul f (of_int t)) - r) div MiB \<le> (trunc (dec_mul g (of_int t)) - r) div MiB"
    by (intro zdiv_mono1) simp_all
  then show ?thesis unfolding memory_limit_def Let_def by (intro mult_right_mono) (auto simp: MiB_def)
qed

lemma memory_limit_ge: "MiB \<le> memory_limit f t r"
proof -
  have "1 * MiB \<le> max x 1 * MiB" for x by (intro mult_right_mono) (simp_all add: less_imp_le)
  then show ?thesis by (simp add: memory_limit_def Let_def)
qed

text \<open>Rounding \<open>f \<times> T\<close> with \<open>f < 1\<close> never goes past the memory size.\<close>

lemma dec_mul_le_total:
  assumes "0 \<le> f" "f \<le> 1" "0 \<le> t" "t \<le> 10 ^ 28"
  shows "dec_mul f (of_int t) \<le> of_int t"
  unfolding dec_mul_def
proof (rule dec.rnd_le)
  show "dec_rep (of_int t)" using assms by (intro dec_rep_int) simp
  show "f * of_int t \<le> of_int t" using assms by (simp add: mult_left_le_one_le)
qed

lemma memory_limit_le:
  assumes "0 \<le> f" "f \<le> 1" "MiB \<le> t" "t \<le> 10 ^ 28" "0 \<le> r"
  shows "memory_limit f t r \<le> t"
proof -
  have t0: "0 \<le> t" using assms(3) by (simp add: MiB_def)
  let ?m = "trunc (dec_mul f (of_int t))"
  have "?m \<le> trunc (of_int t)" using assms t0 by (intro trunc_mono dec_mul_le_total)
  then have "?m - r \<le> t" using assms by simp
  then have "(?m - r) div MiB \<le> t div MiB" by (intro zdiv_mono1) simp_all
  moreover have "1 \<le> t div MiB" using assms(3) by (simp add: MiB_def)
  ultimately have "max ((?m - r) div MiB) 1 * MiB \<le> t div MiB * MiB"
    by (intro mult_right_mono) (simp_all add: less_imp_le)
  also have "\<dots> \<le> t" by (simp add: MiB_def)
  finally show ?thesis by (simp add: memory_limit_def Let_def)
qed

lemma sm_percent_range: "1 \<le> sm_percent f \<and> sm_percent f \<le> 100"
  by (simp add: sm_percent_def)

lemma sm_percent_mono: "0 \<le> f \<Longrightarrow> f \<le> g \<Longrightarrow> sm_percent f \<le> sm_percent g"
proof -
  assume "f \<le> g"
  then have "dec_mul f 100 \<le> dec_mul g 100" unfolding dec_mul_def by (intro dec.rnd_mono) simp
  then have "\<lceil>dec_mul f 100\<rceil> \<le> \<lceil>dec_mul g 100\<rceil>" by (rule ceiling_mono)
  then show ?thesis by (simp add: sm_percent_def)
qed

lemma memory_limit_exact:
  assumes "0 \<le> f" "0 \<le> t" "dec_rep (f * of_int t)"
  shows "memory_limit f t r = max \<lfloor>(f * of_int t - of_int r) / 2 ^ 20\<rfloor> 1 * 2 ^ 20"
proof -
  have "dec_mul f (of_int t) = f * of_int t" unfolding dec_mul_def by (rule dec.rnd_repr) fact
  moreover have "0 \<le> f * of_int t" using assms by simp
  ultimately show ?thesis
    using floor_div_floor [of MiB "f * of_int t" r]
    by (simp add: memory_limit_def trunc_def MiB_def)
qed

section \<open>Several sessions on one device\<close>

lemma abs_half_bound: "\<bar>d - x\<bar> \<le> a / 2 + q / 2 \<Longrightarrow> a = b \<Longrightarrow> q \<le> c \<Longrightarrow> d - x \<le> b / 2 + c / 2"
  for d x a b c q :: rat
  by linarith

lemma dec_rnd_upper:
  assumes "0 \<le> x"
  shows "dec_rnd x \<le> x * (1 + 1 / 10 ^ 27) + 1 / 10 ^ 40"
proof -
  have "pow_int 10 (- 1000026) \<le> pow_int 10 (- int 40)" by (rule pow_int_mono) simp_all
  then have tiny: "pow_int 10 (- 1000026) \<le> 1 / 10 ^ 40" by (simp only: pow_int_neg_nat) simp
  have "pow_int 10 (1 - int 28) = pow_int 10 (- int 27)" by simp
  then have unit: "pow_int 10 (1 - int 28) = 1 / 10 ^ 27" by (simp only: pow_int_neg_nat) simp
  have "\<bar>dec_rnd x - x\<bar> \<le> \<bar>x\<bar> * pow_int 10 (1 - int 28) / 2 + pow_int 10 (- 1000026) / 2"
    unfolding dec_rnd_def by (rule round_to_error) simp_all
  moreover have "\<bar>x\<bar> * pow_int 10 (1 - int 28) = x * (1 / 10 ^ 27)" using assms unit by simp
  ultimately have "dec_rnd x - x \<le> x * (1 / 10 ^ 27) / 2 + 1 / 10 ^ 40 / 2"
    using tiny by (rule abs_half_bound)
  moreover have "0 \<le> x * (1 / 10 ^ 27)" using assms by simp
  ultimately show ?thesis by (simp add: distrib_left)
qed

text \<open>One session's unclamped limit against its exact part of the memory.\<close>

lemma memory_limit_upper:
  assumes a: "0 \<le> a" "a \<le> 1" and t: "0 \<le> t" "t \<le> 10 ^ 15" and r: "0 \<le> r"
    and big: "MiB \<le> trunc (dec_mul (dec_rnd a) (of_int t)) - r"
  shows "of_int (memory_limit (dec_rnd a) t r) \<le> a * of_int t + (1 / 10 ^ 11 :: rat)"
proof -
  let ?p = "dec_mul (dec_rnd a) (of_int t)" and ?m = "trunc (dec_mul (dec_rnd a) (of_int t)) - r"
  have f0: "0 \<le> dec_rnd a" using a by (simp add: dec_rnd_nonneg)
  have t0: "(0::rat) \<le> of_int t" using t by simp
  have t15: "of_int t \<le> (10 ^ 15 :: rat)" using t(2) by (metis of_int_le_iff of_int_numeral of_int_power)
  have "1 \<le> ?m div MiB" using big by (simp add: MiB_def)
  then have "memory_limit (dec_rnd a) t r = ?m div MiB * MiB" by (simp add: memory_limit_def Let_def)
  also have "\<dots> \<le> ?m" by (simp add: MiB_def)
  also have "\<dots> \<le> trunc ?p" using r by simp
  finally have "of_int (memory_limit (dec_rnd a) t r) \<le> (of_int (trunc ?p) :: rat)" by simp
  also have "\<dots> \<le> ?p"
    using f0 t0 by (simp add: trunc_def dec_mul_def dec_rnd_nonneg)
  also have "\<dots> \<le> dec_rnd a * of_int t * (1 + 1 / 10 ^ 27) + 1 / 10 ^ 40"
    unfolding dec_mul_def using f0 t0 by (intro dec_rnd_upper) simp
  also have "dec_rnd a * of_int t \<le> (a * (1 + 1 / 10 ^ 27) + 1 / 10 ^ 40) * of_int t"
    using dec_rnd_upper [OF a(1)] t0 by (rule mult_right_mono)
  finally have "of_int (memory_limit (dec_rnd a) t r) \<le>
      (a * (1 + 1 / 10 ^ 27) + 1 / 10 ^ 40) * of_int t * (1 + 1 / 10 ^ 27) + (1 / 10 ^ 40 :: rat)"
    by simp
  also have "\<dots> = a * of_int t + a * of_int t * (2 / 10 ^ 27 + 1 / 10 ^ 54) +
      of_int t * (1 / 10 ^ 40 * (1 + 1 / 10 ^ 27)) + 1 / 10 ^ 40"
    by (simp add: algebra_simps)
  also have "a * of_int t * (2 / 10 ^ 27 + 1 / 10 ^ 54) \<le> 10 ^ 15 * (2 / 10 ^ 27 + 1 / 10 ^ 54)"
  proof (rule mult_right_mono)
    show "a * of_int t \<le> (10 ^ 15 :: rat)"
      using mult_mono [OF a(2) t15] t0 a by simp
  qed simp
  also have "of_int t * (1 / 10 ^ 40 * (1 + 1 / 10 ^ 27)) \<le> (10 ^ 15 * (1 / 10 ^ 40 * (1 + 1 / 10 ^ 27)) :: rat)"
    using t15 by (rule mult_right_mono) simp
  finally show ?thesis by simp
qed

text \<open>A whole device against the same part.\<close>

lemma whole_upper:
  assumes a: "0 \<le> a" "a \<le> 1" and t: "0 \<le> t" "t \<le> 10 ^ 15" and w: "1 \<le> dec_rnd a"
  shows "of_int t \<le> a * of_int t + (1 / 10 ^ 11 :: rat)"
proof -
  have t0: "(0::rat) \<le> of_int t" using t by simp
  have t15: "of_int t \<le> (10 ^ 15 :: rat)" using t(2) by (metis of_int_le_iff of_int_numeral of_int_power)
  have "1 \<le> a * (1 + 1 / 10 ^ 27) + 1 / 10 ^ 40" using dec_rnd_upper [OF a(1)] w by linarith
  also have "\<dots> \<le> a + (1 / 10 ^ 27 + 1 / 10 ^ 40)" using a by (simp add: distrib_left)
  finally have "1 * of_int t \<le> (a + (1 / 10 ^ 27 + 1 / 10 ^ 40)) * (of_int t :: rat)" using t0 by (rule mult_right_mono)
  also have "\<dots> = a * of_int t + (1 / 10 ^ 27 + 1 / 10 ^ 40) * of_int t" by (simp add: algebra_simps)
  also have "(1 / 10 ^ 27 + 1 / 10 ^ 40) * of_int t \<le> (1 / 10 ^ 27 + 1 / 10 ^ 40) * (10 ^ 15 :: rat)"
    using t15 by (rule mult_left_mono) simp
  finally show ?thesis by simp
qed

section \<open>The limits of a container\<close>

lemma compute_limit_fields:
  assumes "compute_limit i d u s spd t r = Inr l"
  shows "local_index l = i" "lim_device_id l = d" "lim_uuid l = u" "lim_share l = s"
    "spd \<noteq> 0" "lim_fraction l = dec_div s spd"
    "is_whole l \<longleftrightarrow> 1 \<le> dec_div s spd"
    "memory_limit_bytes l = (if 1 \<le> dec_div s spd then None else Some (memory_limit (dec_div s spd) t r))"
    "sm_limit_percent l = (if 1 \<le> dec_div s spd then None else Some (sm_percent (dec_div s spd)))"
  using assms by (auto simp: compute_limit_def share_fraction_def is_whole_def rbind_Inr_iff split: if_splits)

lemma compute_limit_total: "spd \<noteq> 0 \<Longrightarrow> \<exists>l. compute_limit i d u s spd t r = Inr l"
  by (simp add: compute_limit_def share_fraction_def)

text \<open>The active devices of \<open>compute_limits\<close>, in the order of their local indices.\<close>

definition active_devices :: "device_amounts \<Rightarrow> string list result" where
  "active_devices shares = sort_devices (map fst (filter (\<lambda>(_, s). 0 < s) shares))"

lemma compute_limits_nth:
  assumes "compute_limits shares spd totals uuids r = Inr ls" and "active_devices shares = Inr active"
  shows "length ls = length active"
    and "i < length active \<Longrightarrow> \<exists>u s t. dict_get uuids (active ! i) = Some u \<and>
      dict_get shares (active ! i) = Some s \<and> dict_get totals (active ! i) = Some t \<and>
      compute_limit (int i) (active ! i) u s spd t r = Inr (ls ! i)"
proof -
  let ?f = "\<lambda>(idx, dev_id). rbind (lookup uuids dev_id) (\<lambda>uuid. rbind (lookup shares dev_id) (\<lambda>share.
    rbind (lookup totals dev_id) (\<lambda>total. compute_limit (int idx) dev_id uuid share spd total r)))"
  from assms have "traverse ?f (enumerate 0 active) = Inr ls"
    by (simp add: compute_limits_def active_devices_def)
  then have l2: "list_all2 (\<lambda>x y. ?f x = Inr y) (enumerate 0 active) ls" by (simp add: traverse_Inr_iff)
  then show len: "length ls = length active" by (auto dest: list_all2_lengthD)
  assume "i < length active"
  with l2 have "?f (enumerate 0 active ! i) = Inr (ls ! i)" by (auto simp: list_all2_conv_all_nth)
  with \<open>i < length active\<close> show "\<exists>u s t. dict_get uuids (active ! i) = Some u \<and>
      dict_get shares (active ! i) = Some s \<and> dict_get totals (active ! i) = Some t \<and>
      compute_limit (int i) (active ! i) u s spd t r = Inr (ls ! i)"
    by (auto simp: nth_enumerate_eq lookup_def rbind_Inr_iff split: option.splits)
qed

lemma compute_limits_ok_active: "compute_limits shares spd totals uuids r = Inr ls \<Longrightarrow>
    \<exists>active. active_devices shares = Inr active"
  by (auto simp: compute_limits_def active_devices_def rbind_Inr_iff)

lemma compute_limits_index:
  assumes "compute_limits shares spd totals uuids r = Inr ls" "i < length ls"
  shows "local_index (ls ! i) = int i"
proof -
  obtain active where a: "active_devices shares = Inr active" using compute_limits_ok_active [OF assms(1)] ..
  with compute_limits_nth [OF assms(1) a] assms(2) show ?thesis by (auto dest: compute_limit_fields(1))
qed

lemma compute_limits_distinct_index:
  assumes "compute_limits shares spd totals uuids r = Inr ls"
  shows "distinct (map local_index ls)"
  by (rule distinct_conv_nth [THEN iffD2]) (simp add: compute_limits_index [OF assms])

section \<open>The environment\<close>

lemma limit_key_inj: "limit_key i = limit_key j \<longleftrightarrow> i = j"
  by (auto simp: limit_key_def dest: int_str_inj)

lemma limit_key_other: "limit_key i \<noteq> ''CUDA_DEVICE_MEMORY_SHARED_CACHE''" "limit_key i \<noteq> ''CUDA_DEVICE_SM_LIMIT''"
  by (simp_all add: limit_key_def)

definition memory_env :: "device_limit list \<Rightarrow> (string, string) pydict" where
  "memory_env fractional = fold (\<lambda>dl env. dict_set (limit_key (local_index dl))
     (format_mib (the (memory_limit_bytes dl))) env) fractional []"

lemma memory_env_lookup:
  assumes "distinct (map local_index ls)" "l \<in> set ls"
  shows "dict_get (memory_env ls) (limit_key (local_index l)) = Some (format_mib (the (memory_limit_bytes l)))"
proof -
  have gen: "dict_get (fold (\<lambda>dl env. dict_set (limit_key (local_index dl))
      (format_mib (the (memory_limit_bytes dl))) env) ls e) k =
    (case map_of (rev (map (\<lambda>dl. (limit_key (local_index dl), format_mib (the (memory_limit_bytes dl)))) ls)) k of
       Some v \<Rightarrow> Some v | None \<Rightarrow> dict_get e k)" for e k
    by (induction ls arbitrary: e) (auto simp: map_add_def split: option.splits)
  let ?kvs = "map (\<lambda>dl. (limit_key (local_index dl), format_mib (the (memory_limit_bytes dl)))) ls"
  have "map fst ?kvs = map limit_key (map local_index ls)" by simp
  then have "distinct (map fst ?kvs)"
    using assms(1) by (simp only: distinct_map) (auto intro: inj_onI simp: limit_key_inj)
  moreover have "(limit_key (local_index l), format_mib (the (memory_limit_bytes l))) \<in> set ?kvs"
    using assms(2) by auto
  ultimately have "map_of (rev ?kvs) (limit_key (local_index l)) = Some (format_mib (the (memory_limit_bytes l)))"
    by (simp add: distinct_map_of_rev)
  with gen [of "[]" "limit_key (local_index l)"] show ?thesis by (simp add: memory_env_def)
qed

lemma memory_env_keys: "fst ` set (memory_env ls) = limit_key ` local_index ` set ls"
proof -
  have "fst ` set (fold (\<lambda>dl env. dict_set (limit_key (local_index dl))
      (format_mib (the (memory_limit_bytes dl))) env) ls e) =
    fst ` set e \<union> limit_key ` local_index ` set ls" for e
    by (induction ls arbitrary: e) (auto simp: dict_keys_set)
  from this [of "[]"] show ?thesis by (simp add: memory_env_def)
qed

lemma build_hami_environ_eq: "build_hami_environ limits sm =
    (let fr = filter (\<lambda>dl. \<not> is_whole dl) limits in
     if fr = [] then []
     else (if sm then dict_set ''CUDA_DEVICE_SM_LIMIT'' (int_str (Max (set (map (or_100 \<circ> sm_limit_percent) fr))))
           else id) (dict_set ''CUDA_DEVICE_MEMORY_SHARED_CACHE'' MEMORY_SHARED_CACHE (memory_env fr)))"
  by (auto simp: build_hami_environ_def memory_env_def Let_def)

lemma hami_memory_entry:
  assumes "distinct (map local_index limits)" "l \<in> set limits" "memory_limit_bytes l = Some m"
  shows "dict_get (build_hami_environ limits sm) (limit_key (local_index l)) = Some (format_mib m)"
proof -
  let ?fr = "filter (\<lambda>dl. \<not> is_whole dl) limits"
  have fr: "l \<in> set ?fr" using assms(2,3) by (simp add: is_whole_def)
  moreover have "distinct (map local_index ?fr)" using assms(1) by (rule distinct_map_filter)
  ultimately have "dict_get (memory_env ?fr) (limit_key (local_index l)) = Some (format_mib m)"
    using memory_env_lookup assms(3) by fastforce
  moreover have "?fr \<noteq> []" using fr by (metis list.set(1) empty_iff)
  ultimately show ?thesis
    by (simp add: build_hami_environ_eq Let_def limit_key_other)
qed

lemma hami_keys:
  assumes "k \<in> fst ` set (build_hami_environ limits sm)"
  shows "(\<exists>l \<in> set limits. \<not> is_whole l) \<and>
    (k \<in> {''CUDA_DEVICE_MEMORY_SHARED_CACHE'', ''CUDA_DEVICE_SM_LIMIT''} \<or>
     (\<exists>l \<in> set limits. \<not> is_whole l \<and> k = limit_key (local_index l)))"
  using assms
  by (auto simp: build_hami_environ_eq Let_def dict_keys_set memory_env_keys filter_empty_conv split: if_splits)

section \<open>Properties of the program\<close>

lemma dec_rep_mult_100: "dec_rep y \<Longrightarrow> dec_rep (y * 100)"
proof -
  assume "dec_rep y"
  then obtain m e where "y = of_int m * pow_int 10 e" "\<bar>m\<bar> \<le> int 10 ^ 28" "- 1000026 \<le> e"
    by (auto simp: dec_rep_def rep_def)
  moreover have "pow_int 10 e * 100 = pow_int 10 (e + 2)"
    using pow_int_add [of 10 e 2] pow_int_nat [of 10 2] by simp
  ultimately have "y * 100 = of_int m * pow_int 10 (e + 2)" "\<bar>m\<bar> \<le> int 10 ^ 28" "- 1000026 \<le> e + 2"
    by (simp_all add: mult.assoc)
  then show ?thesis unfolding dec_rep_def rep_def by blast
qed

lemma sm_percent_exact: "sm_percent (dec_div s spd) = min (max \<lceil>dec_div s spd * 100\<rceil> 1) 100"
proof -
  have "dec_rep (dec_div s spd * 100)"
    unfolding dec_div_def by (intro dec_rep_mult_100 dec.repr_rnd)
  then show ?thesis by (simp add: sm_percent_def dec_mul_def dec.rnd_repr)
qed

lemma dec_div_nonneg: "0 \<le> s \<Longrightarrow> 0 \<le> spd \<Longrightarrow> 0 \<le> dec_div s spd"
  unfolding dec_div_def by (intro dec_rnd_nonneg) simp

lemma le_sum_list: "(\<forall>s \<in> set ss. 0 \<le> s) \<Longrightarrow> s \<in> set ss \<Longrightarrow> s \<le> sum_list ss" for s :: rat
  by (induction ss) (auto simp: add_increasing add_increasing2 sum_list_nonneg)

text \<open>C26: a share is turned into limits as the specification's section 1.6 says. With \<open>f\<close> the
  28-digit quotient of the share by the shares of a device: a whole device carries no
  limits; otherwise the memory limit is \<open>(f T - reserved) / 2^20\<close> rounded down to whole
  MiB, at least one, and the SM limit is \<open>f\<close> in percent rounded up, between 1 and 100.
  The product \<open>f T\<close> is assumed to fit the 28 digits of the decimal context.\<close>

theorem compute_limit_spec:
  assumes "0 < spd" "0 \<le> share" "0 \<le> mem" "dec_rep (dec_div share spd * of_int mem)"
  shows "\<exists>l. compute_limit i d u share spd mem reserved = Inr l \<and>
    local_index l = i \<and> lim_device_id l = d \<and> lim_uuid l = u \<and> lim_share l = share \<and>
    (let f = dec_div share spd in lim_fraction l = f \<and>
     (if 1 \<le> f then memory_limit_bytes l = None \<and> sm_limit_percent l = None
      else memory_limit_bytes l = Some (max \<lfloor>(f * of_int mem - of_int reserved) / 2 ^ 20\<rfloor> 1 * 2 ^ 20) \<and>
           sm_limit_percent l = Some (min (max \<lceil>f * 100\<rceil> 1) 100)))"
proof -
  have "spd \<noteq> 0" using assms(1) by simp
  then obtain l where l: "compute_limit i d u share spd mem reserved = Inr l"
    using compute_limit_total by blast
  have "memory_limit (dec_div share spd) mem reserved =
      max \<lfloor>(dec_div share spd * of_int mem - of_int reserved) / 2 ^ 20\<rfloor> 1 * 2 ^ 20"
    using assms by (intro memory_limit_exact dec_div_nonneg) simp_all
  with l compute_limit_fields [OF l] show ?thesis
    by (simp add: Let_def sm_percent_exact)
qed

lemma dec_div_half: "dec_div (1 / 2) 1 = 1 / 2"
  using dec_rnd_literal [of 5 1] by (simp add: dec_div_def)

lemma dec_rep_numeral: "numeral n \<le> (10 ^ 28 :: int) \<Longrightarrow> dec_rep (numeral n)"
  using dec_rep_int [of "numeral n"] by simp

theorem compute_limit_spec_witness:
  "\<exists>l. compute_limit 0 ''0'' ''GPU-p6000-1'' (1 / 2) 1 103079215104 0 = Inr l \<and>
    memory_limit_bytes l = Some 51539607552 \<and> sm_limit_percent l = Some 50"
  using compute_limit_spec [of 1 "1 / 2" 103079215104 0 "''0''" "''GPU-p6000-1''" 0]
  by (auto simp: dec_div_half dec_rep_numeral)

text \<open>What a session may use of the device's memory, and whether it got the one-MiB minimum
  although its share gives less.\<close>

definition usable_memory :: "int \<Rightarrow> device_limit \<Rightarrow> int" where
  "usable_memory mem l = (case memory_limit_bytes l of None \<Rightarrow> mem | Some b \<Rightarrow> b)"

definition below_minimum :: "int \<Rightarrow> int \<Rightarrow> device_limit \<Rightarrow> bool" where
  "below_minimum mem reserved l =
     (memory_limit_bytes l \<noteq> None \<and> trunc (dec_mul (lim_fraction l) (of_int mem)) - reserved < MiB)"

lemma usable_upper:
  assumes l: "compute_limit i d u s spd mem reserved = Inr l" and s: "0 \<le> s" "s \<le> spd" and spd: "0 < spd"
    and mem: "0 \<le> mem" "mem \<le> 10 ^ 15" and res: "0 \<le> reserved"
  shows "of_int (usable_memory mem l) \<le>
    s / spd * of_int mem + (1 / 10 ^ 11 :: rat) + of_int (if below_minimum mem reserved l then MiB else 0)"
proof -
  note f = compute_limit_fields [OF l]
  have a: "0 \<le> s / spd" "s / spd \<le> 1" using s spd by simp_all
  have am: "(0::rat) \<le> s / spd * of_int mem" using a(1) mem(1) by (intro mult_nonneg_nonneg) simp_all
  consider "1 \<le> dec_div s spd" | "\<not> 1 \<le> dec_div s spd" "MiB \<le> trunc (dec_mul (dec_div s spd) (of_int mem)) - reserved"
    | "\<not> 1 \<le> dec_div s spd" "trunc (dec_mul (dec_div s spd) (of_int mem)) - reserved < MiB" by linarith
  then show ?thesis
  proof cases
    case 1
    then have "of_int mem \<le> s / spd * of_int mem + (1 / 10 ^ 11 :: rat)"
      using whole_upper [OF a mem] by (simp add: dec_div_def)
    with 1 show ?thesis by (simp add: f usable_memory_def below_minimum_def)
  next
    case 2
    then have "of_int (memory_limit (dec_div s spd) mem reserved) \<le> s / spd * of_int mem + (1 / 10 ^ 11 :: rat)"
      unfolding dec_div_def by (intro memory_limit_upper [OF a mem res]) (simp add: dec_div_def)
    with 2 show ?thesis by (simp add: f usable_memory_def below_minimum_def)
  next
    case 3
    then have "memory_limit (dec_div s spd) mem reserved = MiB"
      by (simp add: memory_limit_def Let_def max_def MiB_def)
    with 3 am show ?thesis by (simp add: f usable_memory_def below_minimum_def)
  qed
qed

text \<open>C23: sessions that share one GPU are never promised more memory than it has, but for the
  minimum. If the shares given out on a device add up to at most \<open>shares_per_device\<close> (which
  Backend.AI's allocation map guarantees), then what the sessions may use of its memory, all
  of it without a limit, adds up to at most the device's memory and one MiB for each session
  whose share gives less than one MiB and who is given one all the same. The rounding of the
  decimals is included, for a device of up to \<open>10\<^sup>1\<^sup>5\<close> bytes and a million sessions.\<close>

theorem limits_never_oversubscribe:
  assumes spd: "0 < spd" and mem: "0 \<le> mem" "mem \<le> 10 ^ 15" and res: "0 \<le> reserved"
    and ls: "traverse (\<lambda>s. compute_limit i d u s spd mem reserved) ss = Inr ls"
    and shares: "\<forall>s \<in> set ss. 0 < s" "sum_list ss \<le> spd" "length ss \<le> 10 ^ 6"
  shows "sum_list (map (usable_memory mem) ls) \<le> mem + MiB * int (length (filter (below_minimum mem reserved) ls))"
proof -
  let ?n = "length (filter (below_minimum mem reserved) ls)"
  have l2: "list_all2 (\<lambda>s l. compute_limit i d u s spd mem reserved = Inr l) ss ls"
    using ls by (simp add: traverse_Inr_iff)
  have pos: "\<forall>s \<in> set ss. 0 \<le> s" using shares(1) by auto
  have "\<forall>s \<in> set ss. 0 \<le> s \<and> s \<le> spd" using pos le_sum_list [OF pos] shares(2) by force
  with l2 have "of_int (sum_list (map (usable_memory mem) ls)) \<le>
      sum_list ss / spd * of_int mem + of_nat (length ss) * (1 / 10 ^ 11 :: rat) + of_int (MiB * int ?n)"
  proof (induction rule: list_all2_induct)
    case (Cons s ss l ls)
    have h: "0 \<le> s" "s \<le> spd" using Cons.prems by simp_all
    have "of_int (usable_memory mem l) \<le>
        s / spd * of_int mem + (1 / 10 ^ 11 :: rat) + of_int (if below_minimum mem reserved l then MiB else 0)"
      by (rule usable_upper [OF Cons.hyps(1) h spd mem res])
    moreover have "\<forall>s \<in> set ss. 0 \<le> s \<and> s \<le> spd" using Cons.prems by simp
    ultimately show ?case using Cons.IH
      by (cases "below_minimum mem reserved l") (simp_all add: add_divide_distrib algebra_simps)
  qed simp
  also have "sum_list ss / spd * of_int mem \<le> 1 * of_int mem"
    using spd shares(2) mem by (intro mult_right_mono) simp_all
  also have "of_nat (length ss) * (1 / 10 ^ 11 :: rat) \<le> 10 ^ 6 * (1 / 10 ^ 11)"
    using shares(3) by (intro mult_right_mono) (metis of_nat_le_iff of_nat_numeral of_nat_power, simp)
  finally have "of_int (sum_list (map (usable_memory mem) ls)) < (of_int (mem + MiB * int ?n + 1) :: rat)" by simp
  then show ?thesis by (simp only: of_int_less_iff zless_add1_eq le_less) 
qed

lemma compute_limit_half: "compute_limit 0 ''0'' ''GPU-p6000-1'' (1 / 2) 1 103079215104 0 =
    Inr \<lparr>local_index = 0, lim_device_id = ''0'', lim_uuid = ''GPU-p6000-1'', lim_share = 1 / 2,
         lim_fraction = 1 / 2, memory_limit_bytes = Some 51539607552, sm_limit_percent = Some 50\<rparr>"
proof -
  have "memory_limit (1 / 2) 103079215104 0 = 51539607552"
    using memory_limit_exact [of "1 / 2" 103079215104 0] by (simp add: dec_rep_numeral)
  moreover have "sm_percent (1 / 2) = 50" using sm_percent_exact [of "1 / 2" 1] by (simp add: dec_div_half)
  ultimately show ?thesis by (simp add: compute_limit_def share_fraction_def dec_div_half)
qed

lemma half_of_96G: "trunc (dec_mul (1 / 2) 103079215104) = 51539607552"
  using trunc_of_int [of 51539607552] dec.rnd_repr [OF dec_rep_numeral [of "num.Bit0 num.One"]]
  by (simp add: dec_mul_def dec.rnd_repr dec_rep_numeral)

theorem limits_never_oversubscribe_witness:
  "\<exists>ls. traverse (\<lambda>s. compute_limit 0 ''0'' ''GPU-p6000-1'' s 1 103079215104 0) [1 / 2, 1 / 2] = Inr ls \<and>
    map memory_limit_bytes ls = [Some 51539607552, Some 51539607552] \<and>
    sum_list (map (usable_memory 103079215104) ls) \<le> 103079215104"
proof -
  obtain ls where ls: "traverse (\<lambda>s. compute_limit 0 ''0'' ''GPU-p6000-1'' s 1 103079215104 0) [1 / 2, 1 / 2] = Inr ls"
    and b: "map memory_limit_bytes ls = [Some 51539607552, Some 51539607552]"
    and f: "\<forall>l \<in> set ls. lim_fraction l = 1 / 2"
    by (simp add: compute_limit_half)
  have "\<not> below_minimum 103079215104 0 l" if "l \<in> set ls" for l
  proof -
    have l: "lim_fraction l = 1 / 2" using f that by blast
    show ?thesis unfolding below_minimum_def l of_int_numeral half_of_96G by (simp add: MiB_def)
  qed
  then have "filter (below_minimum 103079215104 0) ls = []" by (simp add: filter_empty_conv)
  moreover have "sum_list (map (usable_memory 103079215104) ls) \<le>
      103079215104 + MiB * int (length (filter (below_minimum 103079215104 0) ls))"
    by (rule limits_never_oversubscribe [OF zero_less_one _ _ order_refl ls]) simp_all
  ultimately show ?thesis using ls b by auto
qed

text \<open>C24: the limits of a container are numbered as it sees its GPUs. The \<open>n\<close>-th limit
  belongs to the \<open>n\<close>-th device with a positive share in device order (numeric identifiers
  by value, then the others), carries local index \<open>n\<close>, and is the limit \<open>compute_limit\<close>
  gives for that device's own share, memory and UUID; no other device has a limit.\<close>

theorem compute_limits_correct:
  assumes "compute_limits shares spd totals uuids reserved = Inr ls"
  shows "\<exists>active. sort_devices (map fst (filter (\<lambda>(_, s). 0 < s) shares)) = Inr active \<and>
    set active = fst ` set (filter (\<lambda>(_, s). 0 < s) shares) \<and>
    sorted (map (\<lambda>d. case device_sort_key d of Inr k \<Rightarrow> k) active) \<and>
    map lim_device_id ls = active \<and> map local_index ls = map int [0..<length active] \<and>
    (\<forall>i < length ls. \<exists>u s t. dict_get uuids (active ! i) = Some u \<and> dict_get shares (active ! i) = Some s \<and>
      dict_get totals (active ! i) = Some t \<and>
      compute_limit (int i) (active ! i) u s spd t reserved = Inr (ls ! i))"
proof -
  obtain active where a: "active_devices shares = Inr active" using compute_limits_ok_active [OF assms] ..
  note n = compute_limits_nth [OF assms a]
  from a have srt: "sort_devices (map fst (filter (\<lambda>(_, s). 0 < s) shares)) = Inr active"
    by (simp add: active_devices_def)
  have ids: "map lim_device_id ls = active"
  proof (rule nth_equalityI)
    show "length (map lim_device_id ls) = length active" using n(1) by simp
    fix i assume "i < length (map lim_device_id ls)"
    then have i: "i < length ls" "i < length active" using n(1) by simp_all
    have "lim_device_id (ls ! i) = active ! i"
      using n(2) [OF i(2)] by (elim exE conjE) (rule compute_limit_fields(2))
    with i(1) show "map lim_device_id ls ! i = active ! i" by (simp only: nth_map)
  qed
  have idx: "map local_index ls = map int [0..<length active]"
    by (rule nth_equalityI) (simp_all add: n(1) compute_limits_index [OF assms])
  have mem: "set active = fst ` set (filter (\<lambda>(_, s). 0 < s) shares)"
    using sort_devices_set [OF srt] by simp
  have each: "\<forall>i < length ls. \<exists>u s t. dict_get uuids (active ! i) = Some u \<and>
      dict_get shares (active ! i) = Some s \<and> dict_get totals (active ! i) = Some t \<and>
      compute_limit (int i) (active ! i) u s spd t reserved = Inr (ls ! i)"
    unfolding n(1) by (intro allI impI n(2))
  show ?thesis
    by (intro exI [of _ active] conjI srt mem sort_devices_sorted [OF srt] ids idx each)
qed

lemma sort_devices_pair: "sort_devices [nat_str 10, nat_str 2] = Inr [nat_str 2, nat_str 10]"
proof -
  have "device_sort_key (nat_str 10) = Inr (0, 10, '''')" "device_sort_key (nat_str 2) = Inr (0, 2, '''')"
    using device_sort_key_index [of 10] device_sort_key_index [of 2]
    by (simp_all add: nat_str.simps)
  then show ?thesis by (simp add: sort_devices_def)
qed

lemma compute_limit_whole: "compute_limit i d u 1 1 t r =
    Inr \<lparr>local_index = i, lim_device_id = d, lim_uuid = u, lim_share = 1, lim_fraction = 1,
      memory_limit_bytes = None, sm_limit_percent = None\<rparr>"
proof -
  have "dec_div 1 1 = 1" using dec.rnd_repr [OF dec_rep_int [of 1]] by (simp add: dec_div_def)
  then show ?thesis by (simp add: compute_limit_def share_fraction_def)
qed

lemma two_whole_devices:
  assumes "a \<noteq> b" "sort_devices [a, b] = Inr [b, a]"
  shows "\<exists>ls. compute_limits [(a, 1), (b, 1)] 1 [(b, 100), (a, 200)] [(b, u), (a, v)] 0 = Inr ls \<and>
    map lim_uuid ls = [u, v]"
  using assms by (simp add: compute_limits_def lookup_def compute_limit_whole)

theorem compute_limits_correct_witness:
  "\<exists>ls. compute_limits [(nat_str 10, 1), (nat_str 2, 1)] 1 [(nat_str 2, 100), (nat_str 10, 200)]
      [(nat_str 2, ''GPU-a''), (nat_str 10, ''GPU-b'')] 0 = Inr ls \<and>
    map lim_device_id ls = [nat_str 2, nat_str 10] \<and> map lim_uuid ls = [''GPU-a'', ''GPU-b'']"
proof -
  define a b u v where "a = nat_str 10" and "b = nat_str 2" and "u = ''GPU-a''" and "v = ''GPU-b''"
  have ne: "a \<noteq> b"
  proof
    assume "a = b"
    then have "nat_str 10 = nat_str 2" by (simp only: a_def b_def)
    from nat_str_inj [OF this] show False by simp
  qed
  have srt: "sort_devices [a, b] = Inr [b, a]" unfolding a_def b_def by (rule sort_devices_pair)
  obtain ls where ls: "compute_limits [(a, 1), (b, 1)] 1 [(b, 100), (a, 200)] [(b, u), (a, v)] 0 = Inr ls"
    and uuids: "map lim_uuid ls = [u, v]"
    using two_whole_devices [OF ne srt, of u v] by (elim exE conjE) (rule that)
  have keys: "map fst (filter (\<lambda>(_, s). 0 < s) [(a, 1 :: rat), (b, 1)]) = [a, b]" by simp
  obtain active where "Inr [b, a] = (Inr active :: string list result)" "map lim_device_id ls = active"
    using compute_limits_correct [OF ls] unfolding keys srt by (elim exE conjE) (rule that)
  then have "map lim_device_id ls = [b, a]" by (simp only: sum.inject)
  with ls uuids show ?thesis unfolding a_def b_def u_def v_def by (intro exI [of _ ls] conjI)
qed

text \<open>C25: the environment limits exactly the devices that must be limited. For the limits of a
  container, the variable of local index \<open>n\<close> is set if and only if its \<open>n\<close>-th device is
  fractional, to that device's limit in MiB; with no fractional device no variable is set
  at all; otherwise the shared cache is set, and the SM limit, when enabled, is the largest
  percentage of the fractional devices.\<close>

theorem hami_environ_spec:
  assumes "compute_limits shares spd totals uuids reserved = Inr ls"
  shows "(\<forall>n < length ls. dict_get (build_hami_environ ls sm) (limit_key (int n)) =
      map_option format_mib (memory_limit_bytes (ls ! n))) \<and>
    (if \<forall>l \<in> set ls. is_whole l then build_hami_environ ls sm = []
     else dict_get (build_hami_environ ls sm) ''CUDA_DEVICE_MEMORY_SHARED_CACHE'' = Some MEMORY_SHARED_CACHE \<and>
       dict_get (build_hami_environ ls sm) ''CUDA_DEVICE_SM_LIMIT'' =
         (if sm then Some (int_str (Max ((or_100 \<circ> sm_limit_percent) ` {l \<in> set ls. \<not> is_whole l}))) else None))"
proof -
  note dist = compute_limits_distinct_index [OF assms]
  have "dict_get (build_hami_environ ls sm) (limit_key (int n)) = map_option format_mib (memory_limit_bytes (ls ! n))"
    if n: "n < length ls" for n
  proof (cases "memory_limit_bytes (ls ! n)")
    case (Some m)
    with hami_memory_entry [OF dist nth_mem [OF n] Some] compute_limits_index [OF assms n]
    show ?thesis by simp
  next
    case None
    have "limit_key (int n) \<notin> fst ` set (build_hami_environ ls sm)"
    proof
      assume "limit_key (int n) \<in> fst ` set (build_hami_environ ls sm)"
      then obtain l where l: "l \<in> set ls" "\<not> is_whole l" "local_index l = int n"
        by (auto dest!: hami_keys simp: limit_key_other limit_key_inj)
      then have "l = ls ! n"
        using dist n compute_limits_index [OF assms n] by (metis distinct_map inj_on_eq_iff nth_mem)
      with l(2) None show False by (simp add: is_whole_def)
    qed
    then show ?thesis using None by (simp add: map_of_eq_None_iff)
  qed
  then have entries: "\<forall>n < length ls. dict_get (build_hami_environ ls sm) (limit_key (int n)) =
      map_option format_mib (memory_limit_bytes (ls ! n))" by blast
  have "dict_get (memory_env (filter (\<lambda>dl. \<not> is_whole dl) ls)) ''CUDA_DEVICE_SM_LIMIT'' = None"
    unfolding map_of_eq_None_iff memory_env_keys using limit_key_other(2) by force
  then show ?thesis
    by (intro conjI entries) (cases sm; simp add: build_hami_environ_eq Let_def filter_empty_conv image_comp)
qed

theorem hami_environ_spec_witness:
  "\<exists>ls. compute_limits [(nat_str 2, 1)] 1 [(nat_str 2, 100)] [(nat_str 2, ''GPU-a'')] 0 = Inr ls \<and>
    length ls = 1 \<and> dict_get (build_hami_environ ls True) (limit_key 0) = None"
proof -
  have "sort_devices [nat_str 2] = Inr [nat_str 2]"
    using device_sort_key_index [of 2] by (simp add: sort_devices_def nat_str.simps)
  then obtain ls where ls: "compute_limits [(nat_str 2, 1)] 1 [(nat_str 2, 100)] [(nat_str 2, ''GPU-a'')] 0 = Inr ls"
    and one: "length ls = 1" "memory_limit_bytes (ls ! 0) = None"
    by (simp add: compute_limits_def lookup_def compute_limit_whole del: nat_str.simps)
  from hami_environ_spec [OF ls, of True] one have "dict_get (build_hami_environ ls True) (limit_key 0) = None"
    by (metis int_ops(1) less_one map_option_is_None)
  with ls one show ?thesis by blast
qed

end
