(* ===== verification/Selection.thy ===== *)
theory Selection imports Sizes begin

text \<open>
  \<open>labgpu/selection.py\<close>: the filter that says which GPUs a plugin instance takes, with the
  \<open>fnmatch\<close> patterns it is written in, the check of a plugin key, and the claim files that
  keep two plugins of one process off the same GPU.
\<close>

section \<open>Glob patterns\<close>

text \<open>
  \<open>fnmatch.translate\<close> turns a pattern into a regular expression of these atoms: any run,
  any character, one character, a character set (a range \<open>a-b\<close> or a single character each),
  a complemented one, and the set that matches nothing.
\<close>

datatype glob_atom =
    Run
  | AnyChar
  | Lit char
  | OneOf "(char \<times> char) list"
  | NoneOf "(char \<times> char) list"

definition in_ranges :: "(char \<times> char) list \<Rightarrow> char \<Rightarrow> bool" where
  "in_ranges rs c = list_ex (\<lambda>(lo, hi). code lo \<le> code c \<and> code c \<le> code hi) rs"

text \<open>The body of a bracket expression, split at the hyphens that form ranges: a hyphen at
  the start, right after one that formed a range, or at the end is literal. \<open>n\<close> is the
  number of leading characters in which no hyphen is looked for.\<close>

fun hyphen_chunks :: "nat \<Rightarrow> string \<Rightarrow> string list" where
  "hyphen_chunks n body = (let h = takeWhile (\<lambda>c. c \<noteq> CHR ''-'') (drop n body);
       rest = drop (n + length h) body
     in if rest = [] then [body]
        else if drop 1 rest = [] then [take (n + length h) body @ ''-'']
        else take (n + length h) body # hyphen_chunks 2 (drop 1 rest))"

declare hyphen_chunks.simps [simp del]

text \<open>Ranges whose ends are out of order are dropped, from the last to the first, together
  with the end characters; the chunks around them become one.\<close>

fun merge_chunks :: "string list \<Rightarrow> string list" where
  "merge_chunks [] = []"
| "merge_chunks [c] = [c]"
| "merge_chunks (c # cs) = (case merge_chunks cs of
     [] \<Rightarrow> [c]
   | d # ds \<Rightarrow> if c \<noteq> [] \<and> d \<noteq> [] \<and> code (hd d) < code (last c) then (butlast c @ tl d) # ds
               else c # d # ds)"

definition singles :: "string \<Rightarrow> (char \<times> char) list" where
  "singles s = map (\<lambda>c. (c, c)) s"

fun chunk_ranges :: "string list \<Rightarrow> (char \<times> char) list" where
  "chunk_ranges [] = []"
| "chunk_ranges [c] = singles c"
| "chunk_ranges (c # d # ds) = singles c @ (last c, hd d) # chunk_ranges (d # ds)"

definition bracket_atom :: "string \<Rightarrow> glob_atom" where
  "bracket_atom body = (let
       chunks = merge_chunks (hyphen_chunks (if body \<noteq> [] \<and> hd body = CHR ''!'' then 2 else 1) body)
     in if concat chunks = [] then OneOf []
        else if hd (concat chunks) = CHR ''!''
        then NoneOf (chunk_ranges (tl (hd chunks) # tl chunks))
        else OneOf (chunk_ranges chunks))"

text \<open>Where the bracket that opens at \<open>s\<close> closes: a bang and a closing bracket at the very
  start belong to the body.\<close>

definition bracket_body :: "string \<Rightarrow> (string \<times> string) option" where
  "bracket_body s = (let
       n = (if s \<noteq> [] \<and> hd s = CHR ''!'' then 1 else 0);
       n' = (if drop n s \<noteq> [] \<and> hd (drop n s) = CHR '']'' then n + 1 else n);
       more = takeWhile (\<lambda>c. c \<noteq> CHR '']'') (drop n' s);
       rest = drop (n' + length more) s
     in if rest = [] then None else Some (take (n' + length more) s, tl rest))"

lemma bracket_body_shorter: "bracket_body s = Some (b, r) \<Longrightarrow> length r < length s"
  by (auto simp: bracket_body_def Let_def split: if_splits)

function glob_atoms :: "string \<Rightarrow> glob_atom list" where
  "glob_atoms [] = []"
| "glob_atoms (c # s) =
     (if c = CHR ''*'' then Run # glob_atoms s
      else if c = CHR ''?'' then AnyChar # glob_atoms s
      else if c = CHR ''['' then
        (case bracket_body s of None \<Rightarrow> Lit c # glob_atoms s
         | Some (body, rest) \<Rightarrow> bracket_atom body # glob_atoms rest)
      else Lit c # glob_atoms s)"
  by pat_completeness auto
termination
  by (relation "measure length") (auto dest!: bracket_body_shorter)

fun atom_matches :: "glob_atom \<Rightarrow> char \<Rightarrow> bool" where
  "atom_matches Run c = True"
| "atom_matches AnyChar c = True"
| "atom_matches (Lit d) c = (c = d)"
| "atom_matches (OneOf rs) c = in_ranges rs c"
| "atom_matches (NoneOf rs) c = (\<not> in_ranges rs c)"

fun glob_match :: "glob_atom list \<Rightarrow> string \<Rightarrow> bool" where
  "glob_match [] s = (s = [])"
| "glob_match (Run # p) [] = glob_match p []"
| "glob_match (Run # p) (c # s) = (glob_match p (c # s) \<or> glob_match (Run # p) s)"
| "glob_match (a # p) [] = False"
| "glob_match (a # p) (c # s) = (atom_matches a c \<and> glob_match p s)"

definition fnmatchcase :: "string \<Rightarrow> string \<Rightarrow> bool" where
  "fnmatchcase name pat = glob_match (glob_atoms pat) name"

definition model_matches :: "string \<Rightarrow> string list \<Rightarrow> bool" where
  "model_matches name patterns = list_ex (\<lambda>p. fnmatchcase (lower name) (lower p)) patterns"

section \<open>The selector\<close>

record gpu_selector =
  sel_patterns :: "string list"
  min_memory :: "int option"
  max_memory :: "int option"
  excluded_uuids :: "string list"

definition opt_size :: "pyval option \<Rightarrow> int option result" where
  "opt_size v = (case v of None \<Rightarrow> Inr None
     | Some x \<Rightarrow> if truthy x then rmap Some (parse_size x) else Inr None)"

definition split_mask :: "pyval option \<Rightarrow> string list result" where
  "split_mask v = (case v of None \<Rightarrow> Inr []
     | Some x \<Rightarrow> if \<not> truthy x then Inr []
       else (case x of PStr s \<Rightarrow> Inr (map strip (split_on (CHR '','') s))
         | _ \<Rightarrow> Inl (AttributeError (repr_str (type_name x) @ '' object has no attribute '' @ repr_str ''split''))))"

definition from_config :: "(string, pyval) pydict \<Rightarrow> gpu_selector result" where
  "from_config cfg =
     (let raw = py_str (get_or (PStr ''*'') cfg ''model_pattern'');
          listed = filter (\<lambda>p. p \<noteq> []) (map strip (split_on (CHR '','') raw));
          pats = (if listed = [] then [''*''] else listed)
      in rbind (opt_size (dict_get cfg ''min_memory'')) (\<lambda>lo.
         rbind (opt_size (dict_get cfg ''max_memory'')) (\<lambda>hi.
         rbind (split_mask (dict_get cfg ''device_mask'')) (\<lambda>mask.
           Inr \<lparr>sel_patterns = pats, min_memory = lo, max_memory = hi, excluded_uuids = mask\<rparr>))))"

definition matches :: "gpu_selector \<Rightarrow> string \<Rightarrow> int \<Rightarrow> string \<Rightarrow> bool" where
  "matches s name total_memory uuid =
     (if uuid \<in> set (excluded_uuids s) then False
      else if (case min_memory s of None \<Rightarrow> False | Some lo \<Rightarrow> total_memory < lo) then False
      else if (case max_memory s of None \<Rightarrow> False | Some hi \<Rightarrow> hi < total_memory) then False
      else model_matches name (sel_patterns s))"

section \<open>Plugin keys\<close>

text \<open>\<open>^[a-z0-9][a-z0-9-]*$\<close> under \<open>match\<close>: the dollar also matches before a final line
  feed.\<close>

definition key_char :: "char \<Rightarrow> bool" where
  "key_char c = (97 \<le> code c \<and> code c \<le> 122 \<or> is_dec c)"

definition key_body :: "string \<Rightarrow> bool" where
  "key_body k = (k \<noteq> [] \<and> key_char (hd k) \<and> list_all (\<lambda>c. key_char c \<or> c = CHR ''-'') (tl k))"

definition rx_key :: "string \<Rightarrow> bool" where
  "rx_key k = (key_body k \<or> k \<noteq> [] \<and> code (last k) = 10 \<and> key_body (butlast k))"

definition validate_key :: "string \<Rightarrow> string result" where
  "validate_key key = (if \<not> rx_key key \<or> key \<in> {''cpu'', ''mem''}
     then Inl (ValueError (''invalid plugin key '' @ repr_str key @
       '': use lowercase letters, digits, and '' @ repr_str ''-''))
     else Inr key)"

section \<open>Claims\<close>

definition default_claim_dir :: "string option \<Rightarrow> bool \<Rightarrow> bool \<Rightarrow> string \<Rightarrow> string" where
  "default_claim_dir env mkdir_ok writable tmp =
     (case env of Some d \<Rightarrow> if d \<noteq> [] then d
        else if mkdir_ok \<and> writable then ''/run/labgpu/claims'' else tmp @ ''/labgpu-claims''
      | None \<Rightarrow> if mkdir_ok \<and> writable then ''/run/labgpu/claims'' else tmp @ ''/labgpu-claims'')"

text \<open>The claim directory: the text of each readable file, by GPU UUID. A file that is missing
  or cannot be read has none; \<open>writable\<close> tells whether writing a file succeeds.\<close>

type_synonym claims = "string \<rightharpoonup> string"

fun check_claims :: "int \<Rightarrow> string \<Rightarrow> string list \<Rightarrow> claims \<Rightarrow> unit result" where
  "check_claims pid owner [] cl = Inr ()"
| "check_claims pid owner (u # us) cl = (case cl u of
     None \<Rightarrow> check_claims pid owner us cl
   | Some t \<Rightarrow> (let (other_pid, other_owner) = partition (CHR '':'') t in
       if other_pid = int_str pid \<and> other_owner \<noteq> owner
       then Inl (GpuClaimConflict (''GPU '' @ u @ '' is already taken by plugin '' @ repr_str other_owner @
         ''; narrow model_pattern or memory bounds so that '' @ repr_str owner @ '' does not overlap it''))
       else check_claims pid owner us cl))"

fun write_claims :: "(string \<Rightarrow> bool) \<Rightarrow> int \<Rightarrow> string \<Rightarrow> string list \<Rightarrow> claims \<Rightarrow> unit result \<times> claims" where
  "write_claims writable pid owner [] cl = (Inr (), cl)"
| "write_claims writable pid owner (u # us) cl = (if \<not> writable u then (Inl (OSError u), cl)
     else write_claims writable pid owner us (cl(u \<mapsto> int_str pid @ '':'' @ owner)))"

definition claim_gpus :: "bool \<Rightarrow> (string \<Rightarrow> bool) \<Rightarrow> int \<Rightarrow> string \<Rightarrow> string list \<Rightarrow> claims \<Rightarrow> unit result \<times> claims" where
  "claim_gpus mkdir_ok writable pid owner uuids cl = (if \<not> mkdir_ok then (Inl (OSError ''mkdir''), cl)
     else case check_claims pid owner uuids cl of
       Inl e \<Rightarrow> (Inl e, cl)
     | Inr _ \<Rightarrow> write_claims writable pid owner uuids cl)"

section \<open>What a glob means\<close>

text \<open>The meaning of a pattern without reference to the search: a string matches when it can
  be cut into pieces, one per atom, each of which the atom admits.\<close>

inductive glob_admits :: "glob_atom list \<Rightarrow> string \<Rightarrow> bool" where
  admits_end: "glob_admits [] []"
| admits_run: "glob_admits p s \<Longrightarrow> glob_admits (Run # p) (w @ s)"
| admits_char: "a \<noteq> Run \<Longrightarrow> atom_matches a c \<Longrightarrow> glob_admits p s \<Longrightarrow> glob_admits (a # p) (c # s)"

inductive_cases admits_NilE: "glob_admits [] s"
inductive_cases admits_ConsE: "glob_admits (a # p) s"

lemma glob_match_sound: "glob_match p s \<Longrightarrow> glob_admits p s"
proof (induction p s rule: glob_match.induct)
  case (2 p)
  then show ?case using admits_run [of p "[]" "[]"] by simp
next
  case (3 p c s)
  show ?case
  proof (cases "glob_match p (c # s)")
    case True
    then show ?thesis using 3 admits_run [of p "c # s" "[]"] by simp
  next
    case False
    then have "glob_admits (Run # p) s" using 3 by simp
    then obtain w t where "s = w @ t" "glob_admits p t" by (auto elim: admits_ConsE)
    then show ?thesis using admits_run [of p t "c # w"] by simp
  qed
qed (auto intro: glob_admits.intros)

lemma glob_match_run: "glob_match p s \<Longrightarrow> glob_match (Run # p) (w @ s)"
proof (induction w)
  case Nil
  then show ?case by (cases s) auto
qed simp

lemma glob_match_complete: "glob_admits p s \<Longrightarrow> glob_match p s"
proof (induction rule: glob_admits.induct)
  case (admits_char a c p s)
  then show ?case by (cases a) auto
qed (auto intro: glob_match_run)

lemma glob_match_iff: "glob_match p s \<longleftrightarrow> glob_admits p s"
  using glob_match_sound glob_match_complete by blast

text \<open>A pattern of ordinary characters matches itself only; put between stars it matches what
  contains it.\<close>

definition plain :: "string \<Rightarrow> bool" where
  "plain s = (\<forall>c \<in> set s. c \<notin> {CHR ''*'', CHR ''?'', CHR ''[''})"

lemma glob_atoms_plain: "plain s \<Longrightarrow> glob_atoms (s @ t) = map Lit s @ glob_atoms t"
  by (induction s) (auto simp: plain_def)

lemma glob_match_lits: "glob_match (map Lit s @ p) u \<longleftrightarrow> (\<exists>t. u = s @ t \<and> glob_match p t)"
proof (induction s arbitrary: u)
  case (Cons c s)
  then show ?case by (cases u) auto
qed simp

lemma glob_match_Run: "glob_match (Run # p) u \<longleftrightarrow> (\<exists>w t. u = w @ t \<and> glob_match p t)"
  unfolding glob_match_iff by (metis admits_ConsE admits_run glob_atom.distinct)

lemma fnmatch_plain: "plain p \<Longrightarrow> fnmatchcase s p \<longleftrightarrow> s = p"
  using glob_atoms_plain [of p "[]"] glob_match_lits [of p "[]" s] by (simp add: fnmatchcase_def)

lemma fnmatch_contains:
  assumes "plain p"
  shows "fnmatchcase s (''*'' @ p @ ''*'') \<longleftrightarrow> (\<exists>u v. s = u @ p @ v)"
proof -
  have "glob_atoms (''*'' @ p @ ''*'') = Run # map Lit p @ [Run]"
    using glob_atoms_plain [OF assms, of "''*''"] by simp
  moreover have "glob_match [Run] t" for t using glob_match_Run [of "[]" t] by simp
  ultimately show ?thesis
    by (simp add: fnmatchcase_def glob_match_Run glob_match_lits) (metis append.assoc)
qed

section \<open>Properties of the claims\<close>

text \<open>Whose GPU a claim file says it is, for a process.\<close>

definition claimed_by :: "claims \<Rightarrow> int \<Rightarrow> string \<Rightarrow> string option" where
  "claimed_by cl pid u = (case cl u of None \<Rightarrow> None
     | Some t \<Rightarrow> if fst (partition (CHR '':'') t) = int_str pid then Some (snd (partition (CHR '':'') t)) else None)"

lemma int_str_no_colon: "CHR '':'' \<notin> set (int_str i)"
proof
  assume "CHR '':'' \<in> set (int_str i)"
  then have "is_dec (CHR '':'')" by (auto simp: int_str_def split: if_splits dest: nat_str_chars)
  then show False by (simp add: is_dec_def code_def)
qed

lemma claimed_by_written [simp]: "claimed_by (cl(u \<mapsto> int_str pid @ CHR '':'' # owner)) pid v =
    (if v = u then Some owner else claimed_by cl pid v)"
  using partition_join [OF int_str_no_colon, of pid owner] by (simp add: claimed_by_def)

lemma check_claims_ok_iff: "is_ok (check_claims pid owner us cl) \<longleftrightarrow>
    (\<forall>u \<in> set us. claimed_by cl pid u \<in> {None, Some owner})"
  by (induction us) (auto simp: claimed_by_def case_prod_unfold Let_def split: option.splits if_splits)

lemma write_claims_owner: "write_claims w pid owner us cl = (r, cl') \<Longrightarrow>
    claimed_by cl' pid v = claimed_by cl pid v \<or> v \<in> set us \<and> claimed_by cl' pid v = Some owner"
proof (induction us arbitrary: cl)
  case (Cons u us)
  show ?case
  proof (cases "w u")
    case True
    with Cons.prems have "write_claims w pid owner us (cl(u \<mapsto> int_str pid @ '':'' @ owner)) = (r, cl')" by simp
    from Cons.IH [OF this] show ?thesis
      unfolding append.simps claimed_by_written by (auto split: if_splits)
  qed (use Cons.prems in simp)
qed simp

lemma write_claims_done: "write_claims w pid owner us cl = (Inr (), cl') \<Longrightarrow> v \<in> set us \<Longrightarrow>
    claimed_by cl' pid v = Some owner"
proof (induction us arbitrary: cl)
  case (Cons u us)
  then have ok: "write_claims w pid owner us (cl(u \<mapsto> int_str pid @ '':'' @ owner)) = (Inr (), cl')"
    by (auto split: if_splits)
  show ?case
  proof (cases "v \<in> set us")
    case True
    then show ?thesis using Cons.IH [OF ok] by simp
  next
    case False
    then show ?thesis using Cons.prems(2) write_claims_owner [OF ok, of v] by auto
  qed
qed simp

lemma claim_gpus_ok:
  assumes "claim_gpus m w pid owner us cl = (Inr (), cl')"
  shows "v \<in> set us \<Longrightarrow> claimed_by cl pid v \<in> {None, Some owner} \<and> claimed_by cl' pid v = Some owner"
  using assms check_claims_ok_iff [of pid owner us cl] write_claims_done [of w pid owner us cl cl' v]
  by (auto simp: claim_gpus_def is_ok_def split: if_splits sum.splits)

text \<open>A GPU of the process stays with its owner whatever is called next.\<close>

lemma claim_gpus_keeps:
  assumes "claim_gpus m w pid owner us cl = (r, cl')" "claimed_by cl pid v = Some other"
  shows "claimed_by cl' pid v = Some other"
proof (cases "m \<and> is_ok (check_claims pid owner us cl)")
  case True
  then have "write_claims w pid owner us cl = (r, cl')"
    using assms(1) by (auto simp: claim_gpus_def is_ok_def split: sum.splits)
  from write_claims_owner [OF this, of v] show ?thesis
    using True assms(2) by (auto simp: check_claims_ok_iff)
next
  case False
  then have "cl' = cl" using assms(1) by (auto simp: claim_gpus_def is_ok_def split: sum.splits if_splits)
  then show ?thesis using assms(2) by simp
qed

text \<open>The calls of one process, in order; the result lists those that returned.\<close>

fun claim_run :: "(string \<Rightarrow> bool) \<Rightarrow> int \<Rightarrow> (string \<times> string list) list \<Rightarrow> claims \<Rightarrow>
    (string \<times> string list) list" where
  "claim_run w pid [] cl = []"
| "claim_run w pid ((owner, us) # rs) cl = (let (r, cl') = claim_gpus True w pid owner us cl in
     (if is_ok r then [(owner, us)] else []) @ claim_run w pid rs cl')"

lemma claim_run_respects: "(owner, us) \<in> set (claim_run w pid rs cl) \<Longrightarrow> v \<in> set us \<Longrightarrow>
    claimed_by cl pid v \<in> {None, Some owner}"
proof (induction rs arbitrary: cl)
  case (Cons q rs)
  obtain o' us' where q: "q = (o', us')" by (cases q)
  obtain r cl' where c: "claim_gpus True w pid o' us' cl = (r, cl')" by (cases "claim_gpus True w pid o' us' cl")
  from Cons.prems(1) consider (now) "owner = o'" "us = us'" "r = Inr ()"
    | (later) "(owner, us) \<in> set (claim_run w pid rs cl')"
    by (auto simp: q c is_ok_def split: if_splits sum.splits)
  then show ?case
  proof cases
    case now
    then show ?thesis using claim_gpus_ok [of True w pid o' us' cl cl' v] c Cons.prems(2) by simp
  next
    case later
    from Cons.IH [OF this Cons.prems(2)] claim_gpus_keeps [OF c, of v] show ?thesis by force
  qed
qed simp

text \<open>Two plugins of one process never both take a GPU. Of the calls a process makes to
  \<open>claim_gpus\<close>, in any order, with overlapping or repeated lists and with writes that fail
  half way, those that returned to different owners took disjoint sets of GPUs.\<close>

theorem claims_exclusive:
  assumes "i < j" "j < length g" "g = claim_run w pid rs cl"
    "fst (g ! i) \<noteq> fst (g ! j)"
  shows "set (snd (g ! i)) \<inter> set (snd (g ! j)) = {}"
  using assms
proof (induction rs arbitrary: cl g i j)
  case (Cons q rs)
  obtain owner us where q: "q = (owner, us)" by (cases q)
  obtain r cl' where c: "claim_gpus True w pid owner us cl = (r, cl')" by (cases "claim_gpus True w pid owner us cl")
  let ?g = "claim_run w pid rs cl'"
  show ?case
  proof (cases "is_ok r")
    case False
    then show ?thesis using Cons.IH [of i j ?g cl'] Cons.prems by (simp add: q c)
  next
    case True
    then have ok: "claim_gpus True w pid owner us cl = (Inr (), cl')" using c by (cases r) simp_all
    from Cons.prems(3) True have g: "g = (owner, us) # ?g" by (simp add: q c)
    show ?thesis
    proof (cases i)
      case 0
      then have j: "g ! j \<in> set ?g" using Cons.prems(1,2) g by (cases j) auto
      obtain o2 us2 where e: "g ! j = (o2, us2)" by (cases "g ! j")
      have "v \<notin> set us2" if "v \<in> set us" for v
        using claim_run_respects [of o2 us2 w pid rs cl' v] claim_gpus_ok [OF ok that] j e Cons.prems(4) 0 g by auto
      then show ?thesis using 0 g e by auto
    next
      case (Suc i')
      then obtain j' where "j = Suc j'" using Cons.prems(1) by (cases j) auto
      moreover from this have "i' < j'" "j' < length ?g" "fst (?g ! i') \<noteq> fst (?g ! j')"
        using Cons.prems(1,2,4) Suc unfolding g by simp_all
      ultimately show ?thesis using Cons.IH [of i' j' ?g cl'] Suc unfolding g by simp
    qed
  qed
qed simp

theorem claims_exclusive_witness:
  "set [''GPU-1''] \<inter> set [''GPU-2''] = {} \<and>
    claim_run (\<lambda>_. True) 7 [(''cuda0'', [''GPU-1'']), (''p6000'', [''GPU-1'', ''GPU-2'']), (''p6000'', [''GPU-2''])]
      Map.empty = [(''cuda0'', [''GPU-1'']), (''p6000'', [''GPU-2''])]"
proof -
  let ?rs = "[(''cuda0'', [''GPU-1'']), (''p6000'', [''GPU-1'', ''GPU-2'']), (''p6000'', [''GPU-2''])]"
  have run: "claim_run (\<lambda>_. True) 7 ?rs Map.empty = [(''cuda0'', [''GPU-1'']), (''p6000'', [''GPU-2''])]"
    by code_simp
  with claims_exclusive [OF _ _ refl, of 0 1 "\<lambda>_. True" 7 ?rs Map.empty]
  have "set [''GPU-1''] \<inter> set [''GPU-2''] = {}" by simp
  with run show ?thesis by simp
qed

text \<open>C37: a selector takes exactly the GPUs it describes: those not masked, within the memory
  bounds (both inclusive), whose model name, lower-cased, can be cut into pieces that the
  atoms of one of its lower-cased patterns admit. A pattern without special characters
  between two stars admits exactly the names that contain it, in any case.\<close>

theorem selector_matches_iff:
  "(matches s name mem uuid \<longleftrightarrow> uuid \<notin> set (excluded_uuids s) \<and>
     (\<forall>lo. min_memory s = Some lo \<longrightarrow> lo \<le> mem) \<and> (\<forall>hi. max_memory s = Some hi \<longrightarrow> mem \<le> hi) \<and>
     (\<exists>p \<in> set (sel_patterns s). glob_admits (glob_atoms (lower p)) (lower name))) \<and>
   (plain (lower p) \<longrightarrow> (fnmatchcase (lower name) (lower (''*'' @ p @ ''*'')) \<longleftrightarrow>
     (\<exists>u v. lower name = u @ lower p @ v)))"
proof -
  have star: "lower ''*'' = ''*''" by code_simp
  have "matches s name mem uuid \<longleftrightarrow> uuid \<notin> set (excluded_uuids s) \<and>
     (\<forall>lo. min_memory s = Some lo \<longrightarrow> lo \<le> mem) \<and> (\<forall>hi. max_memory s = Some hi \<longrightarrow> mem \<le> hi) \<and>
     (\<exists>p \<in> set (sel_patterns s). glob_admits (glob_atoms (lower p)) (lower name))"
    by (auto simp: matches_def model_matches_def fnmatchcase_def glob_match_iff list_ex_iff not_less
        split: option.splits)
  then show ?thesis using fnmatch_contains [of "lower p" "lower name"] by (simp only: lower_append star) blast
qed

theorem selector_matches_iff_witness:
  "matches \<lparr>sel_patterns = [''*p6000*''], min_memory = Some 10, max_memory = None, excluded_uuids = [''GPU-2'']\<rparr>
     ''Quadro P6000'' 24 ''GPU-1'' \<and>
   (fnmatchcase (lower ''Quadro P6000'') (lower (''*'' @ ''P6000'' @ ''*'')) \<longleftrightarrow>
     (\<exists>u v. lower ''Quadro P6000'' = u @ lower ''P6000'' @ v))"
proof -
  have "plain (lower ''P6000'')" by code_simp
  with selector_matches_iff [of _ "''Quadro P6000''" _ _ "''P6000''"]
  have "fnmatchcase (lower ''Quadro P6000'') (lower (''*'' @ ''P6000'' @ ''*'')) \<longleftrightarrow>
     (\<exists>u v. lower ''Quadro P6000'' = u @ lower ''P6000'' @ v)" by blast
  moreover have "matches \<lparr>sel_patterns = [''*p6000*''], min_memory = Some 10, max_memory = None,
      excluded_uuids = [''GPU-2'']\<rparr> ''Quadro P6000'' 24 ''GPU-1''" by code_simp
  ultimately show ?thesis by blast
qed

end
