(* ===== verification/Py_Path.thy ===== *)
theory Py_Path imports Py_Value begin

text \<open>
  POSIX paths as \<open>pathlib\<close> and \<open>os.path\<close> treat them: an anchor (none, one slash, or
  exactly two, which POSIX keeps apart) and the named parts. \<open>PurePosixPath\<close> drops empty
  parts and single dots but keeps double dots; \<open>normpath\<close> resolves those on the text.
\<close>

datatype path = Path (anchor: nat) (parts: "string list")

definition anchor_of :: "string \<Rightarrow> nat" where
  "anchor_of s = (let n = length (takeWhile (\<lambda>c. c = CHR ''/'') s) in if n = 2 then 2 else min n 1)"

definition path_of :: "string \<Rightarrow> path" where
  "path_of s = Path (anchor_of s) (filter (\<lambda>p. p \<noteq> [] \<and> p \<noteq> ''.'') (split_on (CHR ''/'') s))"

definition path_str :: "path \<Rightarrow> string" where
  "path_str p = (if anchor p = 0 \<and> parts p = [] then ''.''
                 else replicate (anchor p) (CHR ''/'') @ join ''/'' (parts p))"

definition is_absolute :: "path \<Rightarrow> bool" where
  "is_absolute p = (anchor p \<noteq> 0)"

text \<open>\<open>p / s\<close>.\<close>

definition path_div :: "path \<Rightarrow> string \<Rightarrow> path" where
  "path_div p s = (let q = path_of s in if is_absolute q then q else Path (anchor p) (parts p @ parts q))"

definition is_relative_to :: "path \<Rightarrow> path \<Rightarrow> bool" where
  "is_relative_to p q = (anchor p = anchor q \<and> take (length (parts q)) (parts p) = parts q)"

text \<open>\<open>os.path.normpath\<close>.\<close>

fun norm_parts :: "bool \<Rightarrow> string list \<Rightarrow> string list \<Rightarrow> string list" where
  "norm_parts rooted acc [] = acc"
| "norm_parts rooted acc (c # cs) =
     (if c = [] \<or> c = ''.'' then norm_parts rooted acc cs
      else if c \<noteq> ''..'' \<or> (\<not> rooted \<and> acc = []) \<or> (acc \<noteq> [] \<and> last acc = ''..'')
      then norm_parts rooted (acc @ [c]) cs
      else if acc \<noteq> [] then norm_parts rooted (butlast acc) cs
      else norm_parts rooted acc cs)"

definition normpath :: "string \<Rightarrow> string" where
  "normpath s = path_str (Path (anchor_of s) (norm_parts (anchor_of s \<noteq> 0) [] (split_on (CHR ''/'') s)))"

text \<open>\<open>Path(v)\<close> for a value of a configuration file.\<close>

definition to_path :: "pyval \<Rightarrow> path result" where
  "to_path v = (case v of PStr s \<Rightarrow> Inr (path_of s)
     | _ \<Rightarrow> Inl (TypeError (''argument should be a str or an os.PathLike object, not '' @ repr_str (type_name v))))"

text \<open>A path whose parts could be those of a directory listing: none is empty, a dot, or
  contains a slash.\<close>

definition wf_path :: "path \<Rightarrow> bool" where
  "wf_path p = (anchor p \<le> 2 \<and> (\<forall>c \<in> set (parts p). c \<noteq> [] \<and> c \<noteq> ''.'' \<and> CHR ''/'' \<notin> set c))"

lemma path_of_wf: "wf_path (path_of s)"
  by (auto simp: wf_path_def path_of_def anchor_of_def Let_def split_on_no_sep)

lemma slashes: "c \<noteq> CHR ''/'' \<Longrightarrow> takeWhile (\<lambda>d. d = CHR ''/'') (replicate n (CHR ''/'') @ c # t) = replicate n (CHR ''/'')"
  by (induction n) auto

lemma all_slashes: "takeWhile (\<lambda>d. d = CHR ''/'') (replicate n (CHR ''/'')) = replicate n (CHR ''/'')"
  by (induction n) auto

lemma split_replicate: "split_on c (replicate n c @ t) = replicate n [] @ split_on c t"
  by (induction n) auto

text \<open>The text of a path denotes it.\<close>

lemma path_of_str: "wf_path p \<Longrightarrow> path_of (path_str p) = p"
proof (cases p)
  case (Path a ps)
  assume "wf_path p"
  then have a: "a \<le> 2" and ps: "\<forall>c \<in> set ps. c \<noteq> [] \<and> c \<noteq> ''.'' \<and> CHR ''/'' \<notin> set c"
    by (auto simp: wf_path_def Path)
  have small: "(if a = 2 then 2 else min a 1) = a" using a by auto
  show ?thesis
  proof (cases "ps = []")
    case True
    have "split_on (CHR ''/'') (replicate a (CHR ''/'')) = replicate a [] @ [[]]"
      using split_replicate [of "CHR ''/''" a "[]"] by simp
    moreover have "a = 0 \<or> a = 1 \<or> a = 2" using a by auto
    ultimately show ?thesis using True by (auto simp: Path path_str_def path_of_def anchor_of_def all_slashes Let_def)
  next
    case False
    then obtain c s where j: "join ''/'' ps = c # s" and "c \<noteq> CHR ''/''"
      using ps by (cases ps; cases "hd ps"; cases "tl ps") auto
    then have "anchor_of (replicate a (CHR ''/'') @ join ''/'' ps) = a"
      using small by (simp add: anchor_of_def slashes Let_def)
    moreover have "split_on (CHR ''/'') (join ''/'' ps) = ps" using False ps by (intro split_join) auto
    ultimately show ?thesis
      using False ps by (auto simp: Path path_str_def path_of_def split_replicate filter_id_conv)
  qed
qed

text \<open>What \<open>normpath\<close> returns for a rooted path has no double dots left.\<close>

lemma norm_parts_rooted: "''..'' \<notin> set acc \<Longrightarrow> ''..'' \<notin> set (norm_parts True acc cs)"
proof (induction cs arbitrary: acc)
  case (Cons c cs)
  have "acc \<noteq> [] \<Longrightarrow> last acc \<noteq> ''..''" using Cons.prems last_in_set by metis
  moreover have "''..'' \<notin> set (butlast acc)" using Cons.prems in_set_butlastD by fast
  ultimately show ?case using Cons by auto
qed simp

lemma norm_parts_subset: "set (norm_parts r acc cs) \<subseteq> set acc \<union> {c \<in> set cs. c \<noteq> [] \<and> c \<noteq> ''.''}"
proof (induction cs arbitrary: acc)
  case (Cons c cs)
  have "set (butlast acc) \<subseteq> set acc" using in_set_butlastD by fast
  then show ?case
    using Cons.IH [of acc] Cons.IH [of "acc @ [c]"] Cons.IH [of "butlast acc"] by auto
qed simp

lemma normpath_path:
  "path_of (normpath s) = Path (anchor_of s) (norm_parts (anchor_of s \<noteq> 0) [] (split_on (CHR ''/'') s))"
  unfolding normpath_def
proof (rule path_of_str)
  show "wf_path (Path (anchor_of s) (norm_parts (anchor_of s \<noteq> 0) [] (split_on (CHR ''/'') s)))"
    using norm_parts_subset [of "anchor_of s \<noteq> 0" "[]" "split_on (CHR ''/'') s"]
    by (auto simp: wf_path_def anchor_of_def Let_def dest: split_on_no_sep)
qed

lemma normpath_no_dotdot: "is_absolute (path_of (normpath s)) \<Longrightarrow> ''..'' \<notin> set (parts (path_of (normpath s)))"
  using norm_parts_rooted [of "[]"] by (simp add: normpath_path is_absolute_def)

end
