(* ===== verification/Config.thy ===== *)
theory Config imports Sizes Py_Path begin

text \<open>
  \<open>labgpu/spot/config.py\<close>: the controller's TOML configuration. \<open>from_dict\<close> works on the
  parsed document, whose values it does not check against the declared types; the records
  are the typed view of it that the rest of the controller works with. Time spans are
  Python floats, that is, rationals that are multiplied with rounding.
\<close>

record controller_config =
  poll_interval :: rat
  state_dir :: path
  kill_switch_file :: path

record idle_config =
  idle_minutes :: rat
  owner_util_threshold :: int
  owner_mem_delta_mib :: int
  owner_cpu_threshold :: rat
  unclaimed_grace_seconds :: rat

record reclaim_config =
  grace_seconds :: int
  mem_reserve_mib :: int

record spot_config =
  hook_path :: path
  allow_unenforced :: bool
  cpu_shares :: int
  default_ram :: int
  host_ram_reserve :: int
  allowed_mount_roots :: "path list"
  max_attempts :: int

record config =
  controller :: controller_config
  idle :: idle_config
  reclaim :: reclaim_config
  spot :: spot_config

definition idle_seconds :: "idle_config \<Rightarrow> rat" where
  "idle_seconds c = fmul (idle_minutes c) 60"

definition owner_mem_delta :: "idle_config \<Rightarrow> int" where
  "owner_mem_delta c = owner_mem_delta_mib c * MiB"

definition mem_reserve :: "reclaim_config \<Rightarrow> int" where
  "mem_reserve c = mem_reserve_mib c * MiB"

section \<open>Sections of the document\<close>

type_synonym section_dict = "(string, pyval) pydict"

text \<open>A \<open>Path\<close> stored in a section is its text.\<close>

definition default_controller :: section_dict where
  "default_controller = [(''poll_interval'', PFloat 5), (''state_dir'', PStr ''/var/lib/labgpu''),
     (''kill_switch_file'', PStr ''/etc/labgpu/spot.disabled'')]"

definition default_idle :: section_dict where
  "default_idle = [(''idle_minutes'', PFloat 30), (''owner_util_threshold'', PInt 5),
     (''owner_mem_delta_mib'', PInt 512), (''owner_cpu_threshold'', PFloat (1 / 2)),
     (''unclaimed_grace_seconds'', PFloat 60)]"

definition default_reclaim :: section_dict where
  "default_reclaim = [(''grace_seconds'', PInt 30), (''mem_reserve_mib'', PInt 2048)]"

definition default_spot :: section_dict where
  "default_spot = [(''hook_path'', PStr ''/opt/labgpu/lib/libvgpu.so''), (''allow_unenforced'', PBool False),
     (''cpu_shares'', PInt 64), (''default_ram'', PInt (16 * 2 ^ 30)), (''host_ram_reserve'', PInt (32 * 2 ^ 30)),
     (''allowed_mount_roots'', PList [PStr ''/vfroot'']), (''max_attempts'', PInt 20)]"

record raw_config =
  raw_controller :: section_dict
  raw_idle :: section_dict
  raw_reclaim :: section_dict
  raw_spot :: section_dict

text \<open>\<open>_build\<close>: unknown keys are refused, given ones replace the defaults of the dataclass.\<close>

definition build :: "string \<Rightarrow> section_dict \<Rightarrow> section_dict \<Rightarrow> section_dict result" where
  "build dc_name dflt values =
     (let unknown = filter (\<lambda>k. k \<notin> set (dict_keys dflt)) (dict_keys values)
      in if unknown \<noteq> [] then Inl (ValueError (''unknown keys for '' @ dc_name @ '': '' @
           repr_list repr_str (sort (remdups unknown))))
         else Inr (map (\<lambda>(k, d). (k, get_or d values k)) dflt))"

text \<open>The items of a value that a \<open>for\<close> loop or \<open>tuple\<close> runs over.\<close>

definition iter_items :: "pyval \<Rightarrow> pyval list result" where
  "iter_items v = (case v of
     PList xs \<Rightarrow> Inr xs
   | PStr s \<Rightarrow> Inr (map (\<lambda>c. PStr [c]) s)
   | PDict d \<Rightarrow> Inr (map (\<lambda>(k, _). PStr k) d)
   | _ \<Rightarrow> Inl (TypeError (repr_str (type_name v) @ '' object is not iterable'')))"

definition path_text :: "pyval \<Rightarrow> pyval result" where
  "path_text v = rmap (\<lambda>p. PStr (path_str p)) (to_path v)"

text \<open>\<open>if key in s: s[key] = f(s[key])\<close>.\<close>

definition convert_key :: "string \<Rightarrow> (pyval \<Rightarrow> pyval result) \<Rightarrow> section_dict \<Rightarrow> section_dict result" where
  "convert_key k f s = (case dict_get s k of None \<Rightarrow> Inr s | Some v \<Rightarrow> rmap (\<lambda>w. dict_set k w s) (f v))"

definition convert_spot :: "section_dict \<Rightarrow> section_dict result" where
  "convert_spot s =
     rbind (convert_key ''default_ram'' (\<lambda>v. rmap PInt (parse_size v)) s) (\<lambda>s.
     rbind (convert_key ''host_ram_reserve'' (\<lambda>v. rmap PInt (parse_size v)) s) (\<lambda>s.
     rbind (convert_key ''hook_path'' path_text s) (\<lambda>s.
     convert_key ''allowed_mount_roots''
       (\<lambda>v. rmap PList (rbind (iter_items v) (traverse path_text))) s)))"

definition convert_controller :: "section_dict \<Rightarrow> section_dict result" where
  "convert_controller c = traverse (\<lambda>(k, v). if k \<in> {''state_dir'', ''kill_switch_file''}
     then rmap (Pair k) (path_text v) else Inr (k, v)) c"

text \<open>A section as a table. A section that is another value fails in \<open>items\<close>, in \<open>set\<close> or in
  the keyword call; nothing catches these exceptions, so their classes are not told apart.
  Only \<open>spot\<close> goes through \<open>dict\<close>, which also takes a list of pairs.\<close>

definition section_of :: "section_dict \<Rightarrow> string \<Rightarrow> section_dict result" where
  "section_of raw name = (case get_or (PDict []) raw name of PDict d \<Rightarrow> Inr d
     | v \<Rightarrow> Inl (TypeError (repr_str (type_name v) @ '' object is not a mapping'')))"

definition pair_of :: "pyval \<Rightarrow> (string \<times> pyval) result" where
  "pair_of v = rbind (iter_items v) (\<lambda>xs. case xs of
     [PStr k, w] \<Rightarrow> Inr (k, w)
   | [_, _] \<Rightarrow> Inl (TypeError ''keywords must be strings'')
   | _ \<Rightarrow> Inl (ValueError (''dictionary update sequence element has length '' @ nat_str (length xs) @
         ''; 2 is required'')))"

definition spot_section :: "section_dict \<Rightarrow> section_dict result" where
  "spot_section raw = (case get_or (PDict []) raw ''spot'' of PDict d \<Rightarrow> Inr d
     | v \<Rightarrow> rbind (iter_items v) (\<lambda>xs. rmap dict_of (traverse pair_of xs)))"

definition from_dict :: "section_dict \<Rightarrow> raw_config result" where
  "from_dict raw =
     (let unknown = filter (\<lambda>k. k \<notin> {''controller'', ''idle'', ''reclaim'', ''spot''}) (dict_keys raw)
      in if unknown \<noteq> [] then Inl (ValueError (''unknown config sections: '' @
           repr_list repr_str (sort (remdups unknown))))
         else
           rbind (spot_section raw) (\<lambda>s. rbind (convert_spot s) (\<lambda>s.
           rbind (section_of raw ''controller'') (\<lambda>c. rbind (convert_controller c) (\<lambda>c.
           rbind (build ''ControllerConfig'' default_controller c) (\<lambda>c.
           rbind (section_of raw ''idle'') (\<lambda>i. rbind (build ''IdleConfig'' default_idle i) (\<lambda>i.
           rbind (section_of raw ''reclaim'') (\<lambda>r. rbind (build ''ReclaimConfig'' default_reclaim r) (\<lambda>r.
           rbind (build ''SpotConfig'' default_spot s) (\<lambda>s.
             Inr \<lparr>raw_controller = c, raw_idle = i, raw_reclaim = r, raw_spot = s\<rparr>)))))))))))"

text \<open>\<open>load\<close>: a missing file is an error unless it is the default one. \<open>doc\<close> is what
  \<open>tomllib\<close> reads, \<open>None\<close> when the file does not exist.\<close>

definition DEFAULT_CONFIG_PATH :: path where
  "DEFAULT_CONFIG_PATH = path_of ''/etc/labgpu/spot.toml''"

definition load_config :: "path option \<Rightarrow> section_dict result option \<Rightarrow> raw_config result" where
  "load_config path doc = (case (path, doc) of
     (None, _) \<Rightarrow> from_dict []
   | (Some p, None) \<Rightarrow> if p \<noteq> DEFAULT_CONFIG_PATH then Inl (FileNotFoundError (path_str p)) else from_dict []
   | (Some p, Some d) \<Rightarrow> rbind d from_dict)"

section \<open>The typed view\<close>

text \<open>Integers and booleans stand for the numbers Python computes with when they are given
  for a float; any other value of a wrong type has no typed view.\<close>

fun as_float :: "pyval \<Rightarrow> rat option" where
  "as_float (PFloat x) = Some x"
| "as_float (PInt i) = Some (of_int i)"
| "as_float (PBool b) = Some (if b then 1 else 0)"
| "as_float _ = None"

fun as_int :: "pyval \<Rightarrow> int option" where
  "as_int (PInt i) = Some i"
| "as_int (PBool b) = Some (if b then 1 else 0)"
| "as_int _ = None"

fun as_path :: "pyval \<Rightarrow> path option" where
  "as_path (PStr s) = Some (path_of s)"
| "as_path _ = None"

fun as_paths :: "pyval \<Rightarrow> path list option" where
  "as_paths (PList xs) = those (map as_path xs)"
| "as_paths _ = None"

definition field_of :: "section_dict \<Rightarrow> string \<Rightarrow> (pyval \<Rightarrow> 'a option) \<Rightarrow> 'a option" where
  "field_of d k f = Option.bind (dict_get d k) f"

definition view_controller :: "section_dict \<Rightarrow> controller_config option" where
  "view_controller d = (case (field_of d ''poll_interval'' as_float, field_of d ''state_dir'' as_path,
       field_of d ''kill_switch_file'' as_path) of
     (Some p, Some s, Some k) \<Rightarrow> Some \<lparr>poll_interval = p, state_dir = s, kill_switch_file = k\<rparr>
   | _ \<Rightarrow> None)"

definition view_idle :: "section_dict \<Rightarrow> idle_config option" where
  "view_idle d = (case (field_of d ''idle_minutes'' as_float, field_of d ''owner_util_threshold'' as_int,
       field_of d ''owner_mem_delta_mib'' as_int, field_of d ''owner_cpu_threshold'' as_float,
       field_of d ''unclaimed_grace_seconds'' as_float) of
     (Some m, Some u, Some g, Some c, Some s) \<Rightarrow> Some \<lparr>idle_minutes = m, owner_util_threshold = u,
       owner_mem_delta_mib = g, owner_cpu_threshold = c, unclaimed_grace_seconds = s\<rparr>
   | _ \<Rightarrow> None)"

definition view_reclaim :: "section_dict \<Rightarrow> reclaim_config option" where
  "view_reclaim d = (case (field_of d ''grace_seconds'' as_int, field_of d ''mem_reserve_mib'' as_int) of
     (Some g, Some m) \<Rightarrow> Some \<lparr>grace_seconds = g, mem_reserve_mib = m\<rparr> | _ \<Rightarrow> None)"

definition view_spot :: "section_dict \<Rightarrow> spot_config option" where
  "view_spot d = (case (field_of d ''hook_path'' as_path, dict_get d ''allow_unenforced'',
       field_of d ''cpu_shares'' as_int, field_of d ''default_ram'' as_int, field_of d ''host_ram_reserve'' as_int,
       field_of d ''allowed_mount_roots'' as_paths, field_of d ''max_attempts'' as_int) of
     (Some h, Some u, Some c, Some r, Some hr, Some ms, Some a) \<Rightarrow> Some \<lparr>hook_path = h,
       allow_unenforced = truthy u, cpu_shares = c, default_ram = r, host_ram_reserve = hr,
       allowed_mount_roots = ms, max_attempts = a\<rparr>
   | _ \<Rightarrow> None)"

definition view_config :: "raw_config \<Rightarrow> config option" where
  "view_config rc = (case (view_controller (raw_controller rc), view_idle (raw_idle rc),
       view_reclaim (raw_reclaim rc), view_spot (raw_spot rc)) of
     (Some c, Some i, Some r, Some s) \<Rightarrow> Some \<lparr>controller = c, idle = i, reclaim = r, spot = s\<rparr>
   | _ \<Rightarrow> None)"

end
