(* ===== verification/Model.thy ===== *)
theory Model imports Config begin

text \<open>
  \<open>labgpu/spot/model.py\<close>: the plain data the observer, detector, planner and controller
  exchange. Frozen sets are sets, tuples are lists, floats are rationals.
\<close>

datatype proc_kind = OWNER | SPOT | UNKNOWN_PROC

record classified_process =
  cp_pid :: int
  kind :: proc_kind
  container_id :: "string option"
  cp_used_memory :: int
  sm_util :: int

record gpu_observation =
  obs_uuid :: string
  obs_index :: int
  obs_ok :: bool
  total_memory :: int
  used_memory :: int
  processes :: "classified_process list"
  owner_containers :: "string set"
  owner_cpu_cores :: "rat option"
  obs_error :: "string option"
  obs_model :: string

text \<open>\<open>GpuObservation(uuid, index, ok=False, model=m, error=e)\<close>.\<close>

definition failed_observation :: "string \<Rightarrow> int \<Rightarrow> string \<Rightarrow> string \<Rightarrow> gpu_observation" where
  "failed_observation uuid index m e = \<lparr>obs_uuid = uuid, obs_index = index, obs_ok = False,
     total_memory = 0, used_memory = 0, processes = [], owner_containers = {},
     owner_cpu_cores = None, obs_error = Some e, obs_model = m\<rparr>"

definition free_memory :: "gpu_observation \<Rightarrow> int" where
  "free_memory o1 = total_memory o1 - used_memory o1"

definition owner_util :: "gpu_observation \<Rightarrow> int" where
  "owner_util o1 = sum_list (map sm_util (filter (\<lambda>p. kind p = OWNER) (processes o1)))"

definition owner_memory :: "gpu_observation \<Rightarrow> int" where
  "owner_memory o1 = sum_list (map cp_used_memory (filter (\<lambda>p. kind p = OWNER) (processes o1)))"

definition has_unknown :: "gpu_observation \<Rightarrow> bool" where
  "has_unknown o1 = list_ex (\<lambda>p. kind p = UNKNOWN_PROC) (processes o1)"

datatype gpu_state = BUSY | IDLE | LENDABLE | LENT | RECLAIMING | UNKNOWN

record gpu_verdict =
  v_uuid :: string
  v_state :: gpu_state
  lendable :: bool
  must_reclaim :: bool
  v_reasons :: "string list"
  lendable_memory :: int
  idle_for :: rat
  v_model :: string

record running_spot =
  rs_job_id :: int
  rs_gpu_uuid :: string
  rs_container :: string
  reclaiming :: bool

record queued_job =
  qj_job_id :: int
  qj_priority :: int
  qj_submitted_at :: rat
  qj_gpu_mem :: int
  qj_ram :: int
  qj_gpu_models :: "string list"

record launch =
  la_job_id :: int
  la_gpu_uuid :: string
  gpu_mem_limit :: int
  la_ram :: int

record reclaim_action =
  re_job_id :: int
  re_gpu_uuid :: string
  re_container :: string
  re_reasons :: "string list"

lemma owner_memory_nonneg: "(\<And>p. p \<in> set (processes o1) \<Longrightarrow> 0 \<le> cp_used_memory p) \<Longrightarrow> 0 \<le> owner_memory o1"
  unfolding owner_memory_def by (intro sum_list_nonneg) auto

lemma has_unknown_iff: "has_unknown o1 \<longleftrightarrow> (\<exists>p \<in> set (processes o1). kind p = UNKNOWN_PROC)"
  by (simp add: has_unknown_def list_ex_iff)

end
