(* ===== verification/Detector.thy ===== *)
theory Detector imports Model begin

text \<open>
  \<open>labgpu/spot/detector.py\<close>: the per-GPU state machine that turns observations into
  verdicts. A tracker remembers when the GPU was last active, the owners' memory baseline
  and the owner containers of the previous observation; the clock is an argument.
\<close>

record gpu_tracker =
  tr_uuid :: string
  last_active :: rat
  mem_baseline :: int
  prev_owners :: "string set"

definition new_tracker :: "gpu_observation \<Rightarrow> rat \<Rightarrow> gpu_tracker" where
  "new_tracker first now = \<lparr>tr_uuid = obs_uuid first, last_active = now,
     mem_baseline = (if obs_ok first then owner_memory first else 0),
     prev_owners = (if obs_ok first then owner_containers first else {})\<rparr>"

text \<open>The rules of \<open>_activity_reasons\<close>, one by one, each with the text it adds.\<close>

definition util_rule :: "gpu_observation \<Rightarrow> idle_config \<Rightarrow> bool" where
  "util_rule o1 c = (owner_util_threshold c < owner_util o1)"

definition mem_rule :: "int \<Rightarrow> gpu_observation \<Rightarrow> idle_config \<Rightarrow> bool" where
  "mem_rule baseline o1 c = (baseline + owner_mem_delta c < owner_memory o1)"

definition cpu_rule :: "gpu_observation \<Rightarrow> idle_config \<Rightarrow> bool" where
  "cpu_rule o1 c = (0 < owner_cpu_threshold c \<and>
     (case owner_cpu_cores o1 of None \<Rightarrow> False | Some v \<Rightarrow> owner_cpu_threshold c < v))"

definition new_owners :: "string set \<Rightarrow> gpu_observation \<Rightarrow> string set" where
  "new_owners prev o1 = owner_containers o1 - prev"

definition short_ids :: "string set \<Rightarrow> string list" where
  "short_ids cs = sort (map (take 12) (sorted_list_of_set cs))"

definition activity_reasons :: "gpu_tracker \<Rightarrow> gpu_observation \<Rightarrow> idle_config \<Rightarrow> string list" where
  "activity_reasons t o1 c =
     (if util_rule o1 c then [''owner SM util '' @ int_str (owner_util o1) @ ''% > '' @
        int_str (owner_util_threshold c) @ ''%''] else []) @
     (if mem_rule (mem_baseline t) o1 c then [''owner memory '' @ int_str (owner_memory o1 div 2 ^ 20) @
        ''MiB grew over baseline '' @ int_str (mem_baseline t div 2 ^ 20) @ ''MiB + '' @
        int_str (owner_mem_delta_mib c) @ ''MiB''] else []) @
     (if cpu_rule o1 c then [''owner CPU '' @ fixed 2 (the (owner_cpu_cores o1)) @ '' cores > '' @
        float_repr (owner_cpu_threshold c)] else []) @
     (if has_unknown o1 then [''unidentified GPU processes '' @
        repr_list int_str (map cp_pid (filter (\<lambda>p. kind p = UNKNOWN_PROC) (processes o1)))] else []) @
     (if new_owners (prev_owners t) o1 \<noteq> {} then [''new owner containers '' @
        repr_list repr_str (short_ids (new_owners (prev_owners t) o1))] else [])"

text \<open>\<open>if blocked\<close>: no text and the empty text are both false.\<close>

definition block_reasons :: "string option \<Rightarrow> string list" where
  "block_reasons blocked = (case blocked of None \<Rightarrow> [] | Some b \<Rightarrow> if b = [] then [] else [b])"

definition pressure_reasons :: "gpu_observation \<Rightarrow> reclaim_config \<Rightarrow> string list" where
  "pressure_reasons o1 rc = (if free_memory o1 < mem_reserve rc div 2
     then [''free memory '' @ int_str (free_memory o1 div 2 ^ 20) @ ''MiB < half of reserve '' @
           int_str (mem_reserve_mib rc) @ ''MiB''] else [])"

definition unknown_verdict :: "gpu_observation \<Rightarrow> bool \<Rightarrow> bool \<Rightarrow> gpu_verdict" where
  "unknown_verdict o1 lent recl = \<lparr>v_uuid = obs_uuid o1, v_state = UNKNOWN, lendable = False,
     must_reclaim = (lent \<and> \<not> recl),
     v_reasons = [''observation failed: '' @ (case obs_error o1 of None \<Rightarrow> ''None'' | Some e \<Rightarrow> e)],
     lendable_memory = 0, idle_for = 0, v_model = ''''\<rparr>"

definition known_verdict :: "gpu_observation \<Rightarrow> gpu_state \<Rightarrow> bool \<Rightarrow> bool \<Rightarrow> string list \<Rightarrow> int \<Rightarrow> rat \<Rightarrow> gpu_verdict" where
  "known_verdict o1 st lend must reasons mem for = \<lparr>v_uuid = obs_uuid o1, v_state = st, lendable = lend,
     must_reclaim = must, v_reasons = reasons, lendable_memory = mem, idle_for = for, v_model = ''''\<rparr>"

text \<open>What the tracker remembers after an observation.\<close>

definition track :: "gpu_tracker \<Rightarrow> gpu_observation \<Rightarrow> rat \<Rightarrow> idle_config \<Rightarrow> gpu_tracker" where
  "track t o1 now ic = (if \<not> obs_ok o1 then t\<lparr>last_active := now\<rparr>
     else if activity_reasons t o1 ic \<noteq> []
     then t\<lparr>last_active := now, mem_baseline := owner_memory o1, prev_owners := owner_containers o1\<rparr>
     else t\<lparr>mem_baseline := min (mem_baseline t) (owner_memory o1), prev_owners := owner_containers o1\<rparr>)"

definition wait_seconds :: "gpu_observation \<Rightarrow> idle_config \<Rightarrow> rat" where
  "wait_seconds o1 ic = (if owner_containers o1 \<noteq> {} then idle_seconds ic else unclaimed_grace_seconds ic)"

definition decide :: "gpu_tracker \<Rightarrow> gpu_observation \<Rightarrow> rat \<Rightarrow> idle_config \<Rightarrow> reclaim_config \<Rightarrow>
    bool \<Rightarrow> bool \<Rightarrow> string option \<Rightarrow> gpu_verdict \<times> gpu_tracker" where
  "decide t o1 now ic rc lent recl blocked =
     (let t' = track t o1 now ic in
      if \<not> obs_ok o1 then (unknown_verdict o1 lent recl, t')
      else
        (let activity = activity_reasons t o1 ic;
             idle_for = fsub now (last_active t');
             lendable_mem = max (free_memory o1 - mem_reserve rc) 0
         in if lent then
              (let reasons = activity @ pressure_reasons o1 rc @ block_reasons blocked;
                   must = (reasons \<noteq> [] \<and> \<not> recl);
                   st = (if recl \<or> must then RECLAIMING else LENT)
               in (known_verdict o1 st False must reasons 0 idle_for, t'))
            else if activity \<noteq> [] then (known_verdict o1 BUSY False False activity 0 idle_for, t')
            else if block_reasons blocked \<noteq> [] \<or> idle_for < wait_seconds o1 ic \<or> lendable_mem \<le> 0
            then (known_verdict o1 IDLE False False (block_reasons blocked) 0 idle_for, t')
            else (known_verdict o1 LENDABLE True False [] lendable_mem idle_for, t')))"

definition update :: "gpu_tracker \<Rightarrow> gpu_observation \<Rightarrow> rat \<Rightarrow> idle_config \<Rightarrow> reclaim_config \<Rightarrow>
    bool \<Rightarrow> bool \<Rightarrow> string option \<Rightarrow> gpu_verdict \<times> gpu_tracker" where
  "update t o1 now ic rc lent recl blocked =
     (let (v, t') = decide t o1 now ic rc lent recl blocked in (v\<lparr>v_model := obs_model o1\<rparr>, t'))"

section \<open>Single verdicts\<close>

lemma activity_Nil_iff: "activity_reasons t o1 c = [] \<longleftrightarrow>
    \<not> util_rule o1 c \<and> \<not> mem_rule (mem_baseline t) o1 c \<and> \<not> cpu_rule o1 c \<and> \<not> has_unknown o1 \<and>
    new_owners (prev_owners t) o1 = {}"
  by (simp add: activity_reasons_def)

lemma pressure_Nil_iff: "pressure_reasons o1 rc = [] \<longleftrightarrow> mem_reserve rc div 2 \<le> free_memory o1"
  by (auto simp: pressure_reasons_def)

lemma block_Nil_iff: "block_reasons b = [] \<longleftrightarrow> b \<in> {None, Some []}"
  by (simp add: block_reasons_def split: option.splits)

lemma update_tracker [simp]: "snd (update t o1 now ic rc lent recl blocked) = track t o1 now ic"
  by (simp add: update_def decide_def Let_def case_prod_unfold)

lemmas verdict_defs = update_def decide_def unknown_verdict_def known_verdict_def Let_def case_prod_unfold

lemma update_uuid: "v_uuid (fst (update t o1 now ic rc lent recl blocked)) = obs_uuid o1"
  "v_model (fst (update t o1 now ic rc lent recl blocked)) = obs_model o1"
  by (simp_all add: verdict_defs)

lemma update_lendable: "lendable (fst (update t o1 now ic rc lent recl blocked)) \<longleftrightarrow>
    obs_ok o1 \<and> \<not> lent \<and> activity_reasons t o1 ic = [] \<and> block_reasons blocked = [] \<and>
    wait_seconds o1 ic \<le> fsub now (last_active t) \<and> mem_reserve rc < free_memory o1"
  by (auto simp: verdict_defs track_def)

lemma update_must_reclaim: "must_reclaim (fst (update t o1 now ic rc lent recl blocked)) \<longleftrightarrow>
    lent \<and> \<not> recl \<and> (\<not> obs_ok o1 \<or> activity_reasons t o1 ic \<noteq> [] \<or> pressure_reasons o1 rc \<noteq> [] \<or>
      block_reasons blocked \<noteq> [])"
  by (auto simp: verdict_defs)

lemma update_lendable_memory: "lendable_memory (fst (update t o1 now ic rc lent recl blocked)) =
    (if lendable (fst (update t o1 now ic rc lent recl blocked)) then free_memory o1 - mem_reserve rc else 0)"
  by (auto simp: verdict_defs)

lemma update_lent_state: "v_state (fst (update t o1 now ic rc True recl b)) \<noteq> LENT \<Longrightarrow>
    recl \<or> must_reclaim (fst (update t o1 now ic rc True recl b))"
  by (auto simp: verdict_defs split: if_splits)

lemma update_lendable_state: "lendable (fst (update t o1 now ic rc lent recl b)) \<Longrightarrow>
    v_state (fst (update t o1 now ic rc lent recl b)) = LENDABLE"
  by (auto simp: verdict_defs split: if_splits)

lemma update_blocked_state: "\<not> obs_ok o1 \<or> b = Some s \<and> s \<noteq> [] \<Longrightarrow>
    v_state (fst (update t o1 now ic rc lent recl b)) \<notin> {LENT, LENDABLE}"
  by (auto simp: verdict_defs block_reasons_def split: if_splits)

text \<open>A verdict lends or reclaims, never both.\<close>

lemma update_exclusive: "\<not> (lendable (fst (update t o1 now ic rc lent recl b)) \<and>
    must_reclaim (fst (update t o1 now ic rc lent recl b)))"
  by (simp add: update_lendable update_must_reclaim)

text \<open>A GPU of 96 GiB that nobody uses, and the default configuration.\<close>

definition unused_gpu :: gpu_observation where
  "unused_gpu = \<lparr>obs_uuid = ''GPU-a'', obs_index = 0, obs_ok = True, total_memory = 96 * GiB, used_memory = 0,
     processes = [], owner_containers = {}, owner_cpu_cores = None, obs_error = None, obs_model = ''NVIDIA''\<rparr>"

definition idle_defaults :: idle_config where
  "idle_defaults = \<lparr>idle_minutes = 30, owner_util_threshold = 5, owner_mem_delta_mib = 512,
     owner_cpu_threshold = 1 / 2, unclaimed_grace_seconds = 60\<rparr>"

definition reclaim_defaults :: reclaim_config where
  "reclaim_defaults = \<lparr>grace_seconds = 30, mem_reserve_mib = 2048\<rparr>"

lemma fsub_numerals: "numeral k - numeral n = (numeral m :: rat) \<Longrightarrow> numeral m \<le> (2 ^ 53 :: int) \<Longrightarrow>
    fsub (numeral k) (numeral n) = numeral m"
  by (simp add: fsub_def fl_numeral)

lemma unused_gpu_quiet [simp]: "activity_reasons t unused_gpu idle_defaults = [] \<longleftrightarrow> 0 \<le> mem_baseline t + 512 * 2 ^ 20"
  by (auto simp: activity_Nil_iff unused_gpu_def idle_defaults_def util_rule_def mem_rule_def cpu_rule_def
      has_unknown_def new_owners_def owner_util_def owner_memory_def owner_mem_delta_def MiB_def)

lemma unused_gpu_fields [simp]: "obs_ok unused_gpu" "owner_containers unused_gpu = {}" "owner_memory unused_gpu = 0"
  "free_memory unused_gpu = 96 * GiB" "wait_seconds unused_gpu idle_defaults = 60" "obs_uuid unused_gpu = ''GPU-a''"
  by (simp_all add: unused_gpu_def owner_memory_def free_memory_def wait_seconds_def idle_defaults_def)

lemma reserve_default [simp]: "mem_reserve reclaim_defaults = 2 * GiB"
  by (simp add: mem_reserve_def reclaim_defaults_def MiB_def GiB_def)

text \<open>C16: what a verdict says. A GPU is offered exactly when the observation succeeded, no
  spot job is on it, none of the five activity rules fires, nothing blocks it, the idle
  window has passed since the last activity and more memory is free than the reserve, and
  then all the free memory but the reserve is offered. A lent GPU is to be reclaimed
  exactly when it is not being reclaimed already and the observation failed, a rule fires,
  less than half the reserve is free, or it is blocked.\<close>

theorem verdict_characterization:
  "(let v = fst (update t o1 now ic rc lent recl blocked);
        rule = (util_rule o1 ic \<or> mem_rule (mem_baseline t) o1 ic \<or> cpu_rule o1 ic \<or> has_unknown o1 \<or>
          \<not> owner_containers o1 \<subseteq> prev_owners t);
        block = (\<exists>b. blocked = Some b \<and> b \<noteq> [])
    in (lendable v \<longleftrightarrow> obs_ok o1 \<and> \<not> lent \<and> \<not> rule \<and> \<not> block \<and>
          (if owner_containers o1 = {} then unclaimed_grace_seconds ic else idle_seconds ic)
            \<le> fsub now (last_active t) \<and> mem_reserve rc < free_memory o1) \<and>
       (must_reclaim v \<longleftrightarrow> lent \<and> \<not> recl \<and>
          (\<not> obs_ok o1 \<or> rule \<or> block \<or> free_memory o1 < mem_reserve rc div 2)) \<and>
       lendable_memory v = (if lendable v then free_memory o1 - mem_reserve rc else 0) \<and>
       (\<not> obs_ok o1 \<longleftrightarrow> v_state v = UNKNOWN) \<and> (lendable v \<longleftrightarrow> v_state v = LENDABLE))"
proof -
  let ?v = "fst (update t o1 now ic rc lent recl blocked)"
  have states: "\<not> obs_ok o1 \<longleftrightarrow> v_state ?v = UNKNOWN" "lendable ?v \<longleftrightarrow> v_state ?v = LENDABLE"
    by (simp_all add: verdict_defs)
  have block: "block_reasons blocked = [] \<longleftrightarrow> \<not> (\<exists>b. blocked = Some b \<and> b \<noteq> [])"
    by (cases blocked) (auto simp: block_Nil_iff)
  show ?thesis
    unfolding Let_def states(1) [symmetric] states(2) [symmetric] update_lendable update_must_reclaim
      activity_Nil_iff pressure_Nil_iff block new_owners_def wait_seconds_def
      update_lendable_memory
    by (auto simp: not_le)
qed

theorem verdict_characterization_witness:
  "must_reclaim (fst (update (new_tracker unused_gpu 10) (unused_gpu\<lparr>obs_ok := False\<rparr>) 20 idle_defaults
     reclaim_defaults True False None)) \<and>
   lendable (fst (update (new_tracker unused_gpu 10) unused_gpu 80 idle_defaults reclaim_defaults False False None))"
proof -
  have f: "fsub 80 10 = 70" by (rule fsub_numerals) simp_all
  have "lendable (fst (update (new_tracker unused_gpu 10) unused_gpu 80 idle_defaults reclaim_defaults False False None))"
    by (simp add: update_lendable new_tracker_def block_reasons_def f GiB_def)
  then show ?thesis
    using verdict_characterization [of "new_tracker unused_gpu 10" "unused_gpu\<lparr>obs_ok := False\<rparr>" 20 idle_defaults
        reclaim_defaults True False None] by (simp add: Let_def)
qed

section \<open>Histories of one GPU\<close>

record tick_input =
  ti_obs :: gpu_observation
  ti_time :: rat
  ti_lent :: bool
  ti_reclaiming :: bool
  ti_blocked :: "string option"

definition tracker_step :: "idle_config \<Rightarrow> reclaim_config \<Rightarrow> tick_input \<Rightarrow> gpu_tracker \<Rightarrow> gpu_tracker" where
  "tracker_step ic rc k t = snd (update t (ti_obs k) (ti_time k) ic rc (ti_lent k) (ti_reclaiming k) (ti_blocked k))"

definition quiet_obs :: "idle_config \<Rightarrow> gpu_observation \<Rightarrow> bool" where
  "quiet_obs ic o1 = (obs_ok o1 \<and> \<not> util_rule o1 ic \<and> \<not> cpu_rule o1 ic \<and> \<not> has_unknown o1)"

text \<open>What a tracker knows of the observations \<open>ks\<close> it has seen since \<open>t0\<close>: those after
  \<open>last_active\<close> were quiet, none had more owner memory than any earlier one plus the
  delta, none had an owner the earlier ones lacked; and its baseline and owners bound the
  next observation likewise.\<close>

definition history_inv :: "idle_config \<Rightarrow> rat \<Rightarrow> tick_input list \<Rightarrow> gpu_tracker \<Rightarrow> bool" where
  "history_inv ic t0 ks t = (t0 \<le> last_active t \<and>
     (\<forall>i < length ks. last_active t < ti_time (ks ! i) \<longrightarrow>
        quiet_obs ic (ti_obs (ks ! i)) \<and> mem_baseline t \<le> owner_memory (ti_obs (ks ! i)) \<and>
        prev_owners t \<subseteq> owner_containers (ti_obs (ks ! i)) \<and>
        (\<forall>j < i. last_active t < ti_time (ks ! j) \<longrightarrow>
           owner_memory (ti_obs (ks ! i)) \<le> owner_memory (ti_obs (ks ! j)) + owner_mem_delta ic \<and>
           owner_containers (ti_obs (ks ! i)) \<subseteq> owner_containers (ti_obs (ks ! j)))))"

lemma history_inv_start: "history_inv ic t0 [] (new_tracker first t0)"
  by (simp add: history_inv_def new_tracker_def)

lemma history_inv_step:
  assumes inv: "history_inv ic t0 ks t"
    and times: "t0 \<le> ti_time k" "\<And>i. i < length ks \<Longrightarrow> ti_time (ks ! i) \<le> ti_time k"
  shows "history_inv ic t0 (ks @ [k]) (tracker_step ic rc k t)"
proof -
  let ?o = "ti_obs k" and ?t = "tracker_step ic rc k t"
  have t': "?t = track t ?o (ti_time k) ic" by (simp add: tracker_step_def)
  show ?thesis
  proof (cases "obs_ok ?o \<and> activity_reasons t ?o ic = []")
    case False
    then have "last_active ?t = ti_time k" by (auto simp: t' track_def)
    moreover have "ti_time ((ks @ [k]) ! i) \<le> ti_time k" if "i < length (ks @ [k])" for i
      using that times(2) by (cases "i < length ks") (auto simp: nth_append)
    ultimately show ?thesis using times(1) by (simp add: history_inv_def leD)
  next
    case True
    then have la: "last_active ?t = last_active t" and mb: "mem_baseline ?t = min (mem_baseline t) (owner_memory ?o)"
      and po: "prev_owners ?t = owner_containers ?o" by (simp_all add: t' track_def)
    from True have q: "quiet_obs ic ?o" "owner_memory ?o \<le> mem_baseline t + owner_mem_delta ic"
      "owner_containers ?o \<subseteq> prev_owners t"
      by (auto simp: activity_Nil_iff quiet_obs_def mem_rule_def new_owners_def)
    show ?thesis
      unfolding history_inv_def la mb po
    proof (intro conjI allI impI)
      show "t0 \<le> last_active t" using inv by (simp add: history_inv_def)
    next
      fix i assume i: "i < length (ks @ [k])" "last_active t < ti_time ((ks @ [k]) ! i)"
      consider "i < length ks" | "i = length ks" using i(1) by fastforce
      then have "quiet_obs ic (ti_obs ((ks @ [k]) ! i)) \<and>
          min (mem_baseline t) (owner_memory ?o) \<le> owner_memory (ti_obs ((ks @ [k]) ! i)) \<and>
          owner_containers ?o \<subseteq> owner_containers (ti_obs ((ks @ [k]) ! i)) \<and>
          (\<forall>j < i. last_active t < ti_time ((ks @ [k]) ! j) \<longrightarrow>
             owner_memory (ti_obs ((ks @ [k]) ! i)) \<le> owner_memory (ti_obs ((ks @ [k]) ! j)) + owner_mem_delta ic \<and>
             owner_containers (ti_obs ((ks @ [k]) ! i)) \<subseteq> owner_containers (ti_obs ((ks @ [k]) ! j)))"
      proof cases
        case 1
        then show ?thesis using inv i(2) q(3) by (fastforce simp: history_inv_def nth_append)
      next
        case 2
        then show ?thesis using inv q by (fastforce simp: history_inv_def nth_append)
      qed
      then show "quiet_obs ic (ti_obs ((ks @ [k]) ! i))"
        "min (mem_baseline t) (owner_memory ?o) \<le> owner_memory (ti_obs ((ks @ [k]) ! i))"
        "owner_containers ?o \<subseteq> owner_containers (ti_obs ((ks @ [k]) ! i))"
        "\<And>j. j < i \<Longrightarrow> last_active t < ti_time ((ks @ [k]) ! j) \<Longrightarrow>
           owner_memory (ti_obs ((ks @ [k]) ! i)) \<le> owner_memory (ti_obs ((ks @ [k]) ! j)) + owner_mem_delta ic"
        "\<And>j. j < i \<Longrightarrow> last_active t < ti_time ((ks @ [k]) ! j) \<Longrightarrow>
           owner_containers (ti_obs ((ks @ [k]) ! i)) \<subseteq> owner_containers (ti_obs ((ks @ [k]) ! j))"
        by blast+
    qed
  qed
qed

lemma history_inv_run:
  assumes "sorted (t0 # map ti_time ks)"
  shows "history_inv ic t0 ks (fold (tracker_step ic rc) ks (new_tracker first t0))"
  using assms
proof (induction ks rule: rev_induct)
  case (snoc k ks)
  from snoc.prems have s: "sorted (t0 # map ti_time ks)" "t0 \<le> ti_time k" "\<forall>x \<in> set ks. ti_time x \<le> ti_time k"
    by (auto simp: sorted_append)
  from history_inv_step [OF snoc.IH [OF s(1)] s(2)] s(3) show ?case by simp
qed (simp add: history_inv_start)

text \<open>What such knowledge means for a GPU that is found lendable.\<close>

lemma quiet_window:
  assumes inv: "history_inv ic t0 ks t" and "lendable (fst (update t o1 now ic rc lent recl blocked))"
  shows "wait_seconds o1 ic \<le> fsub now t0 \<and>
    (\<forall>i < length ks. fsub now (ti_time (ks ! i)) < wait_seconds o1 ic \<longrightarrow>
       quiet_obs ic (ti_obs (ks ! i)) \<and>
       (\<forall>j < i. fsub now (ti_time (ks ! j)) < wait_seconds o1 ic \<longrightarrow>
          owner_memory (ti_obs (ks ! i)) \<le> owner_memory (ti_obs (ks ! j)) + owner_mem_delta ic \<and>
          owner_containers (ti_obs (ks ! i)) \<subseteq> owner_containers (ti_obs (ks ! j))))"
proof -
  have w: "wait_seconds o1 ic \<le> fsub now (last_active t)" using assms(2) by (simp add: update_lendable)
  have anti: "a \<le> b \<Longrightarrow> fsub now b \<le> fsub now a" for a b
    unfolding fsub_def by (intro flt.rnd_mono) simp
  have late: "last_active t < a" if "fsub now a < wait_seconds o1 ic" for a
    using anti [of a "last_active t"] w that by fastforce
  have "wait_seconds o1 ic \<le> fsub now t0"
    using anti [of t0 "last_active t"] inv w by (simp add: history_inv_def)
  then show ?thesis using inv late unfolding history_inv_def by blast
qed

text \<open>C15: a GPU is only offered after a whole idle window without any sign of its owners.
  Take a tracker created at \<open>t0\<close>, any later observations \<open>ks\<close> in clock order, and an
  observation at \<open>now\<close> that is found lendable. Then the tracker is at least a window old;
  every observation within the window before \<open>now\<close> succeeded and showed owner utilisation
  and CPU at most at their thresholds and no unidentified process; and between any two of
  them neither did the owners' memory rise by more than the delta nor did an owner
  container appear.\<close>

theorem lendable_after_quiet_window:
  assumes "sorted (t0 # map ti_time ks @ [now])"
    and "lendable (fst (update (fold (tracker_step ic rc) ks (new_tracker first t0)) o1 now ic rc lent recl blocked))"
  shows "wait_seconds o1 ic \<le> fsub now t0 \<and>
    (\<forall>i < length ks. fsub now (ti_time (ks ! i)) < wait_seconds o1 ic \<longrightarrow>
       quiet_obs ic (ti_obs (ks ! i)) \<and>
       (\<forall>j < i. fsub now (ti_time (ks ! j)) < wait_seconds o1 ic \<longrightarrow>
          owner_memory (ti_obs (ks ! i)) \<le> owner_memory (ti_obs (ks ! j)) + owner_mem_delta ic \<and>
          owner_containers (ti_obs (ks ! i)) \<subseteq> owner_containers (ti_obs (ks ! j))))"
proof (rule quiet_window [OF history_inv_run assms(2)])
  show "sorted (t0 # map ti_time ks)" using assms(1) by (auto simp: sorted_append)
qed

theorem lendable_after_quiet_window_witness:
  "lendable (fst (update (fold (tracker_step idle_defaults reclaim_defaults)
     [\<lparr>ti_obs = unused_gpu, ti_time = 50, ti_lent = False, ti_reclaiming = False, ti_blocked = None\<rparr>]
     (new_tracker unused_gpu 10)) unused_gpu 80 idle_defaults reclaim_defaults False False None)) \<and>
   quiet_obs idle_defaults unused_gpu"
proof -
  let ?k = "\<lparr>ti_obs = unused_gpu, ti_time = 50, ti_lent = False, ti_reclaiming = False, ti_blocked = None\<rparr> :: tick_input"
  let ?t = "fold (tracker_step idle_defaults reclaim_defaults) [?k] (new_tracker unused_gpu 10)"
  have f: "fsub 80 10 = 70" "fsub 80 50 = 30" by (rule fsub_numerals; simp)+
  have l: "lendable (fst (update ?t unused_gpu 80 idle_defaults reclaim_defaults False False None))"
    by (simp add: update_lendable new_tracker_def track_def tracker_step_def block_reasons_def f GiB_def)
  from lendable_after_quiet_window [OF _ l] have "quiet_obs idle_defaults unused_gpu"
    by (auto simp: f)
  with l show ?thesis by blast
qed

end
