(* ===== verification/Planner.thy ===== *)
theory Planner imports Model Selection begin

text \<open>
  \<open>labgpu/spot/planner.py\<close>: from the verdicts, the spots that hold GPUs and the queue to the
  reclaims and launches of a tick. Verdicts are a dictionary by GPU UUID.
\<close>

definition DEFAULT_JOB_GPU_MEM :: int where
  "DEFAULT_JOB_GPU_MEM = 1 * GiB"

type_synonym verdicts = "(string, gpu_verdict) pydict"

record plan_result =
  reclaims :: "reclaim_action list"
  launches :: "launch list"

definition reclaim_for :: "running_spot \<Rightarrow> string list \<Rightarrow> reclaim_action" where
  "reclaim_for s reasons = \<lparr>re_job_id = rs_job_id s, re_gpu_uuid = rs_gpu_uuid s,
     re_container = rs_container s, re_reasons = reasons\<rparr>"

definition reclaim_of :: "verdicts \<Rightarrow> running_spot \<Rightarrow> reclaim_action list" where
  "reclaim_of vs s = (if reclaiming s then []
     else case dict_get vs (rs_gpu_uuid s) of
       None \<Rightarrow> [reclaim_for s [''GPU vanished'']]
     | Some v \<Rightarrow> if must_reclaim v then [reclaim_for s (v_reasons v)] else [])"

definition need_gpu :: "queued_job \<Rightarrow> int" where
  "need_gpu j = (if qj_gpu_mem j = 0 then DEFAULT_JOB_GPU_MEM else qj_gpu_mem j)"

text \<open>Whether the inner loop takes the job for the GPU of verdict \<open>v\<close>.\<close>

definition fits :: "gpu_verdict \<Rightarrow> int set \<Rightarrow> int \<Rightarrow> queued_job \<Rightarrow> bool" where
  "fits v taken budget j = (qj_job_id j \<notin> taken \<and>
     \<not> (lendable_memory v < need_gpu j \<or> budget < qj_ram j) \<and>
     (qj_gpu_models j = [] \<or> model_matches (v_model v) (qj_gpu_models j)))"

definition launch_of :: "string \<Rightarrow> gpu_verdict \<Rightarrow> queued_job \<Rightarrow> launch" where
  "launch_of uuid v j = \<lparr>la_job_id = qj_job_id j, la_gpu_uuid = uuid, gpu_mem_limit = lendable_memory v, la_ram = qj_ram j\<rparr>"

text \<open>The loop over the GPUs, with the jobs taken and the memory budget left.\<close>

fun assign :: "verdicts \<Rightarrow> string set \<Rightarrow> queued_job list \<Rightarrow> string list \<Rightarrow> int set \<Rightarrow> int \<Rightarrow> launch list" where
  "assign vs occupied ordered [] taken budget = []"
| "assign vs occupied ordered (u # us) taken budget = (case dict_get vs u of
     None \<Rightarrow> assign vs occupied ordered us taken budget
   | Some v \<Rightarrow>
       if \<not> lendable v \<or> u \<in> occupied then assign vs occupied ordered us taken budget
       else (case find (fits v taken budget) ordered of
               None \<Rightarrow> assign vs occupied ordered us taken budget
             | Some j \<Rightarrow> launch_of u v j #
                 assign vs occupied ordered us (insert (qj_job_id j) taken) (budget - qj_ram j)))"

definition queue_key :: "queued_job \<Rightarrow> int \<times> rat \<times> int" where
  "queue_key j = (- qj_priority j, qj_submitted_at j, qj_job_id j)"

definition plan :: "verdicts \<Rightarrow> running_spot list \<Rightarrow> queued_job list \<Rightarrow> int \<Rightarrow> bool \<Rightarrow> plan_result" where
  "plan vs running queue ram_budget enforced =
     \<lparr>reclaims = concat (map (reclaim_of vs) running),
      launches = (if \<not> enforced then []
        else assign vs (rs_gpu_uuid ` set running) (sort_key queue_key queue)
               (sort (dict_keys vs)) {} ram_budget)\<rparr>"

section \<open>The assignment loop\<close>

text \<open>Whether a GPU's verdict allows a job, the host memory aside.\<close>

definition suits :: "gpu_verdict \<Rightarrow> queued_job \<Rightarrow> bool" where
  "suits v j = (need_gpu j \<le> lendable_memory v \<and> (qj_gpu_models j = [] \<or> model_matches (v_model v) (qj_gpu_models j)))"

lemma fits_iff: "fits v taken budget j \<longleftrightarrow> qj_job_id j \<notin> taken \<and> suits v j \<and> qj_ram j \<le> budget"
  by (auto simp: fits_def suits_def not_less)

definition free_gpu :: "verdicts \<Rightarrow> string set \<Rightarrow> string \<Rightarrow> gpu_verdict \<Rightarrow> bool" where
  "free_gpu vs occ u v = (dict_get vs u = Some v \<and> lendable v \<and> u \<notin> occ)"

lemma assign_skip: "\<nexists>v. free_gpu vs occ u v \<Longrightarrow> assign vs occ js (u # us) tk b = assign vs occ js us tk b"
  by (auto simp: free_gpu_def split: option.splits)

lemma assign_free: "free_gpu vs occ u v \<Longrightarrow> assign vs occ js (u # us) tk b = (case find (fits v tk b) js of
    None \<Rightarrow> assign vs occ js us tk b
  | Some j \<Rightarrow> launch_of u v j # assign vs occ js us (insert (qj_job_id j) tk) (b - qj_ram j))"
  by (simp add: free_gpu_def)

text \<open>The induction over the GPUs, with its three cases named.\<close>

lemma assign_induct [case_names Nil Skip NoFit Fit]:
  assumes "\<And>tk b. P [] tk b []"
    and "\<And>u us tk b. \<nexists>v. free_gpu vs occ u v \<Longrightarrow> P us tk b (assign vs occ js us tk b) \<Longrightarrow>
      P (u # us) tk b (assign vs occ js us tk b)"
    and "\<And>u us tk b v. free_gpu vs occ u v \<Longrightarrow> \<forall>j \<in> set js. \<not> fits v tk b j \<Longrightarrow>
      P us tk b (assign vs occ js us tk b) \<Longrightarrow> P (u # us) tk b (assign vs occ js us tk b)"
    and "\<And>u us tk b v j ps qs. free_gpu vs occ u v \<Longrightarrow> js = ps @ j # qs \<Longrightarrow> \<forall>i \<in> set ps. \<not> fits v tk b i \<Longrightarrow>
      fits v tk b j \<Longrightarrow>
      P us (insert (qj_job_id j) tk) (b - qj_ram j) (assign vs occ js us (insert (qj_job_id j) tk) (b - qj_ram j)) \<Longrightarrow>
      P (u # us) tk b (launch_of u v j # assign vs occ js us (insert (qj_job_id j) tk) (b - qj_ram j))"
  shows "P us tk b (assign vs occ js us tk b)"
proof (induction us arbitrary: tk b)
  case (Cons u us)
  show ?case
  proof (cases "\<exists>v. free_gpu vs occ u v")
    case False
    then show ?thesis using assms(2) [OF _ Cons.IH] by (simp only: assign_skip not_False_eq_True)
  next
    case True
    then obtain v where v: "free_gpu vs occ u v" by blast
    show ?thesis
    proof (cases "find (fits v tk b) js")
      case None
      then have "P (u # us) tk b (assign vs occ js us tk b)"
        by (intro assms(3) [OF v _ Cons.IH]) (simp add: find_None_all)
      with None show ?thesis by (simp add: assign_free [OF v] del: assign.simps)
    next
      case (Some j)
      then obtain n where n: "n < length js" "j = js ! n" "fits v tk b j" "\<forall>m < n. \<not> fits v tk b (js ! m)"
        by (auto simp: find_Some_iff)
      have split: "js = take n js @ j # drop (Suc n) js" using n(1,2) by (simp add: id_take_nth_drop)
      have before: "\<forall>i \<in> set (take n js). \<not> fits v tk b i" using n(4) by (auto simp: in_set_conv_nth)
      show ?thesis
        unfolding assign_free [OF v] Some option.case
        by (rule assms(4) [OF v split before n(3) Cons.IH])
    qed
  qed
qed (simp add: assms(1))

lemma launch_of_fields [simp]: "la_job_id (launch_of u v j) = qj_job_id j" "la_gpu_uuid (launch_of u v j) = u"
  "gpu_mem_limit (launch_of u v j) = lendable_memory v" "la_ram (launch_of u v j) = qj_ram j"
  by (simp_all add: launch_of_def)

lemma assign_gpus: "distinct us \<Longrightarrow>
    distinct (map la_gpu_uuid (assign vs occ js us tk b)) \<and> la_gpu_uuid ` set (assign vs occ js us tk b) \<subseteq> set us"
  by (rule assign_induct [where P = "\<lambda>us tk b ls. distinct us \<longrightarrow>
    distinct (map la_gpu_uuid ls) \<and> la_gpu_uuid ` set ls \<subseteq> set us", THEN mp]) auto

lemma assign_jobs: "distinct (map la_job_id (assign vs occ js us tk b)) \<and>
    la_job_id ` set (assign vs occ js us tk b) \<inter> tk = {}"
  by (rule assign_induct [where P = "\<lambda>us tk b ls. distinct (map la_job_id ls) \<and> la_job_id ` set ls \<inter> tk = {}"])
    (auto simp: fits_iff)

lemma assign_sound: "\<forall>l \<in> set (assign vs occ js us tk b).
    \<exists>v j. free_gpu vs occ (la_gpu_uuid l) v \<and> j \<in> set js \<and> suits v j \<and> l = launch_of (la_gpu_uuid l) v j"
proof (rule assign_induct [where P = "\<lambda>us tk b ls. \<forall>l \<in> set ls.
    \<exists>v j. free_gpu vs occ (la_gpu_uuid l) v \<and> j \<in> set js \<and> suits v j \<and> l = launch_of (la_gpu_uuid l) v j"])
  fix u us tk b v j ps qs
  assume f: "free_gpu vs occ u v" "js = ps @ j # qs" "fits v tk b j"
  have "\<exists>v' j'. free_gpu vs occ u v' \<and> j' \<in> set js \<and> suits v' j' \<and> launch_of u v j = launch_of u v' j'"
    using f by (intro exI [of _ v] exI [of _ j]) (simp add: fits_iff)
  moreover assume "\<forall>l \<in> set (assign vs occ js us (insert (qj_job_id j) tk) (b - qj_ram j)).
    \<exists>v j. free_gpu vs occ (la_gpu_uuid l) v \<and> j \<in> set js \<and> suits v j \<and> l = launch_of (la_gpu_uuid l) v j"
  ultimately show "\<forall>l \<in> set (launch_of u v j # assign vs occ js us (insert (qj_job_id j) tk) (b - qj_ram j)).
    \<exists>v j. free_gpu vs occ (la_gpu_uuid l) v \<and> j \<in> set js \<and> suits v j \<and> l = launch_of (la_gpu_uuid l) v j"
    by simp
qed simp_all

lemma assign_budget: "assign vs occ js us tk b \<noteq> [] \<longrightarrow> sum_list (map la_ram (assign vs occ js us tk b)) \<le> b"
  by (rule assign_induct [where P = "\<lambda>us tk b ls. ls \<noteq> [] \<longrightarrow> sum_list (map la_ram ls) \<le> b"])
    (auto simp: fits_iff)

text \<open>No job is overtaken by one that stands behind it in the list, unless it is launched on
  an earlier GPU, does not suit this one, or needs more memory than is left.\<close>

definition no_overtaking :: "verdicts \<Rightarrow> queued_job list \<Rightarrow> int set \<Rightarrow> int \<Rightarrow> launch list \<Rightarrow> bool" where
  "no_overtaking vs js tk b ls = (\<forall>xs l ys. ls = xs @ l # ys \<longrightarrow>
     (\<exists>ps j qs v. js = ps @ j # qs \<and> dict_get vs (la_gpu_uuid l) = Some v \<and> l = launch_of (la_gpu_uuid l) v j \<and>
       (\<forall>i \<in> set ps. qj_job_id i \<in> tk \<union> la_job_id ` set xs \<or> \<not> suits v i \<or>
          b - sum_list (map la_ram xs) < qj_ram i)))"

lemma assign_order: "no_overtaking vs js tk b (assign vs occ js us tk b)"
proof (rule assign_induct [where P = "\<lambda>us tk b ls. no_overtaking vs js tk b ls"])
  fix u us tk b v j ps qs
  assume f: "free_gpu vs occ u v" "js = ps @ j # qs" "\<forall>i \<in> set ps. \<not> fits v tk b i" "fits v tk b j"
  let ?tk = "insert (qj_job_id j) tk" and ?b = "b - qj_ram j"
  assume ih: "no_overtaking vs js ?tk ?b (assign vs occ js us ?tk ?b)"
  show "no_overtaking vs js tk b (launch_of u v j # assign vs occ js us ?tk ?b)"
    unfolding no_overtaking_def
  proof (intro allI impI)
    fix xs l ys assume eq: "launch_of u v j # assign vs occ js us ?tk ?b = xs @ l # ys"
    show "\<exists>ps j qs v. js = ps @ j # qs \<and> dict_get vs (la_gpu_uuid l) = Some v \<and> l = launch_of (la_gpu_uuid l) v j \<and>
       (\<forall>i \<in> set ps. qj_job_id i \<in> tk \<union> la_job_id ` set xs \<or> \<not> suits v i \<or> b - sum_list (map la_ram xs) < qj_ram i)"
    proof (cases xs)
      case Nil
      then have "l = launch_of u v j" using eq by simp
      then show ?thesis using f Nil
        by (intro exI [of _ ps] exI [of _ j] exI [of _ qs] exI [of _ v]) (auto simp: fits_iff free_gpu_def)
    next
      case (Cons x xs')
      then have x: "x = launch_of u v j" and rest: "assign vs occ js us ?tk ?b = xs' @ l # ys" using eq by simp_all
      have "?tk \<union> la_job_id ` set xs' = tk \<union> la_job_id ` set xs" "?b - sum_list (map la_ram xs') = b - sum_list (map la_ram xs)"
        using x Cons by auto
      then show ?thesis using ih rest unfolding no_overtaking_def by metis
    qed
  qed
qed (simp_all add: no_overtaking_def)

text \<open>Nothing that fits is left: a free GPU without a launch suits no job of the list that is
  neither taken nor launched and fits into the memory left at the end.\<close>

lemma assign_maximal:
  assumes "\<forall>j \<in> set js. 0 \<le> qj_ram j"
  shows "u \<in> set us \<longrightarrow> free_gpu vs occ u v \<longrightarrow> u \<notin> la_gpu_uuid ` set (assign vs occ js us tk b) \<longrightarrow> j \<in> set js \<longrightarrow>
    qj_job_id j \<notin> tk \<union> la_job_id ` set (assign vs occ js us tk b) \<longrightarrow>
    \<not> suits v j \<or> b - sum_list (map la_ram (assign vs occ js us tk b)) < qj_ram j"
proof (rule assign_induct [where P = "\<lambda>us tk b ls. (\<forall>l \<in> set ls. 0 \<le> la_ram l) \<longrightarrow>
    u \<in> set us \<longrightarrow> free_gpu vs occ u v \<longrightarrow> u \<notin> la_gpu_uuid ` set ls \<longrightarrow> j \<in> set js \<longrightarrow>
    qj_job_id j \<notin> tk \<union> la_job_id ` set ls \<longrightarrow> \<not> suits v j \<or> b - sum_list (map la_ram ls) < qj_ram j", THEN mp])
  fix u' us tk b v'
  assume f: "free_gpu vs occ u' v'" "\<forall>j \<in> set js. \<not> fits v' tk b j"
  let ?ls = "assign vs occ js us tk b"
  assume ih: "(\<forall>l \<in> set ?ls. 0 \<le> la_ram l) \<longrightarrow> u \<in> set us \<longrightarrow> free_gpu vs occ u v \<longrightarrow> u \<notin> la_gpu_uuid ` set ?ls \<longrightarrow>
    j \<in> set js \<longrightarrow> qj_job_id j \<notin> tk \<union> la_job_id ` set ?ls \<longrightarrow> \<not> suits v j \<or> b - sum_list (map la_ram ?ls) < qj_ram j"
  show "(\<forall>l \<in> set ?ls. 0 \<le> la_ram l) \<longrightarrow> u \<in> set (u' # us) \<longrightarrow> free_gpu vs occ u v \<longrightarrow> u \<notin> la_gpu_uuid ` set ?ls \<longrightarrow>
    j \<in> set js \<longrightarrow> qj_job_id j \<notin> tk \<union> la_job_id ` set ?ls \<longrightarrow> \<not> suits v j \<or> b - sum_list (map la_ram ?ls) < qj_ram j"
  proof (intro impI)
    assume a: "\<forall>l \<in> set ?ls. 0 \<le> la_ram l" "u \<in> set (u' # us)" "free_gpu vs occ u v" "u \<notin> la_gpu_uuid ` set ?ls"
      "j \<in> set js" "qj_job_id j \<notin> tk \<union> la_job_id ` set ?ls"
    have "0 \<le> sum_list (map la_ram ?ls)" by (rule sum_list_nonneg) (use a(1) in auto)
    with a f ih show "\<not> suits v j \<or> b - sum_list (map la_ram ?ls) < qj_ram j"
      by (cases "u = u'") (auto simp: fits_iff free_gpu_def)
  qed
next
  show "\<forall>l \<in> set (assign vs occ js us tk b). 0 \<le> la_ram l"
    using assign_sound [of vs occ js us tk b] assms by (metis launch_of_fields(4))
qed (auto simp: free_gpu_def)

section \<open>Plans\<close>

lemma plan_launches: "launches (plan vs running queue ram enforced) = (if enforced then
    assign vs (rs_gpu_uuid ` set running) (sort_key queue_key queue) (sort (dict_keys vs)) {} ram else [])"
  by (simp add: plan_def)

lemma sort_key_prefix: "sort_key f xs = ps @ j # qs \<Longrightarrow> i \<in> set xs \<Longrightarrow> f i < f j \<Longrightarrow> i \<in> set ps"
  for f :: "'a \<Rightarrow> 'b::linorder"
proof -
  assume s: "sort_key f xs = ps @ j # qs" and i: "i \<in> set xs" "f i < f j"
  have "sorted (map f (ps @ j # qs))" using sorted_sort_key [of f xs] by (simp only: s)
  then have "\<forall>k \<in> set (j # qs). f j \<le> f k" by (auto simp: sorted_append)
  moreover have "i \<in> set (ps @ j # qs)" using i(1) s by (metis set_sort)
  ultimately show "i \<in> set ps" using i(2) by force
qed

lemma plan_launch:
  assumes "l \<in> set (launches (plan vs running queue ram_budget enforced))"
  shows "enforced \<and> la_gpu_uuid l \<notin> rs_gpu_uuid ` set running \<and>
    (\<exists>v j. dict_get vs (la_gpu_uuid l) = Some v \<and> lendable v \<and> j \<in> set queue \<and>
      la_job_id l = qj_job_id j \<and> la_ram l = qj_ram j \<and> gpu_mem_limit l = lendable_memory v \<and>
      (if qj_gpu_mem j = 0 then GiB else qj_gpu_mem j) \<le> gpu_mem_limit l \<and>
      (qj_gpu_models j = [] \<or> model_matches (v_model v) (qj_gpu_models j)))"
proof (cases enforced)
  case True
  with assms obtain v j where vj: "free_gpu vs (rs_gpu_uuid ` set running) (la_gpu_uuid l) v" "j \<in> set queue" "suits v j"
    "l = launch_of (la_gpu_uuid l) v j"
    using assign_sound [of vs "rs_gpu_uuid ` set running" "sort_key queue_key queue" "sort (dict_keys vs)" "{}" ram_budget]
    by (fastforce simp: plan_launches)
  note l' = launch_of_fields [of "la_gpu_uuid l" v j, folded vj(4)]
  show ?thesis using True vj(1,2,3) l' by (auto simp: free_gpu_def suits_def need_gpu_def DEFAULT_JOB_GPU_MEM_def)
qed (use assms in \<open>simp add: plan_launches\<close>)

lemma plan_gpus: "distinct (dict_keys vs) \<Longrightarrow> distinct (map la_gpu_uuid (launches (plan vs running queue ram_budget enforced)))"
  using assign_gpus [of "sort (dict_keys vs)"] by (simp add: plan_launches)

lemma plan_jobs: "distinct (map la_job_id (launches (plan vs running queue ram_budget enforced)))"
  using assign_jobs by (simp add: plan_launches)

lemma plan_budget: "launches (plan vs running queue ram_budget enforced) = [] \<or>
    sum_list (map la_ram (launches (plan vs running queue ram_budget enforced))) \<le> ram_budget"
  using assign_budget [of vs "rs_gpu_uuid ` set running" "sort_key queue_key queue" "sort (dict_keys vs)" "{}" ram_budget]
  by (auto simp: plan_launches)

lemma reclaim_of_iff: "r \<in> set (reclaim_of vs s) \<longleftrightarrow> \<not> reclaiming s \<and> (case dict_get vs (rs_gpu_uuid s) of
    None \<Rightarrow> r = reclaim_for s [''GPU vanished''] | Some v \<Rightarrow> must_reclaim v \<and> r = reclaim_for s (v_reasons v))"
  by (auto simp: reclaim_of_def split: option.splits)

lemma plan_reclaim_iff: "r \<in> set (reclaims (plan vs running queue ram enforced)) \<longleftrightarrow>
    (\<exists>s \<in> set running. \<not> reclaiming s \<and> (case dict_get vs (rs_gpu_uuid s) of
       None \<Rightarrow> r = reclaim_for s [''GPU vanished''] | Some v \<Rightarrow> must_reclaim v \<and> r = reclaim_for s (v_reasons v)))"
  by (simp add: plan_def reclaim_of_iff)

text \<open>C14: a plan never lends what it must not. Its launches name pairwise different jobs and
  pairwise different GPUs; each GPU launched on has a lendable verdict and carries no spot,
  reclaiming or not; each job comes from the queue, wants a model the GPU is, needs at most
  the memory the verdict offers and is limited to it; together the jobs need at most the
  memory budget; and nothing is launched when limits cannot be enforced.\<close>

theorem plan_safe:
  assumes "distinct (dict_keys vs)" "p = plan vs running queue ram_budget enforced"
  shows "distinct (map la_job_id (launches p)) \<and> distinct (map la_gpu_uuid (launches p)) \<and>
    (\<forall>l \<in> set (launches p). enforced \<and> la_gpu_uuid l \<notin> rs_gpu_uuid ` set running \<and>
      (\<exists>v j. dict_get vs (la_gpu_uuid l) = Some v \<and> lendable v \<and> j \<in> set queue \<and>
        la_job_id l = qj_job_id j \<and> la_ram l = qj_ram j \<and> gpu_mem_limit l = lendable_memory v \<and>
        (if qj_gpu_mem j = 0 then GiB else qj_gpu_mem j) \<le> gpu_mem_limit l \<and>
        (qj_gpu_models j = [] \<or> model_matches (v_model v) (qj_gpu_models j)))) \<and>
    (launches p = [] \<or> sum_list (map la_ram (launches p)) \<le> ram_budget)"
  unfolding assms(2)
  by (rule conjI [OF plan_jobs conjI [OF plan_gpus [OF assms(1)] conjI [OF _ plan_budget]]]) (intro ballI plan_launch)

text \<open>A lendable GPU of 94 GiB, another one, and jobs that want memory and models.\<close>

definition lendable_gpu :: "string \<Rightarrow> gpu_verdict" where
  "lendable_gpu u = \<lparr>v_uuid = u, v_state = LENDABLE, lendable = True, must_reclaim = False, v_reasons = [],
     lendable_memory = 94 * GiB, idle_for = 3600, v_model = ''NVIDIA RTX PRO 6000''\<rparr>"

definition demo_job :: "int \<Rightarrow> int \<Rightarrow> int \<Rightarrow> queued_job" where
  "demo_job i prio mem = \<lparr>qj_job_id = i, qj_priority = prio, qj_submitted_at = 0, qj_gpu_mem = mem,
     qj_ram = 10, qj_gpu_models = []\<rparr>"

definition demo_verdicts :: verdicts where
  "demo_verdicts = [(''GPU-b'', lendable_gpu ''GPU-b''), (''GPU-a'', lendable_gpu ''GPU-a'')]"

definition demo_queue :: "queued_job list" where
  "demo_queue = [demo_job 1 0 0, demo_job 2 5 (100 * GiB), demo_job 3 1 (8 * GiB)]"

lemma demo_plan: "map (\<lambda>l. (la_job_id l, la_gpu_uuid l))
    (launches (plan demo_verdicts [] demo_queue 25 True)) = [(3, ''GPU-a''), (1, ''GPU-b'')]"
  by code_simp

theorem plan_safe_witness:
  "map (\<lambda>l. (la_job_id l, la_gpu_uuid l)) (launches (plan demo_verdicts [] demo_queue 25 True)) =
     [(3, ''GPU-a''), (1, ''GPU-b'')] \<and>
   distinct (map la_gpu_uuid (launches (plan demo_verdicts [] demo_queue 25 True)))"
  using plan_safe [OF _ refl, of demo_verdicts "[]" demo_queue 25 True] demo_plan
  by (simp add: demo_verdicts_def)

text \<open>C32: the queue is served in order. When a job is launched, every job that stands before
  it in the queue (a higher priority, or the same and submitted earlier, or the same and a
  lower number) is launched on an earlier GPU of the plan, or does not suit this GPU, or
  needs more host memory than the launches so far leave.\<close>

theorem plan_no_overtaking:
  assumes "launches (plan vs running queue ram_budget enforced) = xs @ l # ys"
    and "i \<in> set queue" "j \<in> set queue" "la_job_id l = qj_job_id j" "queue_key i < queue_key j"
    and "distinct (map qj_job_id queue)" "dict_get vs (la_gpu_uuid l) = Some v"
  shows "qj_job_id i \<in> la_job_id ` set xs \<or> \<not> suits v i \<or> ram_budget < sum_list (map la_ram xs) + qj_ram i"
proof -
  let ?js = "sort_key queue_key queue"
  have "enforced" using assms(1) by (auto simp: plan_launches split: if_splits)
  then have ls: "assign vs (rs_gpu_uuid ` set running) ?js (sort (dict_keys vs)) {} ram_budget = xs @ l # ys"
    using assms(1) by (simp add: plan_launches)
  have "no_overtaking vs ?js {} ram_budget (xs @ l # ys)" unfolding ls [symmetric] by (rule assign_order)
  from this [unfolded no_overtaking_def, rule_format, OF refl]
  obtain ps k qs v' where k: "?js = ps @ k # qs" and v': "dict_get vs (la_gpu_uuid l) = Some v'"
    and lk: "l = launch_of (la_gpu_uuid l) v' k"
    and before': "\<forall>i \<in> set ps. qj_job_id i \<in> {} \<union> la_job_id ` set xs \<or> \<not> suits v' i \<or>
      ram_budget - sum_list (map la_ram xs) < qj_ram i"
    by (elim exE conjE)
  have "v' = v" using v' assms(7) by simp
  with before' have before: "qj_job_id i \<in> la_job_id ` set xs \<or> \<not> suits v i \<or>
      ram_budget - sum_list (map la_ram xs) < qj_ram i" if "i \<in> set ps" for i using that by simp
  have "k \<in> set ?js" by (simp only: k) simp
  then have "k \<in> set queue" by simp
  moreover have "qj_job_id k = qj_job_id j" using assms(4) lk by (metis launch_of_fields(1))
  ultimately have "k = j" using assms(3,6) by (metis distinct_map inj_on_eq_iff)
  then have "i \<in> set ps" using sort_key_prefix [OF k assms(2)] assms(5) by simp
  then show ?thesis using before [of i] by (simp add: algebra_simps)
qed

theorem plan_no_overtaking_witness:
  "queue_key (demo_job 2 5 (100 * GiB)) < queue_key (demo_job 3 1 (8 * GiB)) \<and>
   \<not> suits (lendable_gpu ''GPU-a'') (demo_job 2 5 (100 * GiB))"
proof -
  let ?i = "demo_job 2 5 (100 * GiB)" and ?j = "demo_job 3 1 (8 * GiB)"
  obtain l ys where ls: "launches (plan demo_verdicts [] demo_queue 25 True) = [] @ l # ys"
    and l: "la_job_id l = 3" "la_gpu_uuid l = ''GPU-a''"
    using demo_plan by (cases "launches (plan demo_verdicts [] demo_queue 25 True)") auto
  have key: "queue_key ?i < queue_key ?j" by (simp add: queue_key_def demo_job_def)
  have "\<not> suits (lendable_gpu ''GPU-a'') ?i \<or> 25 < qj_ram ?i"
    using plan_no_overtaking [OF ls, of ?i ?j "lendable_gpu ''GPU-a''"] key l
    by (simp add: demo_queue_def demo_verdicts_def demo_job_def)
  then show ?thesis using key by (simp add: demo_job_def)
qed

text \<open>A plan leaves nothing on the table. When limits can be enforced, a lendable GPU
  without a spot that gets no launch suits no queued job that is not launched and whose
  host memory still fits after all launches of the plan.\<close>

theorem plan_work_conserving:
  assumes "\<forall>j \<in> set queue. 0 \<le> qj_ram j" "p = plan vs running queue ram_budget True"
    and "dict_get vs u = Some v" "lendable v" "u \<notin> rs_gpu_uuid ` set running" "u \<notin> la_gpu_uuid ` set (launches p)"
    and "j \<in> set queue" "qj_job_id j \<notin> la_job_id ` set (launches p)" "suits v j"
  shows "ram_budget < sum_list (map la_ram (launches p)) + qj_ram j"
proof -
  have "u \<in> set (dict_keys vs)" using assms(3) by (force dest: map_of_SomeD)
  with assms show ?thesis
    using assign_maximal [of "sort_key queue_key queue" u "sort (dict_keys vs)" vs "rs_gpu_uuid ` set running" v
        "{}" ram_budget j]
    by (auto simp: plan_launches free_gpu_def)
qed

theorem plan_work_conserving_witness:
  "launches (plan demo_verdicts [] [demo_job 1 0 0] 9 True) = [] \<and> (9::int) < 0 + qj_ram (demo_job 1 0 0)"
proof -
  have none: "launches (plan demo_verdicts [] [demo_job 1 0 0] 9 True) = []" by code_simp
  have suit: "suits (lendable_gpu ''GPU-a'') (demo_job 1 0 0)"
    by (simp add: suits_def lendable_gpu_def demo_job_def need_gpu_def DEFAULT_JOB_GPU_MEM_def GiB_def)
  show ?thesis
    using plan_work_conserving [OF _ refl, of "[demo_job 1 0 0]" demo_verdicts "''GPU-a''" "lendable_gpu ''GPU-a''"
        "[]" 9 "demo_job 1 0 0"] suit none
    by (simp add: demo_verdicts_def lendable_gpu_def demo_job_def)
qed

text \<open>C31: every spot that must go is reclaimed, once, and no other. The reclaims of a plan are
  one per running spot that is not being reclaimed already and whose GPU has no verdict
  any more or one that says so, in the order of the spots, with that verdict's reasons; and
  no GPU of theirs is launched on.\<close>

theorem plan_reclaims_exact:
  "map (\<lambda>r. (re_job_id r, re_gpu_uuid r, re_container r, re_reasons r)) (reclaims (plan vs running queue ram enforced)) =
     map (\<lambda>s. (rs_job_id s, rs_gpu_uuid s, rs_container s,
         case dict_get vs (rs_gpu_uuid s) of None \<Rightarrow> [''GPU vanished''] | Some v \<Rightarrow> v_reasons v))
       (filter (\<lambda>s. \<not> reclaiming s \<and> (case dict_get vs (rs_gpu_uuid s) of None \<Rightarrow> True | Some v \<Rightarrow> must_reclaim v)) running) \<and>
   (re_gpu_uuid ` set (reclaims (plan vs running queue ram enforced))) \<inter>
     (la_gpu_uuid ` set (launches (plan vs running queue ram enforced))) = {}"
proof -
  have one: "map (\<lambda>r. (re_job_id r, re_gpu_uuid r, re_container r, re_reasons r)) (concat (map (reclaim_of vs) ss)) =
     map (\<lambda>s. (rs_job_id s, rs_gpu_uuid s, rs_container s,
         case dict_get vs (rs_gpu_uuid s) of None \<Rightarrow> [''GPU vanished''] | Some v \<Rightarrow> v_reasons v))
       (filter (\<lambda>s. \<not> reclaiming s \<and> (case dict_get vs (rs_gpu_uuid s) of None \<Rightarrow> True | Some v \<Rightarrow> must_reclaim v)) ss)" for ss
    by (induction ss) (auto simp: reclaim_of_def reclaim_for_def split: option.splits)
  have "re_gpu_uuid r \<in> rs_gpu_uuid ` set running" if "r \<in> set (concat (map (reclaim_of vs) running))" for r
    using that by (auto simp: reclaim_of_def reclaim_for_def split: option.splits if_splits)
  then have a: "re_gpu_uuid ` set (concat (map (reclaim_of vs) running)) \<subseteq> rs_gpu_uuid ` set running"
    by (rule image_subsetI)
  have "la_gpu_uuid l \<notin> rs_gpu_uuid ` set running" if "l \<in> set (launches (plan vs running queue ram enforced))" for l
    using that assign_sound [of vs "rs_gpu_uuid ` set running" "sort_key queue_key queue" "sort (dict_keys vs)" "{}" ram]
    by (auto simp: plan_launches free_gpu_def split: if_splits)
  then have "la_gpu_uuid ` set (launches (plan vs running queue ram enforced)) \<subseteq> - (rs_gpu_uuid ` set running)"
    by (intro image_subsetI) simp
  with a have "(re_gpu_uuid ` set (concat (map (reclaim_of vs) running))) \<inter>
     (la_gpu_uuid ` set (launches (plan vs running queue ram enforced))) = {}"
    by (intro Int_emptyI) (meson ComplD subsetD)
  then show ?thesis using one [of running] by (simp add: plan_def)
qed

end
