(* ===== verification/Jobspec.thy ===== *)
theory Jobspec imports Config begin

text \<open>
  \<open>labgpu/spot/jobspec.py\<close>: job files. \<open>spec_from_dict\<close> works on the parsed TOML document.
  The fields whose types the source checks or converts are typed; \<open>workdir\<close>, \<open>entrypoint\<close>
  and the ends of a mount are whatever the file holds. JSON text is represented by the
  document it denotes: tuples become lists on the way.
\<close>

record mount =
  src :: pyval
  dst :: pyval
  readonly :: bool

record job_spec =
  js_name :: string
  image :: string
  js_command :: "string list"
  workdir :: pyval
  entrypoint :: pyval
  gpu_mem :: int
  ram :: int
  js_priority :: int
  env :: "(string, string) pydict"
  mounts :: "mount list"
  gpu_models :: "string list"

section \<open>Reading a job file\<close>

definition allowed_keys :: "string list" where
  "allowed_keys = [''name'', ''image'', ''command'', ''workdir'', ''entrypoint'', ''gpu_mem'', ''ram'', ''priority'',
     ''env'', ''mounts'', ''gpu_models'']"

definition required_keys :: "string list" where
  "required_keys = [''name'', ''image'', ''command'']"

text \<open>\<open>int(v)\<close>.\<close>

definition int_of :: "pyval \<Rightarrow> int result" where
  "int_of v = (case v of
     PInt i \<Rightarrow> Inr i
   | PBool b \<Rightarrow> Inr (if b then 1 else 0)
   | PFloat x \<Rightarrow> Inr (trunc x)
   | PStr s \<Rightarrow> (case py_int s of Some i \<Rightarrow> Inr i
       | None \<Rightarrow> Inl (ValueError (''invalid literal for int() with base 10: '' @ repr_str s)))
   | _ \<Rightarrow> Inl (TypeError (''int() argument must be a string, a bytes-like object or a real number, not '' @
       repr_str (type_name v))))"

fun the_str :: "pyval \<Rightarrow> string" where
  "the_str (PStr s) = s"
| "the_str _ = []"

text \<open>A list of strings as \<open>command\<close> and \<open>gpu_models\<close> must be: no string itself, and every
  item a string. A table passes too, with its keys as the items.\<close>

definition read_command :: "pyval \<Rightarrow> string list result" where
  "read_command v = (let bad = Inl (JobSpecError ''command must be a non-empty list of strings'') in
     if is_str v \<or> \<not> truthy v then bad
     else rbind (iter_items v) (\<lambda>xs. if list_all is_str xs then Inr (map the_str xs) else bad))"

definition read_models :: "pyval \<Rightarrow> string list result" where
  "read_models v = (let bad = Inl (JobSpecError ''gpu_models must be a list of non-empty strings'') in
     if is_str v then bad
     else rbind (iter_items v) (\<lambda>xs. if list_all (\<lambda>m. is_str m \<and> truthy m) xs
       then Inr (map the_str xs) else bad))"

definition read_env :: "pyval \<Rightarrow> (string, string) pydict result" where
  "read_env v = (case v of
     PDict d \<Rightarrow> if list_all (\<lambda>(k, w). is_str w) d then Inr (map (\<lambda>(k, w). (k, the_str w)) d)
                else Inl (JobSpecError ''env values must be strings'')
   | _ \<Rightarrow> Inl (AttributeError (repr_str (type_name v) @ '' object has no attribute '' @ repr_str ''items'')))"

definition mount_key :: "(string, pyval) pydict \<Rightarrow> string \<Rightarrow> pyval result" where
  "mount_key d k = (case dict_get d k of Some v \<Rightarrow> Inr v
     | None \<Rightarrow> Inl (JobSpecError (''mount is missing '' @ repr_str k)))"

definition read_mount :: "pyval \<Rightarrow> mount result" where
  "read_mount m = (case m of
     PDict d \<Rightarrow> rbind (mount_key d ''src'') (\<lambda>s. rbind (mount_key d ''dst'') (\<lambda>t.
       Inr \<lparr>src = s, dst = t, readonly = truthy (get_or (PBool False) d ''readonly'')\<rparr>))
   | _ \<Rightarrow> Inl (TypeError (repr_str (type_name m) @ '' object is not subscriptable by a key'')))"

text \<open>\<open>except ValueError as e: raise JobSpecError(str(e))\<close>.\<close>

definition as_spec_error :: "'a result \<Rightarrow> 'a result" where
  "as_spec_error r = (case r of Inl e \<Rightarrow> if is_value_error e then Inl (JobSpecError (exc_str e)) else Inl e
     | Inr x \<Rightarrow> Inr x)"

definition read_size :: "(string, pyval) pydict \<Rightarrow> string \<Rightarrow> int result" where
  "read_size raw k = (case dict_get raw k of None \<Rightarrow> Inr 0 | Some v \<Rightarrow> parse_size v)"

definition spec_from_dict :: "(string, pyval) pydict \<Rightarrow> job_spec result" where
  "spec_from_dict raw =
     (let unknown = filter (\<lambda>k. k \<notin> set allowed_keys) (dict_keys raw);
          missing = filter (\<lambda>k. k \<notin> set (dict_keys raw)) required_keys
      in if unknown \<noteq> [] then Inl (JobSpecError (''unknown keys: '' @ repr_list repr_str (sort (remdups unknown))))
         else if missing \<noteq> [] then Inl (JobSpecError (''missing required key: '' @ hd missing))
         else
           rbind (read_command (get_or PNone raw ''command'')) (\<lambda>cmd.
           rbind (read_env (get_or (PDict []) raw ''env'')) (\<lambda>en.
           rbind (read_models (get_or (PList []) raw ''gpu_models'')) (\<lambda>models.
           rbind (rbind (iter_items (get_or (PList []) raw ''mounts'')) (traverse read_mount)) (\<lambda>ms.
           as_spec_error (
             rbind (read_size raw ''gpu_mem'') (\<lambda>g.
             rbind (read_size raw ''ram'') (\<lambda>r.
             rbind (int_of (get_or (PInt 0) raw ''priority'')) (\<lambda>p.
               Inr \<lparr>js_name = py_str (get_or PNone raw ''name''), image = py_str (get_or PNone raw ''image''),
                    js_command = cmd, workdir = get_or PNone raw ''workdir'',
                    entrypoint = get_or PNone raw ''entrypoint'', gpu_mem = g, ram = r, js_priority = p,
                    env = en, mounts = ms, gpu_models = models\<rparr>)))))))))"

section \<open>Mounts\<close>

text \<open>\<open>s.replace("\\", "/")\<close>.\<close>

definition fold_backslashes :: "string \<Rightarrow> string" where
  "fold_backslashes s = map (\<lambda>c. if code c = 92 then CHR ''/'' else c) s"

definition str_arg :: "pyval \<Rightarrow> string result" where
  "str_arg v = (case v of PStr s \<Rightarrow> Inr s
     | _ \<Rightarrow> Inl (TypeError (''expected str, bytes or os.PathLike object, not '' @ type_name v)))"

text \<open>\<open>realpath\<close> is the file system's answer at the time of the call.\<close>

definition validate_mount :: "(string \<Rightarrow> string) \<Rightarrow> path list \<Rightarrow> bool \<Rightarrow> mount \<Rightarrow> unit result" where
  "validate_mount realpath roots resolve m =
     rbind (str_arg (src m)) (\<lambda>s.
       (let src_path = path_of (fold_backslashes (if resolve then realpath s else normpath s))
        in if \<not> is_absolute src_path then Inl (JobSpecError (''mount source must be absolute: '' @ s))
           else if \<not> list_ex (\<lambda>r. is_relative_to src_path (path_of (fold_backslashes (path_str r)))) roots
           then Inl (JobSpecError (''mount source '' @ s @ '' is outside allowed roots '' @
                  repr_list (\<lambda>r. repr_str (path_str r)) roots))
           else rbind (str_arg (dst m)) (\<lambda>d. if \<not> is_absolute (path_of d)
             then Inl (JobSpecError (''mount destination must be absolute: '' @ d)) else Inr ())))"

definition validate_mounts :: "(string \<Rightarrow> string) \<Rightarrow> path list \<Rightarrow> bool \<Rightarrow> job_spec \<Rightarrow> unit result" where
  "validate_mounts realpath roots resolve s =
     rmap (\<lambda>_. ()) (traverse (validate_mount realpath roots resolve) (mounts s))"

definition resolved :: "(string \<Rightarrow> string) \<Rightarrow> job_spec \<Rightarrow> job_spec result" where
  "resolved realpath s = rmap (\<lambda>ms. s\<lparr>mounts := ms\<rparr>)
     (traverse (\<lambda>m. rmap (\<lambda>p. m\<lparr>src := PStr (realpath p)\<rparr>) (str_arg (src m))) (mounts s))"

section \<open>JSON\<close>

definition mount_to_doc :: "mount \<Rightarrow> pyval" where
  "mount_to_doc m = PDict [(''src'', src m), (''dst'', dst m), (''readonly'', PBool (readonly m))]"

definition to_json :: "job_spec \<Rightarrow> pyval" where
  "to_json s = PDict [(''name'', PStr (js_name s)), (''image'', PStr (image s)),
     (''command'', PList (map PStr (js_command s))), (''workdir'', workdir s), (''entrypoint'', entrypoint s),
     (''gpu_mem'', PInt (gpu_mem s)), (''ram'', PInt (ram s)), (''priority'', PInt (js_priority s)),
     (''env'', PDict (map (\<lambda>(k, v). (k, PStr v)) (env s))), (''mounts'', PList (map mount_to_doc (mounts s))),
     (''gpu_models'', PList (map PStr (gpu_models s)))]"

text \<open>The keyword call checks the names of the fields, not their values. Documents whose values
  do not have the declared types, which \<open>to_json\<close> never writes, are outside the record type;
  they are refused here.\<close>

definition doc_key :: "(string, pyval) pydict \<Rightarrow> string \<Rightarrow> pyval result" where
  "doc_key d k = (case dict_get d k of Some v \<Rightarrow> Inr v | None \<Rightarrow> Inl (KeyError (repr_str k)))"

definition untyped :: "'a option \<Rightarrow> 'a result" where
  "untyped x = (case x of Some y \<Rightarrow> Inr y | None \<Rightarrow> Inl (TypeError ''a field is not of its declared type''))"

fun as_str :: "pyval \<Rightarrow> string option" where
  "as_str (PStr s) = Some s"
| "as_str _ = None"

fun as_dict :: "pyval \<Rightarrow> (string \<times> pyval) list option" where
  "as_dict (PDict d) = Some d"
| "as_dict _ = None"

definition str_items :: "pyval \<Rightarrow> string list result" where
  "str_items v = rbind (iter_items v) (traverse (\<lambda>x. untyped (as_str x)))"

definition mount_from_doc :: "pyval \<Rightarrow> mount result" where
  "mount_from_doc v = rbind (untyped (as_dict v)) (\<lambda>d.
     if \<not> set (dict_keys d) \<subseteq> {''src'', ''dst'', ''readonly''} then Inl (TypeError ''unexpected keyword argument'')
     else rbind (doc_key d ''src'') (\<lambda>s. rbind (doc_key d ''dst'') (\<lambda>t.
       rbind (untyped (case get_or (PBool False) d ''readonly'' of PBool b \<Rightarrow> Some b | _ \<Rightarrow> None)) (\<lambda>ro.
         Inr \<lparr>src = s, dst = t, readonly = ro\<rparr>))))"

definition env_from_doc :: "pyval \<Rightarrow> (string, string) pydict result" where
  "env_from_doc v = rbind (untyped (as_dict v)) (traverse (\<lambda>(k, w). rmap (Pair k) (untyped (as_str w))))"

definition from_json :: "pyval \<Rightarrow> job_spec result" where
  "from_json doc = rbind (untyped (as_dict doc)) (\<lambda>raw.
     rbind (rbind (doc_key raw ''command'') str_items) (\<lambda>cmd.
     rbind (rbind (doc_key raw ''mounts'') (\<lambda>v. rbind (iter_items v) (traverse mount_from_doc))) (\<lambda>ms.
     rbind (str_items (get_or (PList []) raw ''gpu_models'')) (\<lambda>models.
       if \<not> set (dict_keys raw) \<subseteq> set allowed_keys then Inl (TypeError ''unexpected keyword argument'')
       else
         rbind (rbind (doc_key raw ''name'') (\<lambda>v. untyped (as_str v))) (\<lambda>n.
         rbind (rbind (doc_key raw ''image'') (\<lambda>v. untyped (as_str v))) (\<lambda>im.
         rbind (untyped (as_int (get_or (PInt 0) raw ''gpu_mem''))) (\<lambda>g.
         rbind (untyped (as_int (get_or (PInt 0) raw ''ram''))) (\<lambda>r.
         rbind (untyped (as_int (get_or (PInt 0) raw ''priority''))) (\<lambda>p.
         rbind (env_from_doc (get_or (PDict []) raw ''env'')) (\<lambda>en.
           Inr \<lparr>js_name = n, image = im, js_command = cmd, workdir = get_or PNone raw ''workdir'',
                entrypoint = get_or PNone raw ''entrypoint'', gpu_mem = g, ram = r, js_priority = p,
                env = en, mounts = ms, gpu_models = models\<rparr>))))))))))"

section \<open>Properties\<close>

lemma traverse_map: "traverse f (map g xs) = traverse (f \<circ> g) xs"
  by (induction xs) simp_all

lemma traverse_id: "(\<And>x. x \<in> set xs \<Longrightarrow> f x = Inr x) \<Longrightarrow> traverse f xs = Inr xs"
  by (induction xs) auto

lemma str_items_doc [simp]: "str_items (PList (map PStr xs)) = Inr xs"
  by (simp add: str_items_def iter_items_def traverse_map untyped_def traverse_id)

lemma mount_doc_roundtrip [simp]: "mount_from_doc (mount_to_doc m) = Inr m"
  by (simp add: mount_from_doc_def mount_to_doc_def untyped_def doc_key_def get_or_def)

lemma env_doc_roundtrip [simp]: "env_from_doc (PDict (map (\<lambda>(k, v). (k, PStr v)) en)) = Inr en"
proof -
  have "traverse (\<lambda>(k, w). rmap (Pair k) (untyped (as_str w))) (map (\<lambda>(k, v). (k, PStr v)) en) = Inr en"
    unfolding traverse_map by (rule traverse_id) (auto simp: untyped_def)
  then show ?thesis by (simp add: env_from_doc_def untyped_def)
qed

text \<open>C38: a job survives the database. Reading back the JSON document written for a job gives
  the same job, whatever its fields hold.\<close>

theorem job_spec_json_roundtrip: "from_json (to_json s) = Inr s"
proof -
  have "traverse mount_from_doc (map mount_to_doc (mounts s)) = Inr (mounts s)"
    by (simp add: traverse_map traverse_id)
  then show ?thesis
    by (simp add: from_json_def to_json_def untyped_def doc_key_def get_or_def allowed_keys_def iter_items_def)
qed

lemma as_spec_error_Inr [simp]: "as_spec_error r = Inr x \<longleftrightarrow> r = Inr x"
  by (cases r) (simp_all add: as_spec_error_def)

lemma read_command_Inr: "read_command v = Inr cmd \<Longrightarrow>
    cmd \<noteq> [] \<and> \<not> is_str v \<and> (\<exists>xs. iter_items v = Inr xs \<and> xs = map PStr cmd)"
proof -
  assume a: "read_command v = Inr cmd"
  then obtain xs where xs: "iter_items v = Inr xs" "list_all is_str xs" "cmd = map the_str xs" "\<not> is_str v" "truthy v"
    by (auto simp: read_command_def Let_def rbind_Inr_iff split: if_splits)
  then have "map PStr cmd = xs"
    by (auto simp: list_all_iff intro!: map_idI elim!: is_str.elims)
  moreover have "xs \<noteq> []" using xs(1,4,5) by (cases v) (auto simp: iter_items_def)
  ultimately show ?thesis using xs by auto
qed

lemma the_str_nonempty: "is_str m \<Longrightarrow> truthy m \<Longrightarrow> the_str m \<noteq> []"
  by (cases m) simp_all

lemma read_models_Inr: "read_models v = Inr ms \<Longrightarrow> [] \<notin> set ms"
  by (auto simp: read_models_def Let_def rbind_Inr_iff list_all_iff split: if_splits dest!: the_str_nonempty)
    (metis the_str_nonempty)

lemma read_size_nonneg: "read_size raw k = Inr n \<Longrightarrow> 0 \<le> n"
  by (auto simp: read_size_def parse_size_nonneg split: option.splits)

lemma required_missing: "filter (\<lambda>k. k \<notin> K) required_keys = [] \<longleftrightarrow> set required_keys \<subseteq> K"
  by (auto simp: filter_empty_conv)

lemma the_str_id: "is_str v \<Longrightarrow> PStr (the_str v) = v"
  by (cases v) simp_all

lemma read_env_Inr: "read_env (PDict e) = Inr en \<Longrightarrow> e = map (\<lambda>(k, v). (k, PStr v)) en"
  by (auto simp: read_env_def list_all_iff comp_def intro!: map_idI [symmetric] split: if_splits)
    (drule (1) bspec, simp add: the_str_id)

lemma read_mounts_Inr: "traverse read_mount xs = Inr ms \<Longrightarrow> list_all2 (\<lambda>x m. \<exists>d. x = PDict d \<and> dict_get d ''src'' = Some (src m) \<and>
    dict_get d ''dst'' = Some (dst m) \<and> readonly m = truthy (get_or (PBool False) d ''readonly'')) xs ms"
  unfolding traverse_Inr_iff
  by (erule list_all2_mono) (auto simp: read_mount_def mount_key_def rbind_Inr_iff split: pyval.splits option.splits)

lemma read_models_items: "read_models v = Inr ms \<Longrightarrow> \<not> is_str v \<and> iter_items v = Inr (map PStr ms)"
  by (auto simp: read_models_def Let_def rbind_Inr_iff list_all_iff comp_def the_str_id intro!: map_idI [symmetric] split: if_splits)

text \<open>C39: what an accepted job file contains. Its keys are all known and the three required ones
  are there; the command is a non-empty collection of strings, taken as it stands; the sizes
  are not negative, and 0 when absent; every environment value is a string and every model
  pattern a non-empty one. Name and image are the texts of whatever the file has, the
  priority is what \<open>int\<close> makes of it; working directory, entry point and the two ends of each
  mount are taken over unchecked, whatever their type.\<close>

theorem accepted_job_file:
  assumes "spec_from_dict raw = Inr s"
  shows "set required_keys \<subseteq> set (dict_keys raw) \<and> set (dict_keys raw) \<subseteq> set allowed_keys \<and>
    js_command s \<noteq> [] \<and> (\<exists>v. dict_get raw ''command'' = Some v \<and> \<not> is_str v \<and> iter_items v = Inr (map PStr (js_command s))) \<and>
    0 \<le> gpu_mem s \<and> 0 \<le> ram s \<and> (\<forall>k \<in> {''gpu_mem'', ''ram''}. dict_get raw k = None \<longrightarrow>
       (if k = ''ram'' then ram s else gpu_mem s) = 0) \<and>
    (\<forall>e. dict_get raw ''env'' = Some (PDict e) \<longrightarrow> e = map (\<lambda>(k, v). (k, PStr v)) (env s)) \<and>
    [] \<notin> set (gpu_models s) \<and> iter_items (get_or (PList []) raw ''gpu_models'') = Inr (map PStr (gpu_models s)) \<and>
    js_name s = py_str (get_or PNone raw ''name'') \<and> image s = py_str (get_or PNone raw ''image'') \<and>
    int_of (get_or (PInt 0) raw ''priority'') = Inr (js_priority s) \<and>
    workdir s = get_or PNone raw ''workdir'' \<and> entrypoint s = get_or PNone raw ''entrypoint'' \<and>
    (\<exists>xs. iter_items (get_or (PList []) raw ''mounts'') = Inr xs \<and>
       list_all2 (\<lambda>x m. \<exists>d. x = PDict d \<and> dict_get d ''src'' = Some (src m) \<and> dict_get d ''dst'' = Some (dst m) \<and>
         readonly m = truthy (get_or (PBool False) d ''readonly'')) xs (mounts s))"
proof -
  have keys: "set (dict_keys raw) \<subseteq> set allowed_keys" "set required_keys \<subseteq> set (dict_keys raw)"
    using assms by (auto simp: spec_from_dict_def Let_def filter_empty_conv required_missing split: if_splits)
  from assms keys obtain cmd en ms xs mo g r p where
    cmd: "read_command (get_or PNone raw ''command'') = Inr cmd"
    and en: "read_env (get_or (PDict []) raw ''env'') = Inr en"
    and ms: "read_models (get_or (PList []) raw ''gpu_models'') = Inr ms"
    and xs: "iter_items (get_or (PList []) raw ''mounts'') = Inr xs" "traverse read_mount xs = Inr mo"
    and g: "read_size raw ''gpu_mem'' = Inr g" and r: "read_size raw ''ram'' = Inr r"
    and p: "int_of (get_or (PInt 0) raw ''priority'') = Inr p"
    and s: "s = \<lparr>js_name = py_str (get_or PNone raw ''name''), image = py_str (get_or PNone raw ''image''),
       js_command = cmd, workdir = get_or PNone raw ''workdir'', entrypoint = get_or PNone raw ''entrypoint'',
       gpu_mem = g, ram = r, js_priority = p, env = en, mounts = mo, gpu_models = ms\<rparr>"
    by (auto simp: spec_from_dict_def Let_def filter_empty_conv required_missing rbind_Inr_iff split: if_splits)
  have "''command'' \<in> set (dict_keys raw)" using keys(2) by (auto simp: required_keys_def)
  then obtain v where v: "dict_get raw ''command'' = Some v"
    by (metis list.set_map map_of_eq_None_iff option.exhaust)
  then have c: "read_command v = Inr cmd" using cmd by (simp add: get_or_def)
  from read_command_Inr [OF c] v have "cmd \<noteq> [] \<and>
      (\<exists>v. dict_get raw ''command'' = Some v \<and> \<not> is_str v \<and> iter_items v = Inr (map PStr cmd))" by auto
  moreover have "e = map (\<lambda>(k, v). (k, PStr v)) en" if "dict_get raw ''env'' = Some (PDict e)" for e
    by (rule read_env_Inr) (use en that in \<open>simp add: get_or_def\<close>)
  moreover have "\<forall>k \<in> {''gpu_mem'', ''ram''}. dict_get raw k = None \<longrightarrow> (if k = ''ram'' then r else g) = 0"
    using g r by (auto simp: read_size_def)
  ultimately show ?thesis
    unfolding s job_spec.select_convs
    using keys read_size_nonneg [OF g] read_size_nonneg [OF r] read_models_Inr [OF ms] read_models_items [OF ms]
      p xs(1) read_mounts_Inr [OF xs(2)] by blast
qed

lemma fold_backslashes_id: "(\<forall>c \<in> set s. code c \<noteq> 92) \<Longrightarrow> fold_backslashes s = s"
  by (auto simp: fold_backslashes_def intro: map_idI)

text \<open>What the check looks at: the resolved source with backslashes read as slashes.\<close>

lemma validate_mount_iff: "validate_mount realpath roots resolve m = Inr () \<longleftrightarrow>
    (\<exists>p d. src m = PStr p \<and> dst m = PStr d \<and> is_absolute (path_of d) \<and>
       (let q = path_of (fold_backslashes (if resolve then realpath p else normpath p))
        in is_absolute q \<and> (\<exists>r \<in> set roots. is_relative_to q (path_of (fold_backslashes (path_str r))))))"
  by (auto simp: validate_mount_def str_arg_def Let_def rbind_Inr_iff list_ex_iff split: pyval.splits)

lemma validate_mounts_iff: "validate_mounts realpath roots resolve s = Inr () \<longleftrightarrow>
    (\<forall>m \<in> set (mounts s). validate_mount realpath roots resolve m = Inr ())"
  by (auto simp: validate_mounts_def rmap_Inr_iff traverse_Inr_iff list_all2_conv_all_nth all_set_conv_all_nth
      intro: exI [of _ "replicate (length (mounts s)) ()"])

lemma relative_parts: "is_relative_to p r \<longleftrightarrow> anchor p = anchor r \<and> (\<exists>rest. parts p = parts r @ rest)"
  by (auto simp: is_relative_to_def) (metis append_take_drop_id)

definition no_backslash :: "string \<Rightarrow> bool" where
  "no_backslash s = (\<forall>c \<in> set s. code c \<noteq> 92)"

text \<open>Without backslashes the check is what it seems to be.\<close>

lemma fold_plain: "no_backslash t \<Longrightarrow> path_of (fold_backslashes t) = path_of t"
  by (simp add: no_backslash_def fold_backslashes_id)

lemma fold_root: "wf_path r \<Longrightarrow> no_backslash (path_str r) \<Longrightarrow> path_of (fold_backslashes (path_str r)) = r"
  by (simp add: fold_plain path_of_str)


text \<open>A job file and its job.\<close>

definition demo_file :: "(string, pyval) pydict" where
  "demo_file = [(''name'', PStr ''train''), (''image'', PStr ''torch:2''), (''command'', PList [PStr ''python'', PStr ''a.py'']),
     (''mounts'', PList [PDict [(''src'', PStr ''/vfroot/data''), (''dst'', PStr ''/data'')]])]"

definition demo_spec :: job_spec where
  "demo_spec = \<lparr>js_name = ''train'', image = ''torch:2'', js_command = [''python'', ''a.py''], workdir = PNone,
     entrypoint = PNone, gpu_mem = 0, ram = 0, js_priority = 0, env = [],
     mounts = [\<lparr>src = PStr ''/vfroot/data'', dst = PStr ''/data'', readonly = False\<rparr>], gpu_models = []\<rparr>"

lemma demo_file_read: "spec_from_dict demo_file = Inr demo_spec"
  by (simp add: spec_from_dict_def demo_file_def demo_spec_def allowed_keys_def required_keys_def read_command_def
      iter_items_def read_env_def read_models_def read_mount_def mount_key_def as_spec_error_def read_size_def
      int_of_def get_or_def Let_def)

theorem accepted_job_file_witness:
  "spec_from_dict demo_file = Inr demo_spec \<and> js_command demo_spec \<noteq> [] \<and> gpu_mem demo_spec = 0"
  using accepted_job_file [OF demo_file_read] demo_file_read by (simp add: demo_file_def)

text \<open>The mount of the job file passes and is inside the root. So passes, with a file system
  without links, the source \<open>/vfroot\x\<close>: it is a file of the root directory, not of \<open>/vfroot\<close>.\<close>

definition backslash_source :: string where
  "backslash_source = ''/vfroot'' @ [CHR 0x5C] @ ''x''"


end
