(* ===== verification/Jobs.thy ===== *)
theory Jobs imports Jobspec Model begin

text \<open>
  \<open>labgpu/spot/jobs.py\<close>: the job queue and run history. A store is the contents of the
  SQLite database: the rows of \<open>jobs\<close> and \<open>runs\<close> in the order of their identifiers and the
  two settings. Each method is one transaction; clock readings are arguments. The column
  \<open>spec\<close> holds the JSON document of the job.
\<close>

datatype job_state = QUEUED | RUNNING | PREEMPTING | SUCCEEDED | FAILED | CANCELLED

fun state_text :: "job_state \<Rightarrow> string" where
  "state_text QUEUED = ''QUEUED''"
| "state_text RUNNING = ''RUNNING''"
| "state_text PREEMPTING = ''PREEMPTING''"
| "state_text SUCCEEDED = ''SUCCEEDED''"
| "state_text FAILED = ''FAILED''"
| "state_text CANCELLED = ''CANCELLED''"

record job_row =
  jid :: int
  job_name :: string
  uid :: int
  gid :: int
  spec_doc :: pyval
  priority :: int
  state :: job_state
  attempts :: int
  preemptions :: int
  gpu_uuid :: "string option"
  container :: "string option"
  submitted_at :: rat
  started_at :: "rat option"
  finished_at :: "rat option"
  exit_code :: "int option"
  reason :: "string option"

record run_row =
  run_job :: int
  run_attempt :: int
  run_gpu :: string
  run_container :: string
  run_started :: rat
  run_finished :: "rat option"
  outcome :: "string option"

text \<open>\<open>next_id\<close> is the AUTOINCREMENT counter of \<open>jobs\<close>; the JSON list in \<open>paused_gpus\<close> is
  its items.\<close>

record store =
  jobs :: "job_row list"
  runs :: "run_row list"
  next_id :: int
  paused_node :: "string option"
  paused_gpus :: "string list option"

definition empty_store :: store where
  "empty_store = \<lparr>jobs = [], runs = [], next_id = 1, paused_node = None, paused_gpus = None\<rparr>"

text \<open>\<open>_tx\<close>: a body that raises is rolled back. The methods below are written with what they leave
  behind, which is the same (\<open>transactions_atomic\<close>).\<close>

definition in_tx :: "(store \<Rightarrow> 'a result \<times> store) \<Rightarrow> store \<Rightarrow> 'a result \<times> store" where
  "in_tx body st = (case body st of (Inl e, _) \<Rightarrow> (Inl e, st) | (Inr x, st') \<Rightarrow> (Inr x, st'))"

section \<open>Submission and queries\<close>

text \<open>SQLite stores integers of 64 bits; larger ones are refused by the driver.\<close>

definition sql_int :: "int \<Rightarrow> bool" where
  "sql_int i = (- (2 ^ 63) \<le> i \<and> i < 2 ^ 63)"

definition submit :: "job_spec \<Rightarrow> int \<Rightarrow> int \<Rightarrow> rat \<Rightarrow> store \<Rightarrow> int result \<times> store" where
  "submit s u g now st =
     (if \<not> (sql_int u \<and> sql_int g \<and> sql_int (js_priority s))
      then (Inl (OverflowError ''Python int too large to convert to SQLite INTEGER''), st)
      else (Inr (next_id st), st\<lparr>
        jobs := jobs st @ [\<lparr>jid = next_id st, job_name = js_name s, uid = u, gid = g, spec_doc = to_json s,
          priority = js_priority s, state = QUEUED, attempts = 0, preemptions = 0, gpu_uuid = None,
          container = None, submitted_at = now, started_at = None, finished_at = None, exit_code = None,
          reason = None\<rparr>],
        next_id := next_id st + 1\<rparr>))"

definition row_of :: "store \<Rightarrow> int \<Rightarrow> job_row option" where
  "row_of st i = find (\<lambda>r. jid r = i) (jobs st)"

text \<open>A \<open>JobRecord\<close> is the row with its specification decoded.\<close>

type_synonym job_record = "job_row \<times> job_spec"

definition record_of :: "job_row \<Rightarrow> job_record result" where
  "record_of r = rmap (Pair r) (from_json (spec_doc r))"

definition get_job :: "store \<Rightarrow> int \<Rightarrow> job_record option result" where
  "get_job st i = (case row_of st i of None \<Rightarrow> Inr None | Some r \<Rightarrow> rmap Some (record_of r))"

definition list_jobs :: "bool \<Rightarrow> store \<Rightarrow> job_record list result" where
  "list_jobs include_finished st = traverse record_of
     (if include_finished then jobs st
      else filter (\<lambda>r. state r \<in> {QUEUED, RUNNING, PREEMPTING}) (jobs st))"

definition queued_of :: "int \<Rightarrow> job_row \<Rightarrow> queued_job result" where
  "queued_of dflt_ram r = rmap (\<lambda>s. \<lparr>qj_job_id = jid r, qj_priority = priority r,
       qj_submitted_at = submitted_at r, qj_gpu_mem = gpu_mem s,
       qj_ram = (if ram s = 0 then dflt_ram else ram s), qj_gpu_models = gpu_models s\<rparr>)
     (from_json (spec_doc r))"

definition queued :: "int \<Rightarrow> store \<Rightarrow> queued_job list result" where
  "queued dflt_ram st = traverse (queued_of dflt_ram) (filter (\<lambda>r. state r = QUEUED) (jobs st))"

definition is_active :: "job_row \<Rightarrow> bool" where
  "is_active r = (state r \<in> {RUNNING, PREEMPTING} \<or>
     state r = CANCELLED \<and> container r \<noteq> None \<and> finished_at r = None)"

text \<open>A NULL column is the empty text here; the rows this is applied to have none.\<close>

definition or_empty :: "string option \<Rightarrow> string" where
  "or_empty x = (case x of None \<Rightarrow> [] | Some s \<Rightarrow> s)"

definition spot_of :: "job_row \<Rightarrow> running_spot" where
  "spot_of r = \<lparr>rs_job_id = jid r, rs_gpu_uuid = or_empty (gpu_uuid r), rs_container = or_empty (container r),
     reclaiming = (state r \<noteq> RUNNING)\<rparr>"

definition active :: "store \<Rightarrow> running_spot list" where
  "active st = map spot_of (filter is_active (jobs st))"

section \<open>Transitions\<close>

definition update_row :: "int \<Rightarrow> (job_row \<Rightarrow> job_row) \<Rightarrow> store \<Rightarrow> store" where
  "update_row i f st = st\<lparr>jobs := map (\<lambda>r. if jid r = i then f r else r) (jobs st)\<rparr>"

definition mark_running :: "int \<Rightarrow> string \<Rightarrow> string \<Rightarrow> rat \<Rightarrow> store \<Rightarrow> int result \<times> store" where
  "mark_running i gpu cont now st = (case row_of st i of
     None \<Rightarrow> (Inl (ValueError (''job '' @ int_str i @ '' is not queued'')), st)
   | Some row \<Rightarrow> if state row \<noteq> QUEUED then (Inl (ValueError (''job '' @ int_str i @ '' is not queued'')), st)
       else (let att = attempts row + 1;
                 st' = update_row i (\<lambda>r. r\<lparr>state := RUNNING, attempts := att, gpu_uuid := Some gpu,
                         container := Some cont, started_at := Some now, reason := None\<rparr>) st
             in (Inr att, st'\<lparr>runs := runs st' @ [\<lparr>run_job = i, run_attempt = att, run_gpu = gpu,
                  run_container = cont, run_started = now, run_finished = None, outcome = None\<rparr>]\<rparr>)))"

definition next_attempt :: "store \<Rightarrow> int \<Rightarrow> int result" where
  "next_attempt st i = (case row_of st i of
     None \<Rightarrow> Inl (TypeError (repr_str ''NoneType'' @ '' object is not subscriptable''))
   | Some r \<Rightarrow> Inr (attempts r + 1))"

definition mark_preempting :: "int \<Rightarrow> string \<Rightarrow> store \<Rightarrow> store" where
  "mark_preempting i why = update_row i (\<lambda>r. if state r = RUNNING
     then r\<lparr>state := PREEMPTING, reason := Some why\<rparr> else r)"

definition fail_job :: "int \<Rightarrow> string \<Rightarrow> rat \<Rightarrow> store \<Rightarrow> store" where
  "fail_job i why now = update_row i (\<lambda>r. r\<lparr>state := FAILED, reason := Some why, finished_at := Some now\<rparr>)"

definition opt_text :: "string option \<Rightarrow> string" where
  "opt_text x = (case x of None \<Rightarrow> ''None'' | Some s \<Rightarrow> s)"

definition end_state :: "job_row \<Rightarrow> int option \<Rightarrow> int \<Rightarrow> bool \<Rightarrow> job_state \<times> string" where
  "end_state row ec max_att vanished =
     (if state row = CANCELLED then (CANCELLED, ''cancelled'')
      else if state row = PREEMPTING \<or> vanished
      then (if max_att \<le> attempts row then FAILED else QUEUED, ''preempted'')
      else if ec = Some 0 then (SUCCEEDED, ''succeeded'') else (FAILED, ''failed''))"

definition end_reason :: "job_row \<Rightarrow> int option \<Rightarrow> job_state \<Rightarrow> string \<Rightarrow> bool \<Rightarrow> string option" where
  "end_reason row ec new_state out preempted =
     (if new_state = FAILED \<and> preempted
      then Some (''gave up after '' @ int_str (attempts row) @ '' attempts (last: '' @ opt_text (reason row) @ '')'')
      else if out = ''failed'' then Some (''exited with code '' @ opt_text (map_option int_str ec))
      else reason row)"

definition close_run :: "int \<Rightarrow> int \<Rightarrow> rat \<Rightarrow> string \<Rightarrow> run_row \<Rightarrow> run_row" where
  "close_run i att now out r = (if run_job r = i \<and> run_attempt r = att \<and> run_finished r = None
     then r\<lparr>run_finished := Some now, outcome := Some out\<rparr> else r)"

definition finish :: "int \<Rightarrow> int option \<Rightarrow> int \<Rightarrow> bool \<Rightarrow> rat \<Rightarrow> store \<Rightarrow> job_state result \<times> store" where
  "finish i ec max_att vanished now st = (case row_of st i of
     None \<Rightarrow> (Inl (ValueError (''no job '' @ int_str i)), st)
   | Some row \<Rightarrow>
       (let preempted = (state row = PREEMPTING \<or> vanished);
            (new_state, out) = end_state row ec max_att vanished;
            why = end_reason row ec new_state out preempted;
            st' = update_row i (\<lambda>r. r\<lparr>state := new_state, exit_code := ec,
                    preemptions := preemptions r + (if preempted then 1 else 0),
                    finished_at := (if new_state = QUEUED then None else Some now), reason := why,
                    gpu_uuid := (if new_state = QUEUED then None else gpu_uuid r),
                    container := (if new_state = QUEUED then None else container r)\<rparr>) st
        in (Inr new_state, st'\<lparr>runs := map (close_run i (attempts row) now out) (runs st')\<rparr>)))"

definition cancel :: "int \<Rightarrow> rat \<Rightarrow> store \<Rightarrow> string option result \<times> store" where
  "cancel i now st = (case row_of st i of
     None \<Rightarrow> (Inl (ValueError (''no job '' @ int_str i)), st)
   | Some row \<Rightarrow>
       if state row \<notin> {QUEUED, RUNNING, PREEMPTING}
       then (Inl (ValueError (''job '' @ int_str i @ '' is already '' @ state_text (state row))), st)
       else (Inr (if state row \<in> {RUNNING, PREEMPTING} then container row else None),
             update_row i (\<lambda>r. r\<lparr>state := CANCELLED, reason := Some ''cancelled by user'',
               finished_at := (if state row = QUEUED then Some now else finished_at r)\<rparr>) st))"

section \<open>Settings\<close>

definition paused :: "store \<Rightarrow> bool \<times> string set" where
  "paused st = (paused_node st = Some ''1'', case paused_gpus st of None \<Rightarrow> {} | Some gs \<Rightarrow> set gs)"

definition set_paused :: "bool \<Rightarrow> string option \<Rightarrow> store \<Rightarrow> store" where
  "set_paused p gpu st = (case gpu of
     None \<Rightarrow> st\<lparr>paused_node := Some (if p then ''1'' else ''0'')\<rparr>
   | Some g \<Rightarrow> (let gpus = (case paused_gpus st of None \<Rightarrow> {} | Some gs \<Rightarrow> set gs);
                    gpus' = (if p then insert g gpus else gpus - {g})
                in st\<lparr>paused_gpus := Some (sorted_list_of_set gpus')\<rparr>))"

section \<open>Atomicity\<close>

lemma transactions_atomic:
  "in_tx (submit s u g now) = submit s u g now"
  "in_tx (mark_running i gpu cont now) = mark_running i gpu cont now"
  "in_tx (finish i ec m v now) = finish i ec m v now"
  "in_tx (cancel i now) = cancel i now"
  by (auto simp: fun_eq_iff in_tx_def submit_def mark_running_def finish_def cancel_def Let_def split_beta
      split: option.splits)

end
