(* ===== verification/Store_Machine.thy ===== *)
theory Store_Machine imports Jobs begin

text \<open>
  The job store as a state machine: the transactions its callers make, with the guards
  under which they make them, the invariant every transaction keeps, and what follows for
  whole histories. The command line submits, cancels, pauses and resumes; the controller
  marks jobs running and preempted, fails jobs it could not launch, and finishes jobs it
  found in \<open>active\<close>.
\<close>

datatype store_event =
    Submit job_spec int int rat
  | Cancel int rat
  | SetPaused bool "string option"
  | MarkRunning int string string rat
  | MarkPreempting int string
  | FailLaunch int string rat
  | Finish int "int option" bool rat

text \<open>A job the controller fails was queued when it was read; at worst it was cancelled since.\<close>

definition never_started :: "job_row \<Rightarrow> bool" where
  "never_started r = (state r = QUEUED \<or> state r = CANCELLED \<and> container r = None)"

definition row_sat :: "store \<Rightarrow> int \<Rightarrow> (job_row \<Rightarrow> bool) \<Rightarrow> bool" where
  "row_sat st i P = (case row_of st i of None \<Rightarrow> False | Some r \<Rightarrow> P r)"

fun store_step :: "int \<Rightarrow> store_event \<Rightarrow> store \<Rightarrow> store" where
  "store_step m (Submit s u g now) st = snd (submit s u g now st)"
| "store_step m (Cancel i now) st = snd (cancel i now st)"
| "store_step m (SetPaused p gpu) st = set_paused p gpu st"
| "store_step m (MarkRunning i gpu cont now) st = snd (mark_running i gpu cont now st)"
| "store_step m (MarkPreempting i why) st = mark_preempting i why st"
| "store_step m (FailLaunch i why now) st = (if row_sat st i never_started then fail_job i why now st else st)"
| "store_step m (Finish i ec vanished now) st =
     (if row_sat st i is_active then snd (finish i ec m vanished now st) else st)"

section \<open>The invariant\<close>

text \<open>Of one row, where \<open>m\<close> is \<open>max_attempts\<close>: a running or stopping job has a GPU, a
  container and a run to show for it and is not finished, a queued one has none of the
  first two, a finished one has its time; every preemption ended a run; and only a job
  that may run again is queued.\<close>

definition row_inv :: "int \<Rightarrow> job_row \<Rightarrow> bool" where
  "row_inv m r = (
     (\<exists>s. spec_doc r = to_json s) \<and> 0 \<le> preemptions r \<and> preemptions r \<le> attempts r \<and>
     attempts r \<le> max 1 m \<and>
     (gpu_uuid r = None \<longleftrightarrow> container r = None) \<and>
     (is_active r \<longrightarrow> container r \<noteq> None \<and> finished_at r = None \<and> started_at r \<noteq> None \<and> preemptions r < attempts r) \<and>
     (state r = QUEUED \<longrightarrow> container r = None \<and> finished_at r = None \<and> (attempts r = 0 \<or> attempts r < m)) \<and>
     (state r \<in> {SUCCEEDED, FAILED} \<longrightarrow> finished_at r \<noteq> None) \<and>
     (state r = CANCELLED \<and> container r = None \<longrightarrow> finished_at r \<noteq> None))"

text \<open>The runs of a job are numbered from one to its attempts, in order; the last one of an
  active job is unfinished and names the job's GPU and container, all others are finished.\<close>

definition runs_of :: "store \<Rightarrow> int \<Rightarrow> run_row list" where
  "runs_of st i = filter (\<lambda>r. run_job r = i) (runs st)"

definition runs_inv :: "store \<Rightarrow> job_row \<Rightarrow> bool" where
  "runs_inv st r = (map run_attempt (runs_of st (jid r)) = [1..attempts r] \<and>
     (\<forall>q \<in> set (runs_of st (jid r)). (run_finished q = None \<longleftrightarrow> is_active r \<and> run_attempt q = attempts r) \<and>
        (run_finished q = None \<longrightarrow> gpu_uuid r = Some (run_gpu q) \<and> container r = Some (run_container q))))"

definition store_inv :: "int \<Rightarrow> store \<Rightarrow> bool" where
  "store_inv m st = (sorted_wrt (<) (map jid (jobs st)) \<and> (\<forall>r \<in> set (jobs st). 0 < jid r \<and> jid r < next_id st) \<and>
     0 < next_id st \<and> (\<forall>r \<in> set (jobs st). row_inv m r \<and> runs_inv st r) \<and>
     (\<forall>q \<in> set (runs st). run_job q < next_id st))"

lemma store_invD:
  assumes "store_inv m st"
  shows "distinct (map jid (jobs st))" "r \<in> set (jobs st) \<Longrightarrow> row_inv m r" "r \<in> set (jobs st) \<Longrightarrow> runs_inv st r"
    "r \<in> set (jobs st) \<Longrightarrow> jid r < next_id st"
  using assms by (auto simp: store_inv_def strict_sorted_iff)

lemma row_of_Some: "row_of st i = Some r \<Longrightarrow> r \<in> set (jobs st) \<and> jid r = i"
  by (auto simp: row_of_def dest: find_Some_in)

lemma row_of_unique: "distinct (map jid (jobs st)) \<Longrightarrow> r \<in> set (jobs st) \<Longrightarrow> row_of st (jid r) = Some r"
proof (cases "row_of st (jid r)")
  case None
  then show ?thesis if "r \<in> set (jobs st)" using that by (auto simp: row_of_def find_None_iff)
next
  case (Some q)
  assume "distinct (map jid (jobs st))" "r \<in> set (jobs st)"
  then show ?thesis using row_of_Some [OF Some] Some by (metis distinct_map inj_onD)
qed

section \<open>Steps on one row\<close>

text \<open>A transaction that rewrites one row and leaves its identifier, with a change to the runs
  of that job only, keeps the invariant when it keeps that row's part of it.\<close>

definition same_other_runs :: "int \<Rightarrow> store \<Rightarrow> store \<Rightarrow> bool" where
  "same_other_runs i st st' = (\<forall>k. k \<noteq> i \<longrightarrow> runs_of st' k = runs_of st k)"

lemma update_row_jobs [simp]: "jobs (update_row i f st) = map (\<lambda>r. if jid r = i then f r else r) (jobs st)"
  "runs (update_row i f st) = runs st" "next_id (update_row i f st) = next_id st"
  "runs_of (update_row i f st) k = runs_of st k"
  by (simp_all add: update_row_def runs_of_def)

lemma store_inv_update:
  assumes inv: "store_inv m st" and row: "row_of st i = Some r"
    and jobs': "jobs st' = map (\<lambda>r. if jid r = i then f r else r) (jobs st)" and next': "next_id st' = next_id st"
    and id: "jid (f r) = jid r" and runs': "same_other_runs i st st'" and ids: "\<forall>q \<in> set (runs st'). run_job q < next_id st'"
    and keep: "row_inv m (f r)" "runs_inv st' (f r)"
  shows "store_inv m st'"
proof -
  from row have r: "r \<in> set (jobs st)" "jid r = i" by (auto dest: row_of_Some)
  have uniq: "q = r" if "q \<in> set (jobs st)" "jid q = i" for q
    using store_invD(1) [OF inv] that r by (metis distinct_map inj_onD)
  then have "map jid (jobs st') = map jid (jobs st)" using id by (auto simp: jobs')
  moreover have "row_inv m q \<and> runs_inv st' q \<and> 0 < jid q \<and> jid q < next_id st'" if q: "q \<in> set (jobs st')" for q
  proof -
    from q obtain p where p: "p \<in> set (jobs st)" "q = (if jid p = i then f p else p)" by (auto simp: jobs')
    show ?thesis
    proof (cases "jid p = i")
      case True
      then have "q = f r" using p uniq by auto
      then show ?thesis using keep id r inv next' by (auto simp: store_inv_def)
    next
      case False
      then have "runs_of st' (jid p) = runs_of st (jid p)" using runs' by (simp add: same_other_runs_def)
      then show ?thesis using False p inv next' by (auto simp: store_inv_def runs_inv_def)
    qed
  qed
  ultimately show ?thesis using inv next' ids by (auto simp: store_inv_def)
qed

lemma inv_run_ids: "store_inv m st \<Longrightarrow> \<forall>q \<in> set (runs st). run_job q < next_id st"
  by (simp add: store_inv_def)

section \<open>Every transaction keeps the invariant\<close>

definition new_row :: "job_spec \<Rightarrow> int \<Rightarrow> int \<Rightarrow> rat \<Rightarrow> int \<Rightarrow> job_row" where
  "new_row s u g now i = \<lparr>jid = i, job_name = js_name s, uid = u, gid = g, spec_doc = to_json s,
     priority = js_priority s, state = QUEUED, attempts = 0, preemptions = 0, gpu_uuid = None,
     container = None, submitted_at = now, started_at = None, finished_at = None, exit_code = None,
     reason = None\<rparr>"

lemma submit_eq: "submit s u g now st = (if sql_int u \<and> sql_int g \<and> sql_int (js_priority s)
    then (Inr (next_id st), st\<lparr>jobs := jobs st @ [new_row s u g now (next_id st)], next_id := next_id st + 1\<rparr>)
    else (Inl (OverflowError ''Python int too large to convert to SQLite INTEGER''), st))"
  by (simp add: submit_def new_row_def)

lemma new_row_inv: "row_inv m (new_row s u g now i)"
  by (auto simp: row_inv_def new_row_def is_active_def)

lemma submit_inv [step_intros]: "store_inv m st \<Longrightarrow> store_inv m (snd (submit s u g now st))"
proof (cases "sql_int u \<and> sql_int g \<and> sql_int (js_priority s)")
  case True
  assume inv: "store_inv m st"
  let ?r = "new_row s u g now (next_id st)" and ?st = "snd (submit s u g now st)"
  have st: "jobs ?st = jobs st @ [?r]" "runs ?st = runs st" "next_id ?st = next_id st + 1"
    using True by (simp_all add: submit_eq)
  have r: "jid ?r = next_id st" by (simp add: new_row_def)
  have runs: "runs_of ?st k = runs_of st k" for k by (simp add: st(2) runs_of_def)
  have "runs_of st (next_id st) = []" using inv by (force simp: store_inv_def runs_of_def filter_empty_conv)
  then have new: "runs_inv ?st ?r" by (simp add: runs_inv_def runs r) (simp add: new_row_def)
  have old: "runs_inv ?st q = runs_inv st q" for q by (simp add: runs_inv_def runs)
  have "\<forall>q \<in> set (jobs ?st). row_inv m q \<and> runs_inv ?st q"
    using inv new new_row_inv by (auto simp: st(1) old store_inv_def)
  moreover have "sorted_wrt (<) (map jid (jobs ?st))" "\<forall>q \<in> set (jobs ?st). 0 < jid q \<and> jid q < next_id ?st"
    "0 < next_id ?st" "\<forall>q \<in> set (runs ?st). run_job q < next_id ?st"
    using inv by (auto simp: store_inv_def st r sorted_wrt_append)
  ultimately show ?thesis by (simp add: store_inv_def)
qed (simp add: submit_def)

lemma upto_snoc: "0 \<le> a \<Longrightarrow> [1..a + 1] = [1..a] @ [a + 1]" for a :: int
  by (simp add: upto_rec2)

lemma mark_running_inv [step_intros]: "store_inv m st \<Longrightarrow> store_inv m (snd (mark_running i gpu cont now st))"
proof (cases "row_sat st i (\<lambda>r. state r = QUEUED)")
  case False
  then show "store_inv m st \<Longrightarrow> ?thesis" by (auto simp: mark_running_def row_sat_def split: option.splits)
next
  case True
  assume inv: "store_inv m st"
  from True obtain r where r: "row_of st i = Some r" "state r = QUEUED" by (auto simp: row_sat_def split: option.splits)
  from row_of_Some [OF r(1)] have mem: "r \<in> set (jobs st)" and i: "jid r = i" by simp_all
  note ri = store_invD(2) [OF inv mem] and rr = store_invD(3) [OF inv mem]
  let ?att = "attempts r + 1" and ?st = "snd (mark_running i gpu cont now st)"
  let ?f = "\<lambda>q. q\<lparr>state := RUNNING, attempts := ?att, gpu_uuid := Some gpu, container := Some cont,
    started_at := Some now, reason := None\<rparr>"
  let ?q = "\<lparr>run_job = i, run_attempt = ?att, run_gpu = gpu, run_container = cont, run_started = now,
    run_finished = None, outcome = None\<rparr> :: run_row"
  have st: "jobs ?st = map (\<lambda>q. if jid q = i then ?f q else q) (jobs st)" "runs ?st = runs st @ [?q]"
    "next_id ?st = next_id st" using r by (simp_all add: mark_running_def Let_def)
  have old: "\<forall>q \<in> set (runs_of st i). run_attempt q \<le> attempts r \<and> run_finished q \<noteq> None"
  proof -
    have "run_attempt q \<in> set [1..attempts r]" if "q \<in> set (runs_of st i)" for q
      using rr that i by (metis image_eqI list.set_map runs_inv_def)
    moreover have "\<not> is_active r" using r(2) by (simp add: is_active_def)
    ultimately show ?thesis using rr i by (auto simp: runs_inv_def)
  qed
  have new: "runs_of ?st i = runs_of st i @ [?q]" by (simp add: runs_of_def st(2))
  have "row_inv m (?f r)" using ri r(2) by (auto simp: row_inv_def is_active_def simp del: not_None_eq)
  moreover have "runs_inv ?st (?f r)"
  proof -
    have a: "0 \<le> attempts r" using ri by (auto simp: row_inv_def)
    have "map run_attempt (runs_of st i) = [1..attempts r]" using rr i by (simp add: runs_inv_def)
    then have "map run_attempt (runs_of ?st i) = [1..?att]" using upto_snoc [OF a] by (simp add: new)
    moreover have "\<forall>q \<in> set (runs_of ?st i). (run_finished q = None \<longleftrightarrow> run_attempt q = ?att) \<and>
        (run_finished q = None \<longrightarrow> run_gpu q = gpu \<and> run_container q = cont)"
      using old unfolding new by fastforce
    moreover have "is_active (?f r)" by (simp add: is_active_def)
    ultimately show ?thesis using i by (simp add: runs_inv_def)
  qed
  ultimately show ?thesis
    using store_inv_update [OF inv r(1) st(1) st(3)] inv_run_ids [OF inv] store_invD(4) [OF inv mem] i
    by (auto simp: same_other_runs_def runs_of_def st(2,3))
qed

lemma update_inv:
  assumes "store_inv m st" "row_of st i = Some r" "jid (f r) = jid r" "attempts (f r) = attempts r"
    "is_active (f r) = is_active r" "row_inv m r \<Longrightarrow> row_inv m (f r)"
    "gpu_uuid (f r) = gpu_uuid r" "container (f r) = container r"
  shows "store_inv m (update_row i f st)"
proof (rule store_inv_update [OF assms(1,2), where f = f])
  have r: "r \<in> set (jobs st)" using row_of_Some [OF assms(2)] by simp
  show "row_inv m (f r)" using assms(6) store_invD(2) [OF assms(1) r] by blast
  show "runs_inv (update_row i f st) (f r)"
    using store_invD(3) [OF assms(1) r] assms(3,4,5,7,8) by (auto simp: runs_inv_def)
  show "jobs (update_row i f st) = map (\<lambda>r. if jid r = i then f r else r) (jobs st)" by simp
  show "\<forall>q \<in> set (runs (update_row i f st)). run_job q < next_id (update_row i f st)"
    using inv_run_ids [OF assms(1)] by simp
qed (simp_all add: assms(3) same_other_runs_def)

lemma update_row_absent: "row_of st i = None \<Longrightarrow> update_row i f st = st"
proof -
  assume "row_of st i = None"
  then have "map (\<lambda>r. if jid r = i then f r else r) (jobs st) = jobs st"
    by (intro map_idI) (auto simp: row_of_def find_None_iff)
  then show ?thesis by (simp add: update_row_def)
qed

lemma mark_preempting_inv [step_intros]: "store_inv m st \<Longrightarrow> store_inv m (mark_preempting i why st)"
proof (cases "row_of st i")
  case (Some r)
  assume inv: "store_inv m st"
  show ?thesis unfolding mark_preempting_def
    by (rule update_inv [OF inv Some]) (auto simp: row_inv_def is_active_def)
qed (simp add: mark_preempting_def update_row_absent)

lemma fail_inv: "store_inv m st \<Longrightarrow> row_sat st i never_started \<Longrightarrow> store_inv m (fail_job i why now st)"
proof (cases "row_of st i")
  case (Some r)
  assume inv: "store_inv m st" and "row_sat st i never_started"
  then have "never_started r" using Some by (simp add: row_sat_def)
  then show ?thesis unfolding fail_job_def
    by (intro update_inv [OF inv Some]) (auto simp: row_inv_def is_active_def never_started_def)
qed (simp add: row_sat_def)

lemma cancel_inv [step_intros]: "store_inv m st \<Longrightarrow> store_inv m (snd (cancel i now st))"
proof (cases "row_of st i")
  case (Some r)
  assume inv: "store_inv m st"
  show ?thesis
  proof (cases "state r \<in> {QUEUED, RUNNING, PREEMPTING}")
    case True
    have ri: "row_inv m r" using store_invD(2) [OF inv] row_of_Some [OF Some] by blast
    let ?f = "\<lambda>q. q\<lparr>state := CANCELLED, reason := Some ''cancelled by user'',
        finished_at := (if state r = QUEUED then Some now else finished_at q)\<rparr>"
    have act: "is_active (?f r) = is_active r"
    proof (cases "state r = QUEUED")
      case False
      then have "is_active r" using True by (auto simp: is_active_def)
      moreover from this have "container r \<noteq> None" "finished_at r = None" using ri unfolding row_inv_def by blast+
      ultimately show ?thesis using False by (simp add: is_active_def)
    qed (simp add: is_active_def)
    have keep: "row_inv m (?f r)"
    proof (cases "state r = QUEUED")
      case True
      then show ?thesis using ri by (simp add: row_inv_def is_active_def)
    next
      case False
      then have "is_active r" using True by (auto simp: is_active_def)
      then show ?thesis using ri act False by (simp add: row_inv_def)
    qed
    have "store_inv m (update_row i ?f st)"
      by (rule update_inv [OF inv Some, where f = ?f]) (use act keep in simp_all)
    then show ?thesis using True Some by (simp add: cancel_def)
  qed (use inv Some in \<open>auto simp: cancel_def\<close>)
qed (simp add: cancel_def)

lemma set_paused_inv [step_intros]: "store_inv m st \<Longrightarrow> store_inv m (set_paused p gpu st)"
  by (auto simp: set_paused_def store_inv_def runs_inv_def runs_of_def Let_def split: option.splits)

lemma end_state_cases: "fst (end_state r ec m v) \<in> {CANCELLED, FAILED, QUEUED, SUCCEEDED}"
  "fst (end_state r ec m v) = QUEUED \<Longrightarrow> attempts r < m \<and> state r \<noteq> CANCELLED \<and> (state r = PREEMPTING \<or> v)"
  "fst (end_state r ec m v) = CANCELLED \<longleftrightarrow> state r = CANCELLED"
  by (auto simp: end_state_def split: if_splits)

lemma finish_inv: "store_inv m st \<Longrightarrow> row_sat st i is_active \<Longrightarrow> store_inv m (snd (finish i ec m v now st))"
proof (cases "row_of st i")
  case (Some r)
  assume inv: "store_inv m st" and "row_sat st i is_active"
  then have act: "is_active r" using Some by (simp add: row_sat_def)
  from row_of_Some [OF Some] have mem: "r \<in> set (jobs st)" and i: "jid r = i" by simp_all
  note ri = store_invD(2) [OF inv mem] and rr = store_invD(3) [OF inv mem]
  obtain ns out where e: "end_state r ec m v = (ns, out)" by (cases "end_state r ec m v")
  let ?why = "end_reason r ec ns out (state r = PREEMPTING \<or> v)"
  let ?f = "\<lambda>q. q\<lparr>state := ns, exit_code := ec, preemptions := preemptions q + (if state r = PREEMPTING \<or> v then 1 else 0),
      finished_at := (if ns = QUEUED then None else Some now), reason := ?why,
      gpu_uuid := (if ns = QUEUED then None else gpu_uuid q), container := (if ns = QUEUED then None else container q)\<rparr>"
  let ?st = "snd (finish i ec m v now st)"
  have st: "jobs ?st = map (\<lambda>q. if jid q = i then ?f q else q) (jobs st)"
    "runs ?st = map (close_run i (attempts r) now out) (runs st)" "next_id ?st = next_id st"
    using Some e by (simp_all add: finish_def Let_def)
  have job [simp]: "run_job (close_run i (attempts r) now out q) = run_job q"
    "run_attempt (close_run i (attempts r) now out q) = run_attempt q" for q by (simp_all add: close_run_def)
  have runs: "runs_of ?st k = map (close_run i (attempts r) now out) (runs_of st k)" for k
    by (simp add: runs_of_def st(2) filter_map comp_def)
  have "runs_of ?st k = runs_of st k" if "k \<noteq> i" for k
    unfolding runs using that by (intro map_idI) (auto simp: runs_of_def close_run_def)
  then have other: "same_other_runs i st ?st" by (simp add: same_other_runs_def)
  have inact: "\<not> is_active (?f r)" using end_state_cases(1) [of r ec m v] e by (auto simp: is_active_def)
  have "row_inv m (?f r)"
    using ri act end_state_cases [of r ec m v] e inact by (auto simp: row_inv_def)
  moreover have "runs_inv ?st (?f r)"
  proof -
    have "run_finished (close_run i (attempts r) now out q) \<noteq> None" if "q \<in> set (runs_of st i)" for q
      using rr act i that by (auto simp: runs_inv_def close_run_def runs_of_def)
    then have closed: "\<forall>q \<in> set (runs_of ?st i). run_finished q \<noteq> None" by (auto simp: runs)
    have "map run_attempt (runs_of ?st i) = [1..attempts r]" using rr i by (simp add: runs_inv_def runs comp_def)
    moreover have "jid (?f r) = i" "attempts (?f r) = attempts r" using i by simp_all
    ultimately show ?thesis using closed inact unfolding runs_inv_def by metis
  qed
  ultimately show ?thesis
    using store_inv_update [OF inv Some st(1) st(3) _ other] inv_run_ids [OF inv] by (auto simp: st(2,3))
qed (simp add: row_sat_def)

lemma store_step_inv: "store_inv m st \<Longrightarrow> store_inv m (store_step m e st)"
  by (cases e) (auto intro: step_intros fail_inv finish_inv)

lemma empty_store_inv: "store_inv m empty_store"
  by (simp add: store_inv_def empty_store_def)

interpretation sm: invariant_machine "\<lambda>st. st = empty_store" "store_step m" "store_inv m" for m
  by unfold_locales (auto simp: empty_store_inv store_step_inv)

section \<open>Histories\<close>

lemma active_iff: "sp \<in> set (active st) \<longleftrightarrow> (\<exists>r \<in> set (jobs st). is_active r \<and> sp = spot_of r)"
  by (auto simp: active_def)

text \<open>C17: the store never loses sight of a container. After any transactions in any order, the
  jobs \<open>active\<close> reports are exactly the runs that are not closed, each with the GPU and the
  container it was started with; every job's runs are numbered from 1 to its attempts; no
  job has been started more than \<open>max_attempts\<close> times (once, if that is smaller than one);
  and a queued job holds neither GPU nor container.\<close>

theorem store_invariant:
  assumes "st = fold (store_step m) es empty_store"
  shows "(\<lambda>sp. (rs_job_id sp, Some (rs_gpu_uuid sp), Some (rs_container sp))) ` set (active st) =
      (\<lambda>q. (run_job q, Some (run_gpu q), Some (run_container q))) ` {q \<in> set (runs st). run_finished q = None \<and>
        run_job q \<in> jid ` set (jobs st)} \<and>
    distinct (map jid (jobs st)) \<and>
    (\<forall>r \<in> set (jobs st). map run_attempt (filter (\<lambda>q. run_job q = jid r) (runs st)) = [1..attempts r] \<and>
       attempts r \<le> max 1 m \<and> preemptions r \<le> attempts r \<and>
       (state r = QUEUED \<longrightarrow> gpu_uuid r = None \<and> container r = None \<and> (attempts r = 0 \<or> attempts r < m)))"
proof -
  have inv: "store_inv m st" unfolding assms by (rule sm.inv_reachable) simp
  have rows: "row_inv m r" "runs_inv st r" if "r \<in> set (jobs st)" for r using store_invD(2,3) [OF inv that] .
  have "\<exists>q \<in> set (runs st). run_finished q = None \<and> run_job q = jid r \<and>
      gpu_uuid r = Some (run_gpu q) \<and> container r = Some (run_container q)" if r: "r \<in> set (jobs st)" "is_active r" for r
  proof -
    have "0 < attempts r" using rows(1) [OF r(1)] r(2) by (auto simp: row_inv_def)
    then have "attempts r \<in> set [1..attempts r]" by simp
    then have "attempts r \<in> run_attempt ` set (runs_of st (jid r))"
      using rows(2) [OF r(1)] by (metis list.set_map runs_inv_def)
    then obtain q where "q \<in> set (runs_of st (jid r))" "run_attempt q = attempts r" by auto
    then show ?thesis using rows(2) [OF r(1)] r(2) by (auto simp: runs_inv_def runs_of_def)
  qed
  moreover have "is_active r \<and> gpu_uuid r = Some (run_gpu q) \<and> container r = Some (run_container q)"
    if "r \<in> set (jobs st)" "q \<in> set (runs st)" "run_finished q = None" "run_job q = jid r" for r q
    using rows(2) [OF that(1)] that by (auto simp: runs_inv_def runs_of_def)
  ultimately have "(\<lambda>sp. (rs_job_id sp, Some (rs_gpu_uuid sp), Some (rs_container sp))) ` set (active st) =
      (\<lambda>q. (run_job q, Some (run_gpu q), Some (run_container q))) ` {q \<in> set (runs st). run_finished q = None \<and>
        run_job q \<in> jid ` set (jobs st)}"
    by (auto simp: active_def spot_of_def or_empty_def image_iff) (fastforce, metis option.simps(5))
  then show ?thesis
    using store_invD(1) [OF inv] rows by (auto simp: row_inv_def runs_inv_def runs_of_def)
qed

text \<open>A job of \<open>demo_spec\<close> that is submitted and started.\<close>

definition demo_events :: "store_event list" where
  "demo_events = [Submit demo_spec 1000 1000 0, MarkRunning 1 ''GPU-a'' ''c1'' 5]"

lemma demo_store: "let st = fold (store_step 20) demo_events empty_store in
    map (\<lambda>sp. (rs_job_id sp, rs_gpu_uuid sp, rs_container sp)) (active st) = [(1, ''GPU-a'', ''c1'')] \<and>
    map (\<lambda>r. (state r, attempts r)) (jobs st) = [(RUNNING, 1)]"
  by code_simp

theorem store_invariant_witness:
  "distinct (map jid (jobs (fold (store_step 20) demo_events empty_store))) \<and>
   map (\<lambda>r. (state r, attempts r)) (jobs (fold (store_step 20) demo_events empty_store)) = [(RUNNING, 1)]"
  using store_invariant [OF refl, of 20 demo_events] demo_store by (simp add: Let_def)

text \<open>The state machine of the specification (SPEC 2.7, with the failed launch of 2.6 and the
  vanished container of 2.10), for a job of \<open>n\<close> attempts of which \<open>m\<close> are allowed.\<close>

inductive job_trans :: "int \<Rightarrow> int \<Rightarrow> job_state \<Rightarrow> job_state \<Rightarrow> bool" for m n where
  start: "job_trans m n QUEUED RUNNING"
| launch_failed: "job_trans m n QUEUED FAILED"
| succeeded: "job_trans m n RUNNING SUCCEEDED"
| failed: "job_trans m n RUNNING FAILED"
| reclaimed: "job_trans m n RUNNING PREEMPTING"
| requeued: "n < m \<Longrightarrow> s \<in> {PREEMPTING, RUNNING} \<Longrightarrow> job_trans m n s QUEUED"
| gave_up: "m \<le> n \<Longrightarrow> job_trans m n PREEMPTING FAILED"
| cancelled: "s \<in> {QUEUED, RUNNING} \<Longrightarrow> job_trans m n s CANCELLED"

inductive_simps job_trans_final: "job_trans m n SUCCEEDED s" "job_trans m n FAILED s" "job_trans m n CANCELLED s"

text \<open>The two ways in which the code leaves that machine. \<open>cancel\<close> also takes a job that is being
  reclaimed, and \<open>fail\<close> does not look at the state: a job that its user cancels while its
  launch is failing becomes \<open>FAILED\<close>.\<close>

fun off_machine :: "store_event \<Rightarrow> job_row \<Rightarrow> job_row \<Rightarrow> bool" where
  "off_machine (Cancel i now) r r' = (i = jid r \<and> state r = PREEMPTING \<and> state r' = CANCELLED)"
| "off_machine (FailLaunch i why now) r r' = (i = jid r \<and> state r = CANCELLED \<and> container r = None \<and> state r' = FAILED)"
| "off_machine e r r' = False"

text \<open>What a transaction may do to a row: what was submitted stays, the counters only grow, the
  attempts by one when the job is started; and a cancelled job whose container is gone is
  closed.\<close>

definition same_request :: "job_row \<Rightarrow> job_row \<Rightarrow> bool" where
  "same_request r r' = (jid r' = jid r \<and> spec_doc r' = spec_doc r \<and> uid r' = uid r \<and> gid r' = gid r \<and>
     priority r' = priority r \<and> submitted_at r' = submitted_at r)"

definition counters_grow :: "job_row \<Rightarrow> job_row \<Rightarrow> bool" where
  "counters_grow r r' = (preemptions r \<le> preemptions r' \<and>
     attempts r' = attempts r + (if state r = QUEUED \<and> state r' = RUNNING then 1 else 0))"

definition row_step :: "int \<Rightarrow> store_event \<Rightarrow> job_row \<Rightarrow> job_row \<Rightarrow> bool" where
  "row_step m e r r' = (r' = r \<or> same_request r r' \<and> counters_grow r r' \<and>
     (job_trans m (attempts r) (state r) (state r') \<or> off_machine e r r' \<or>
      state r = CANCELLED \<and> state r' = CANCELLED \<and> is_active r \<and> \<not> is_active r'))"

lemmas row_step_defs = row_step_def same_request_def counters_grow_def

lemma row_step_refl [simp]: "row_step m e r r"
  by (simp add: row_step_def)

lemma row_step_jid: "row_step m e r r' \<Longrightarrow> jid r' = jid r"
  by (auto simp: row_step_defs)

lemma update_row_steps:
  assumes "\<And>q. row_of st i = Some q \<Longrightarrow> row_step m e q (f q)" "distinct (map jid (jobs st))"
    "jobs st' = map (\<lambda>r. if jid r = i then f r else r) (jobs st) @ extra" "r \<in> set (jobs st)"
  shows "\<exists>r' \<in> set (jobs st'). row_step m e r r'"
proof (cases "jid r = i")
  case True
  then have "row_step m e r (f r)" using assms(1) row_of_unique [OF assms(2,4)] by simp
  moreover have "f r \<in> set (jobs st')" using True assms(3,4) by auto
  ultimately show ?thesis by blast
next
  case False
  then have "r \<in> set (jobs st')" using assms(3,4) by auto
  then show ?thesis by (intro bexI [of _ r]) simp_all
qed

lemma end_state_trans: "is_active r \<Longrightarrow> end_state r ec m v = (ns, out) \<Longrightarrow>
    job_trans m (attempts r) (state r) ns \<or> state r = CANCELLED \<and> ns = CANCELLED"
  by (auto simp: end_state_def is_active_def intro: job_trans.intros split: if_splits)

lemma end_state_not_running: "end_state r ec m v = (ns, out) \<Longrightarrow> ns \<noteq> RUNNING \<and> ns \<noteq> PREEMPTING"
  by (auto simp: end_state_def split: if_splits)

lemma finish_row_step:
  assumes "is_active r" "end_state r ec m v = (ns, out)"
  shows "row_step m e r (r\<lparr>state := ns, exit_code := ec, preemptions := preemptions r + (if state r = PREEMPTING \<or> v then 1 else 0),
      finished_at := (if ns = QUEUED then None else Some now), reason := why,
      gpu_uuid := (if ns = QUEUED then None else gpu_uuid r), container := (if ns = QUEUED then None else container r)\<rparr>)"
    (is "row_step m e r ?r'")
proof -
  have "same_request r ?r'" by (simp add: same_request_def)
  moreover have "counters_grow r ?r'" using end_state_not_running [OF assms(2)] by (simp add: counters_grow_def)
  moreover have "\<not> is_active ?r'" using end_state_not_running [OF assms(2)] by (auto simp: is_active_def)
  moreover have "state ?r' = ns" by simp
  ultimately show ?thesis using end_state_trans [OF assms] assms(1) unfolding row_step_def by metis
qed

lemma store_step_rows:
  assumes "distinct (map jid (jobs st))" "r \<in> set (jobs st)"
  shows "\<exists>r' \<in> set (jobs (store_step m e st)). row_step m e r r'"
proof -
  have same: "\<exists>r' \<in> set (jobs st). row_step m e r r'"
    using assms(2) by (intro bexI [of _ r]) simp_all
  show ?thesis
  proof (cases e)
    case (Submit s u g now)
    then show ?thesis using assms(2) by (intro bexI [of _ r]) (simp_all add: submit_eq)
  next
    case (SetPaused p gpu)
    moreover have "jobs (set_paused p gpu st) = jobs st" by (simp add: set_paused_def Let_def split: option.split)
    ultimately show ?thesis using same by simp
  next
    case (Cancel i now)
    show ?thesis
    proof (cases "row_of st i")
      case (Some q)
      show ?thesis
      proof (cases "state q \<in> {QUEUED, RUNNING, PREEMPTING}")
        case True
        then show ?thesis
          using Some Cancel
          by (intro update_row_steps [OF _ assms(1) _ assms(2), where extra = "[]" and i = i
              and f = "\<lambda>r. r\<lparr>state := CANCELLED, reason := Some ''cancelled by user'',
                finished_at := (if state q = QUEUED then Some now else finished_at r)\<rparr>"])
            (auto simp: cancel_def row_step_defs dest: row_of_Some intro: job_trans.cancelled)
      qed (use same Cancel Some in \<open>simp add: cancel_def\<close>)
    qed (use same Cancel in \<open>simp add: cancel_def\<close>)
  next
    case (MarkRunning i gpu cont now)
    show ?thesis
    proof (cases "row_sat st i (\<lambda>q. state q = QUEUED)")
      case True
      then obtain q where "row_of st i = Some q" "state q = QUEUED" by (auto simp: row_sat_def split: option.splits)
      then show ?thesis
        using MarkRunning
        by (intro update_row_steps [OF _ assms(1) _ assms(2), where extra = "[]" and i = i
            and f = "\<lambda>r. r\<lparr>state := RUNNING, attempts := attempts q + 1, gpu_uuid := Some gpu,
              container := Some cont, started_at := Some now, reason := None\<rparr>"])
          (auto simp: mark_running_def Let_def row_step_defs intro: job_trans.start)
    qed (use same MarkRunning in \<open>auto simp: mark_running_def row_sat_def split: option.splits\<close>)
  next
    case (MarkPreempting i why)
    then show ?thesis
      by (intro update_row_steps [OF _ assms(1) _ assms(2), where extra = "[]" and i = i
          and f = "\<lambda>r. if state r = RUNNING then r\<lparr>state := PREEMPTING, reason := Some why\<rparr> else r"])
        (auto simp: mark_preempting_def row_step_defs intro: job_trans.reclaimed)
  next
    case (FailLaunch i why now)
    show ?thesis
    proof (cases "row_sat st i never_started")
      case True
      then have "\<And>q. row_of st i = Some q \<Longrightarrow> never_started q" by (simp add: row_sat_def)
      then show ?thesis
        using FailLaunch True
        by (intro update_row_steps [OF _ assms(1) _ assms(2), where extra = "[]" and i = i
            and f = "\<lambda>r. r\<lparr>state := FAILED, reason := Some why, finished_at := Some now\<rparr>"])
          (auto simp: fail_job_def row_step_defs never_started_def dest: row_of_Some intro: job_trans.intros)
    qed (use same FailLaunch in simp)
  next
    case (Finish i ec v now)
    show ?thesis
    proof (cases "row_sat st i is_active")
      case True
      then obtain q where q: "row_of st i = Some q" "is_active q" by (auto simp: row_sat_def split: option.splits)
      obtain ns out where es: "end_state q ec m v = (ns, out)" by (cases "end_state q ec m v")
      let ?f = "\<lambda>r. r\<lparr>state := ns, exit_code := ec,
          preemptions := preemptions r + (if state q = PREEMPTING \<or> v then 1 else 0),
          finished_at := (if ns = QUEUED then None else Some now),
          reason := end_reason q ec ns out (state q = PREEMPTING \<or> v),
          gpu_uuid := (if ns = QUEUED then None else gpu_uuid r),
          container := (if ns = QUEUED then None else container r)\<rparr>"
      show ?thesis
      proof (rule update_row_steps [OF _ assms(1) _ assms(2), where extra = "[]" and i = i and f = ?f])
        fix q' assume "row_of st i = Some q'"
        then have "q' = q" using q(1) by simp
        then show "row_step m e q' (?f q')" by (simp only: finish_row_step [OF q(2) es])
      qed (use Finish True q(1) es in \<open>simp add: finish_def Let_def\<close>)
    qed (use same Finish in simp)
  qed
qed

text \<open>C18: the life of a job. Each transaction takes each job to itself or along one edge of the
  specification's state machine, back to the queue only while it has attempts left, with
  two exceptions that the code makes: cancelling a job that is being reclaimed, and failing
  the launch of one just cancelled. A cancelled job whose container is gone stays cancelled.
  The submitted data is unchanged, and the attempts are counted exactly when the job
  starts (the specification counts them when it is reclaimed). A job that succeeded or failed
  never changes again, whatever follows.\<close>

theorem job_lifecycle:
  assumes "r \<in> set (jobs (fold (store_step m) es empty_store))"
  shows "(\<exists>r' \<in> set (jobs (store_step m e (fold (store_step m) es empty_store))).
      same_request r r' \<and>
      (r' = r \<or> job_trans m (attempts r) (state r) (state r') \<or> state r = CANCELLED \<and> state r' = CANCELLED \<or>
       (\<exists>now. e = Cancel (jid r) now) \<and> state r = PREEMPTING \<and> state r' = CANCELLED \<or>
       (\<exists>why now. e = FailLaunch (jid r) why now) \<and> state r = CANCELLED \<and> container r = None \<and> state r' = FAILED) \<and>
      attempts r' = attempts r + (if state r = QUEUED \<and> state r' = RUNNING then 1 else 0)) \<and>
    (state r \<in> {SUCCEEDED, FAILED} \<longrightarrow> r \<in> set (jobs (fold (store_step m) (es @ es') empty_store)))"
proof -
  have dist: "distinct (map jid (jobs (fold (store_step m) ks empty_store)))" for ks
    using store_invD(1) [OF sm.inv_reachable [OF refl]] .
  have final: "r \<in> set (jobs (fold (store_step m) (es @ ks) empty_store))" if f: "state r \<in> {SUCCEEDED, FAILED}" for ks
  proof (induction ks rule: rev_induct)
    case (snoc k ks)
    let ?st = "fold (store_step m) (es @ ks) empty_store"
    obtain r' where r': "r' \<in> set (jobs (store_step m k ?st))" "row_step m k r r'"
      using store_step_rows [OF dist snoc.IH] by blast
    have "\<not> off_machine k r r'" using f by (cases k) auto
    then have "r' = r" using r'(2) f by (auto simp: row_step_def job_trans_final)
    then show ?case using r'(1) by simp
  qed (use assms in simp)
  obtain r' where r': "r' \<in> set (jobs (store_step m e (fold (store_step m) es empty_store)))" "row_step m e r r'"
    using store_step_rows [OF dist assms] by blast
  have "off_machine e r r' \<Longrightarrow> (\<exists>now. e = Cancel (jid r) now) \<and> state r = PREEMPTING \<and> state r' = CANCELLED \<or>
      (\<exists>why now. e = FailLaunch (jid r) why now) \<and> state r = CANCELLED \<and> container r = None \<and> state r' = FAILED"
    by (cases e) auto
  moreover have "same_request r r'" "attempts r' = attempts r + (if state r = QUEUED \<and> state r' = RUNNING then 1 else 0)"
    using r'(2) by (auto simp: row_step_defs)
  ultimately show ?thesis using final [of es'] r' unfolding row_step_def by blast
qed

theorem job_lifecycle_witness:
  "\<exists>r r'. state r = RUNNING \<and> state r' = SUCCEEDED \<and> job_trans 20 (attempts r) (state r) (state r') \<and> same_request r r'"
proof -
  let ?e = "Finish 1 (Some 0) False 9"
  have one: "map state (jobs (fold (store_step 20) demo_events empty_store)) = [RUNNING]"
    "map state (jobs (store_step 20 ?e (fold (store_step 20) demo_events empty_store))) = [SUCCEEDED]"
    by code_simp+
  then obtain r where r: "r \<in> set (jobs (fold (store_step 20) demo_events empty_store))" "state r = RUNNING" by auto
  from job_lifecycle [OF r(1), of ?e "[]"] obtain r' where
    r': "r' \<in> set (jobs (store_step 20 ?e (fold (store_step 20) demo_events empty_store)))" "same_request r r'"
      "r' = r \<or> job_trans 20 (attempts r) (state r) (state r')" using r(2) by auto
  have "state r' \<in> set [SUCCEEDED]" using r'(1) unfolding one(2) [symmetric] by simp
  then have s': "state r' = SUCCEEDED" by simp
  with r(2) r'(3) have "job_trans 20 (attempts r) (state r) (state r')" by auto
  with r(2) r'(2) s' show ?thesis by (intro exI [of _ r] exI [of _ r'] conjI)
qed

text \<open>C36: how a run ends. Finishing an active job closes it: a cancelled job stays cancelled;
  one that was being reclaimed, or whose container vanished, goes back to the queue without
  GPU and container while it has attempts left, and fails otherwise; any other succeeds or
  fails by its exit code. The job is no longer active, all other jobs are untouched, and it
  is again among the queued ones exactly when it was sent back.\<close>

theorem finish_outcome:
  assumes "distinct (map jid (jobs st))" "r \<in> set (jobs st)" "is_active r"
    and "finish (jid r) ec m vanished now st = (res, st')"
  shows "\<exists>ns r'. res = Inr ns \<and> row_of st' (jid r) = Some r' \<and> state r' = ns \<and> \<not> is_active r' \<and>
    ns = (if state r = CANCELLED then CANCELLED
          else if state r = PREEMPTING \<or> vanished then (if attempts r < m then QUEUED else FAILED)
          else if ec = Some 0 then SUCCEEDED else FAILED) \<and>
    (ns = QUEUED \<longrightarrow> gpu_uuid r' = None \<and> container r' = None \<and> finished_at r' = None) \<and>
    (ns \<noteq> QUEUED \<longrightarrow> finished_at r' = Some now) \<and>
    preemptions r' = preemptions r + (if state r = PREEMPTING \<or> vanished then 1 else 0) \<and>
    (\<forall>q. jid q \<noteq> jid r \<longrightarrow> (q \<in> set (jobs st') \<longleftrightarrow> q \<in> set (jobs st)))"
proof -
  have row: "row_of st (jid r) = Some r" using assms(1,2) by (rule row_of_unique)
  obtain ns out where e: "end_state r ec m vanished = (ns, out)" by (cases "end_state r ec m vanished")
  have ns: "ns = (if state r = CANCELLED then CANCELLED
          else if state r = PREEMPTING \<or> vanished then (if attempts r < m then QUEUED else FAILED)
          else if ec = Some 0 then SUCCEEDED else FAILED)"
    using e by (auto simp: end_state_def)
  let ?f = "\<lambda>q. q\<lparr>state := ns, exit_code := ec,
      preemptions := preemptions q + (if state r = PREEMPTING \<or> vanished then 1 else 0),
      finished_at := (if ns = QUEUED then None else Some now),
      reason := end_reason r ec ns out (state r = PREEMPTING \<or> vanished),
      gpu_uuid := (if ns = QUEUED then None else gpu_uuid q), container := (if ns = QUEUED then None else container q)\<rparr>"
  from assms(4) row e have res: "res = Inr ns" and jobs': "jobs st' = map (\<lambda>q. if jid q = jid r then ?f q else q) (jobs st)"
    by (auto simp: finish_def Let_def)
  have ids: "map jid (jobs st') = map jid (jobs st)" by (simp add: jobs')
  have "?f r \<in> set (jobs st')" using assms(2) by (force simp: jobs')
  then have "row_of st' (jid (?f r)) = Some (?f r)" using assms(1) ids by (intro row_of_unique) simp_all
  then have row': "row_of st' (jid r) = Some (?f r)" by simp
  have inact: "\<not> is_active (?f r)" using end_state_not_running [OF e] by (auto simp: is_active_def)
  have others: "q \<in> set (jobs st') \<longleftrightarrow> q \<in> set (jobs st)" if "jid q \<noteq> jid r" for q
    using that by (auto simp: jobs')
  show ?thesis
    by (intro exI [of _ ns] exI [of _ "?f r"] conjI res row' inact ns) (use others in simp_all)
qed

theorem finish_outcome_witness:
  "\<exists>st r st'. is_active r \<and> finish (jid r) None 20 True 9 st = (Inr QUEUED, st') \<and> active st' = []"
proof -
  let ?st = "fold (store_step 20) demo_events empty_store"
  let ?r = "hd (jobs ?st)"
  have facts: "map jid (jobs ?st) = [1]" "is_active ?r" "jid ?r = 1" "state ?r = RUNNING" "attempts ?r = 1"
    "active (snd (finish 1 None 20 True 9 ?st)) = []" by code_simp+
  have mem: "?r \<in> set (jobs ?st)" using facts(1) by (cases "jobs ?st") auto
  have dist: "distinct (map jid (jobs ?st))" unfolding facts(1) by simp
  obtain res st' where f: "finish (jid ?r) None 20 True 9 ?st = (res, st')"
    by (cases "finish (jid ?r) None 20 True 9 ?st")
  from finish_outcome [OF dist mem facts(2) f] facts(4,5) have "res = Inr QUEUED" by auto
  moreover have "active st' = []" using f facts(3,6) by simp
  ultimately show ?thesis using f facts(2) by blast
qed

text \<open>Pausing and resuming do what they say and nothing else: the node flag and the set of
  paused GPUs are read back as last set, one never disturbs the other, resuming a GPU
  leaves the others paused, and no job is touched.\<close>

theorem pause_resume:
  "paused (set_paused p None st) = (p, snd (paused st)) \<and>
   paused (set_paused p (Some g) st) = (fst (paused st), if p then insert g (snd (paused st)) else snd (paused st) - {g}) \<and>
   jobs (set_paused p gpu st) = jobs st \<and> runs (set_paused p gpu st) = runs st"
  by (auto simp: paused_def set_paused_def Let_def split: option.splits)

end
