(* ===== verification/Docker.thy ===== *)
theory Docker imports Jobspec Model begin

text \<open>
  \<open>labgpu/spot/docker.py\<close>: what \<open>docker inspect\<close> says about owner and spot containers, the
  argument vector that starts a spot job, and the runner of the \<open>docker\<close> command. The
  command's behaviour and JSON decoding are parameters. The object that keeps the stops it
  has started is in \<open>Docker_Cli\<close>.
\<close>

definition KERNEL_LABEL :: string where "KERNEL_LABEL = ''ai.backend.kernel-id''"
definition SPOT_LABEL :: string where "SPOT_LABEL = ''labgpu.spot''"
definition JOB_LABEL :: string where "JOB_LABEL = ''labgpu.job-id''"
definition GPU_LABEL :: string where "GPU_LABEL = ''labgpu.gpu-uuid''"
definition HOOK_IN_CONTAINER :: string where "HOOK_IN_CONTAINER = ''/opt/labgpu/libvgpu.so''"

record owner_container =
  oc_id :: string
  oc_pid :: int
  gpu_refs :: "string list"

record spot_container =
  sc_id :: string
  sc_name :: string
  sc_job_id :: "int option"
  sc_gpu_uuid :: "string option"
  running :: bool
  sc_exit_code :: "int option"

section \<open>Parsing \<open>docker inspect\<close>\<close>

text \<open>\<open>v.get(k)\<close> and \<open>v.get(k) or {}\<close>.\<close>

definition dget :: "pyval \<Rightarrow> string \<Rightarrow> pyval result" where
  "dget v k = (case v of PDict d \<Rightarrow> Inr (get_or PNone d k)
     | _ \<Rightarrow> Inl (AttributeError (repr_str (type_name v) @ '' object has no attribute '' @ repr_str ''get'')))"

definition or_dict :: "pyval \<Rightarrow> pyval" where
  "or_dict v = (if truthy v then v else PDict [])"

definition or_list :: "pyval \<Rightarrow> pyval list result" where
  "or_list v = (if truthy v then iter_items v else Inr [])"

definition dget2 :: "pyval \<Rightarrow> string \<Rightarrow> string \<Rightarrow> pyval result" where
  "dget2 v k l = rbind (dget v k) (\<lambda>w. dget (or_dict w) l)"

definition split_env :: "pyval \<Rightarrow> (string \<times> string) result" where
  "split_env item = (case item of PStr s \<Rightarrow> Inr (partition (CHR ''='') s)
     | _ \<Rightarrow> Inl (AttributeError (repr_str (type_name item) @ '' object has no attribute '' @ repr_str ''partition'')))"

definition container_env :: "pyval \<Rightarrow> (string, string) pydict result" where
  "container_env inspect = rbind (dget2 inspect ''Config'' ''Env'') (\<lambda>e.
     rbind (or_list e) (\<lambda>items. rmap dict_of (traverse split_env items)))"

definition is_minus_one :: "pyval \<Rightarrow> bool" where
  "is_minus_one v = (v = PInt (-1) \<or> v = PFloat (-1))"

text \<open>The device requests, up to the first that asks for every GPU (\<open>None\<close>). The Docker API
  gives the identifiers as strings.\<close>

fun device_requests :: "pyval list \<Rightarrow> string list \<Rightarrow> string list option result" where
  "device_requests [] refs = Inr (Some refs)"
| "device_requests (req # reqs) refs =
     rbind (dget req ''Driver'') (\<lambda>drv.
       if drv \<noteq> PStr ''nvidia'' then device_requests reqs refs
       else rbind (dget req ''Count'') (\<lambda>n. if is_minus_one n then Inr None
         else rbind (dget req ''DeviceIDs'') (\<lambda>ids. rbind (or_list ids) (\<lambda>xs.
           rbind (traverse (\<lambda>x. untyped (as_str x)) xs) (\<lambda>ids.
             device_requests reqs (refs @ ids))))))"

definition visible_refs :: "string \<Rightarrow> string list" where
  "visible_refs visible = (if visible \<in> {'''', ''void'', ''none''} then []
     else if visible = ''all'' then [''all'']
     else filter (\<lambda>x. x \<noteq> []) (map strip (split_on (CHR '','') visible)))"

definition parse_gpu_refs :: "pyval \<Rightarrow> string list result" where
  "parse_gpu_refs inspect = rbind (container_env inspect) (\<lambda>env.
     (let listed = get_or [] env ''LABGPU_DEVICE_UUIDS'' in
      if listed \<noteq> [] then Inr (filter (\<lambda>x. x \<noteq> []) (split_on (CHR '','') listed))
      else rbind (dget2 inspect ''HostConfig'' ''DeviceRequests'') (\<lambda>r. rbind (or_list r) (\<lambda>reqs.
        rbind (device_requests reqs []) (\<lambda>refs. case refs of
          None \<Rightarrow> Inr [''all'']
        | Some rs \<Rightarrow> if rs \<noteq> [] then Inr rs
            else Inr (visible_refs (get_or [] env ''NVIDIA_VISIBLE_DEVICES'')))))))"

definition inspect_id :: "pyval \<Rightarrow> string result" where
  "inspect_id inspect = rbind (untyped (as_dict inspect)) (\<lambda>d. rbind (doc_key d ''Id'') (\<lambda>v. untyped (as_str v)))"

definition parse_owner :: "pyval \<Rightarrow> owner_container result" where
  "parse_owner inspect = rbind (inspect_id inspect) (\<lambda>i.
     rbind (dget2 inspect ''State'' ''Pid'') (\<lambda>p.
     rbind (if truthy p then int_of p else Inr 0) (\<lambda>pid.
     rbind (parse_gpu_refs inspect) (\<lambda>refs. Inr \<lparr>oc_id = i, oc_pid = pid, gpu_refs = refs\<rparr>))))"

text \<open>The job label: digits only, but \<open>isdigit\<close> also holds for superscripts, which \<open>int\<close>
  refuses.\<close>

definition label_job :: "pyval \<Rightarrow> int option result" where
  "label_job raw = (if \<not> truthy raw then Inr None
     else case raw of
       PStr s \<Rightarrow> if str_isdigit s then rmap Some (int_of (PStr s)) else Inr None
     | _ \<Rightarrow> Inl (AttributeError (repr_str (type_name raw) @ '' object has no attribute '' @ repr_str ''isdigit'')))"

definition inspect_name :: "pyval \<Rightarrow> string result" where
  "inspect_name inspect = rbind (untyped (as_dict inspect)) (\<lambda>d. case get_or (PStr []) d ''Name'' of
     PStr s \<Rightarrow> Inr (lstrip_by (\<lambda>c. c = CHR ''/'') s)
   | v \<Rightarrow> Inl (AttributeError (repr_str (type_name v) @ '' object has no attribute '' @ repr_str ''lstrip'')))"

definition parse_spot :: "pyval \<Rightarrow> spot_container result" where
  "parse_spot inspect =
     rbind (rmap or_dict (dget2 inspect ''Config'' ''Labels'')) (\<lambda>labels.
     rbind (rmap or_dict (dget inspect ''State'')) (\<lambda>st.
     rbind (dget labels JOB_LABEL) (\<lambda>raw_job.
     rbind (inspect_id inspect) (\<lambda>i.
     rbind (inspect_name inspect) (\<lambda>n.
     rbind (label_job raw_job) (\<lambda>job.
     rbind (dget labels GPU_LABEL) (\<lambda>gpu.
     rbind (dget st ''Running'') (\<lambda>run.
     rbind (dget st ''ExitCode'') (\<lambda>ec.
       Inr \<lparr>sc_id = i, sc_name = n, sc_job_id = job, sc_gpu_uuid = as_str gpu, running = truthy run,
            sc_exit_code = (if truthy run then None else as_int ec)\<rparr>)))))))))"

section \<open>Starting a job\<close>

definition container_name :: "int \<Rightarrow> int \<Rightarrow> string" where
  "container_name job_id attempt = ''labgpu-spot-'' @ int_str job_id @ ''-'' @ int_str attempt"

text \<open>The environment of the container, and the limits when they are enforced.\<close>

definition job_env :: "job_spec \<Rightarrow> int \<Rightarrow> int \<Rightarrow> (string, string) pydict" where
  "job_env s job_id attempt = dict_update (env s) [(''LABGPU_SPOT'', ''1''), (''LABGPU_JOB_ID'', int_str job_id),
     (''LABGPU_ATTEMPT'', int_str attempt)]"

definition enforce_env :: "int \<Rightarrow> (string, string) pydict" where
  "enforce_env mem_limit = [(''LD_PRELOAD'', HOOK_IN_CONTAINER),
     (''CUDA_DEVICE_MEMORY_LIMIT_0'', int_str (max (mem_limit div MiB) 1) @ ''m''),
     (''CUDA_DEVICE_MEMORY_SHARED_CACHE'', ''/tmp/labgpu-vgpu.cache'')]"

definition final_env :: "job_spec \<Rightarrow> int \<Rightarrow> int \<Rightarrow> int \<Rightarrow> bool \<Rightarrow> (string, string) pydict" where
  "final_env s job_id attempt mem_limit enforce = (if enforce
     then dict_update (job_env s job_id attempt) (enforce_env mem_limit) else job_env s job_id attempt)"

definition mount_arg :: "mount \<Rightarrow> string" where
  "mount_arg m = py_str (src m) @ '':'' @ py_str (dst m) @ (if readonly m then '':ro'' else [])"

text \<open>The options of the vector that are strings whatever the job is, up to the mounts.\<close>

definition fixed_options :: "int \<Rightarrow> int \<Rightarrow> int \<Rightarrow> int \<Rightarrow> string \<Rightarrow> int \<Rightarrow> spot_config \<Rightarrow> string list" where
  "fixed_options job_id attempt u g gpu mem cfg = [''-d'', ''--pull'', ''never'',
     ''--name'', container_name job_id attempt,
     ''--label'', SPOT_LABEL @ ''=1'',
     ''--label'', JOB_LABEL @ ''='' @ int_str job_id,
     ''--label'', GPU_LABEL @ ''='' @ gpu,
     ''--cpu-shares'', int_str (cpu_shares cfg),
     ''--memory'', int_str mem,
     ''--memory-swap'', int_str mem,
     ''--oom-score-adj'', ''1000'',
     ''--user'', int_str u @ '':'' @ int_str g]"

definition build_run_args :: "int \<Rightarrow> int \<Rightarrow> job_spec \<Rightarrow> int \<Rightarrow> int \<Rightarrow> string \<Rightarrow> int \<Rightarrow> int \<Rightarrow> spot_config \<Rightarrow>
    bool \<Rightarrow> bool \<Rightarrow> pyval list result" where
  "build_run_args job_id attempt s u g gpu mem_limit mem cfg enforce attach_gpu =
     (if u = 0 then Inl (ValueError ''spot jobs must not run as root'')
      else Inr (map PStr ([''docker'', ''run''] @ fixed_options job_id attempt u g gpu mem cfg @
             (if attach_gpu then [''--gpus'', ''device='' @ gpu] else []) @
             (if enforce then [''-v'', path_str (hook_path cfg) @ '':'' @ HOOK_IN_CONTAINER @ '':ro''] else []) @
             concat (map (\<lambda>(k, v). [''-e'', k @ ''='' @ v]) (final_env s job_id attempt mem_limit enforce)) @
             concat (map (\<lambda>m. [''-v'', mount_arg m]) (mounts s))) @
           (if truthy (workdir s) then [PStr ''-w'', workdir s] else []) @
           (if entrypoint s \<noteq> PNone then [PStr ''--entrypoint'', entrypoint s] else []) @
           map PStr (image s # js_command s)))"

section \<open>The command runner\<close>

text \<open>What running a program comes to: it could not be started, it timed out, or it ended with
  a code, an output and an error output.\<close>

datatype proc_end = NotStarted string | TimedOut string | Ended int string string

text \<open>Arguments that are no strings, and strings with a NUL, are refused before the program is
  started; neither exception is an \<open>OSError\<close>.\<close>

definition exec_args :: "pyval list \<Rightarrow> string list result" where
  "exec_args args = rbind (traverse str_arg args) (\<lambda>ss.
     if list_ex (list_ex (\<lambda>c. code c = 0)) ss then Inl (ValueError ''embedded null byte'') else Inr ss)"

definition docker_run_cmd :: "(string list \<Rightarrow> proc_end) \<Rightarrow> pyval list \<Rightarrow> string result" where
  "docker_run_cmd exec args = rbind (exec_args args) (\<lambda>ss. case exec ss of
     NotStarted e \<Rightarrow> Inl (DockerError (''docker '' @ hd ss @ '': '' @ e))
   | TimedOut e \<Rightarrow> Inl (DockerError (''docker '' @ hd ss @ '': '' @ e))
   | Ended rc stdout stderr \<Rightarrow> if rc \<noteq> 0
       then Inl (DockerError (''docker '' @ hd ss @ '' failed: '' @ strip stderr)) else Inr stdout)"

definition inspect_all :: "(string list \<Rightarrow> proc_end) \<Rightarrow> (string \<Rightarrow> pyval result) \<Rightarrow> string list \<Rightarrow> pyval list result" where
  "inspect_all exec loads ids = (if ids = [] then Inr []
     else rbind (docker_run_cmd exec (map PStr (''inspect'' # ids))) (\<lambda>txt. rbind (loads txt) iter_items))"

definition list_owners :: "(string list \<Rightarrow> proc_end) \<Rightarrow> (string \<Rightarrow> pyval result) \<Rightarrow> owner_container list result" where
  "list_owners exec loads =
     rbind (docker_run_cmd exec (map PStr [''ps'', ''-q'', ''--no-trunc'', ''--filter'', ''label='' @ KERNEL_LABEL])) (\<lambda>out.
     rbind (inspect_all exec loads (words out)) (traverse parse_owner))"

definition list_spots :: "(string list \<Rightarrow> proc_end) \<Rightarrow> (string \<Rightarrow> pyval result) \<Rightarrow> spot_container list result" where
  "list_spots exec loads =
     rbind (docker_run_cmd exec (map PStr [''ps'', ''-a'', ''-q'', ''--no-trunc'', ''--filter'', ''label='' @ SPOT_LABEL @ ''=1''])) (\<lambda>out.
     rbind (inspect_all exec loads (words out)) (traverse parse_spot))"

definition docker_run :: "(string list \<Rightarrow> proc_end) \<Rightarrow> pyval list \<Rightarrow> string result" where
  "docker_run exec argv = (if argv = [] \<or> hd argv \<noteq> PStr ''docker''
     then Inl (ValueError (''argv must start with '' @ repr_str ''docker''))
     else rmap strip (docker_run_cmd exec (tl argv)))"

text \<open>\<open>stop_async\<close> keeps the handles of the stops that still run. \<open>alive\<close> tells which do, and
  \<open>start\<close> whether the next one can be started.\<close>

definition stop_async :: "('p \<Rightarrow> bool) \<Rightarrow> (string list \<Rightarrow> py_exc + 'p) \<Rightarrow> string \<Rightarrow> int \<Rightarrow> 'p list \<Rightarrow> unit result \<times> 'p list" where
  "stop_async alive start cont grace stoppers =
     (let live = filter alive stoppers
      in case start [''stop'', ''-t'', int_str grace, cont] of
           Inl e \<Rightarrow> (Inl e, live)
         | Inr p \<Rightarrow> (Inr (), live @ [p]))"

text \<open>\<open>save_logs_and_remove\<close>: only the creation of the directory can raise. The result says
  whether the container was removed.\<close>

definition save_logs_and_remove :: "bool \<Rightarrow> (string list \<Rightarrow> proc_end) \<Rightarrow> string \<Rightarrow> bool result" where
  "save_logs_and_remove mkdir_ok exec cont = (if \<not> mkdir_ok then Inl (OSError ''mkdir'')
     else Inr (is_ok (docker_run_cmd exec (map PStr [''rm'', ''-f'', cont]))))"

section \<open>What docker reads from the vector\<close>

text \<open>Docker reads the arguments of \<open>docker run\<close> into the options, each with its value, and the
  words from the image on. What its documentation says of the options that the controller
  uses is an interface: those that take a value take the next word, \<open>-d\<close> takes none, and the
  first word that does not start with a hyphen is the image, which ends the options.\<close>

definition opt_values :: "string \<Rightarrow> (string \<times> string) list \<Rightarrow> string list" where
  "opt_values flag os = map snd (filter (\<lambda>(f, _). f = flag) os)"

lemma opt_values_simps [simp]: "opt_values flag [] = []"
  "opt_values flag ((f, v) # os) = (if f = flag then v # opt_values flag os else opt_values flag os)"
  "opt_values flag (xs @ ys) = opt_values flag xs @ opt_values flag ys"
  by (simp_all add: opt_values_def)

definition value_flags :: "string list" where
  "value_flags = [''--pull'', ''--name'', ''--label'', ''--cpu-shares'', ''--memory'', ''--memory-swap'', ''--oom-score-adj'',
     ''--user'', ''--gpus'', ''-v'', ''-e'', ''-w'', ''--entrypoint'']"

definition flatten :: "(string \<times> string) list \<Rightarrow> string list" where
  "flatten ps = concat (map (\<lambda>(a, b). [a, b]) ps)"

lemma flatten_simps: "flatten [] = []" "flatten ((a, b) # ps) = a # b # flatten ps"
  "flatten (ps @ qs) = flatten ps @ flatten qs"
  "flatten (if c then ps else qs) = (if c then flatten ps else flatten qs)"
  by (simp_all add: flatten_def)

text \<open>The options after \<open>-d\<close>, as pairs.\<close>

definition option_pairs :: "int \<Rightarrow> int \<Rightarrow> job_spec \<Rightarrow> int \<Rightarrow> int \<Rightarrow> string \<Rightarrow> int \<Rightarrow> int \<Rightarrow> spot_config \<Rightarrow>
    bool \<Rightarrow> bool \<Rightarrow> (string \<times> string) list" where
  "option_pairs job_id attempt s u g gpu mem_limit mem cfg enforce attach_gpu =
     [(''--pull'', ''never''), (''--name'', container_name job_id attempt), (''--label'', SPOT_LABEL @ ''=1''),
      (''--label'', JOB_LABEL @ ''='' @ int_str job_id), (''--label'', GPU_LABEL @ ''='' @ gpu),
      (''--cpu-shares'', int_str (cpu_shares cfg)), (''--memory'', int_str mem), (''--memory-swap'', int_str mem),
      (''--oom-score-adj'', ''1000''), (''--user'', int_str u @ '':'' @ int_str g)] @
     (if attach_gpu then [(''--gpus'', ''device='' @ gpu)] else []) @
     (if enforce then [(''-v'', path_str (hook_path cfg) @ '':'' @ HOOK_IN_CONTAINER @ '':ro'')] else []) @
     map (\<lambda>(k, v). (''-e'', k @ ''='' @ v)) (final_env s job_id attempt mem_limit enforce) @
     map (\<lambda>m. (''-v'', mount_arg m)) (mounts s) @
     (if truthy (workdir s) then [(''-w'', the_str (workdir s))] else []) @
     (if entrypoint s \<noteq> PNone then [(''--entrypoint'', the_str (entrypoint s))] else [])"

definition textual :: "job_spec \<Rightarrow> bool" where
  "textual s = ((is_str (workdir s) \<or> workdir s = PNone) \<and> (is_str (entrypoint s) \<or> entrypoint s = PNone))"

lemma the_str_PStr [simp]: "map (the_str \<circ> PStr) xs = xs"
  by (induction xs) simp_all

lemma flatten_env: "flatten (map (\<lambda>(k, v). (flag, f k v)) en) = concat (map (\<lambda>(k, v). [flag, f k v]) en)"
  by (induction en) (auto simp: flatten_simps)

lemma flatten_mounts: "flatten (map (\<lambda>m. (flag, f m)) ms) = concat (map (\<lambda>m. [flag, f m]) ms)"
  by (induction ms) (auto simp: flatten_simps)

lemma argv_pairs:
  assumes "build_run_args job_id attempt s u g gpu mem_limit mem cfg enforce attach_gpu = Inr argv"
  shows "map the_str argv = ''docker'' # ''run'' # ''-d'' #
    flatten (option_pairs job_id attempt s u g gpu mem_limit mem cfg enforce attach_gpu) @ image s # js_command s"
proof -
  have texts: "map the_str (map PStr xs) = xs" for xs by simp
  have ifs: "map the_str (if c then xs else ys) = (if c then map the_str xs else map the_str ys)" for c xs ys by simp
  have "u \<noteq> 0" using assms by (auto simp: build_run_args_def)
  with assms have "argv = map PStr ([''docker'', ''run''] @ fixed_options job_id attempt u g gpu mem cfg @
             (if attach_gpu then [''--gpus'', ''device='' @ gpu] else []) @
             (if enforce then [''-v'', path_str (hook_path cfg) @ '':'' @ HOOK_IN_CONTAINER @ '':ro''] else []) @
             concat (map (\<lambda>(k, v). [''-e'', k @ ''='' @ v]) (final_env s job_id attempt mem_limit enforce)) @
             concat (map (\<lambda>m. [''-v'', mount_arg m]) (mounts s))) @
           (if truthy (workdir s) then [PStr ''-w'', workdir s] else []) @
           (if entrypoint s \<noteq> PNone then [PStr ''--entrypoint'', entrypoint s] else []) @
           map PStr (image s # js_command s)"
    unfolding build_run_args_def by (simp only: if_False sum.inject)
  then show ?thesis
    unfolding option_pairs_def fixed_options_def
    by (simp only: map_append texts ifs flatten_simps flatten_env flatten_mounts append.simps append_assoc
        list.map the_str.simps)
qed

lemma option_pairs_valued:
  "\<forall>p \<in> set (option_pairs job_id attempt s u g gpu mem_limit mem cfg enforce attach_gpu). fst p \<in> set value_flags"
  by (auto simp: option_pairs_def value_flags_def)

lemma option_values:
  "opt_values ''-e'' (map (\<lambda>(k, v). (''-e'', f k v)) en) = map (\<lambda>(k, v). f k v) en"
  "opt_values ''-v'' (map (\<lambda>m. (''-v'', g m)) ms) = map g ms"
  "flag \<noteq> ''-e'' \<Longrightarrow> opt_values flag (map (\<lambda>(k, v). (''-e'', f k v)) en) = []"
  "flag \<noteq> ''-v'' \<Longrightarrow> opt_values flag (map (\<lambda>m. (''-v'', g m)) ms) = []"
  by (induction en; induction ms; auto)+

lemma opt_values_if: "opt_values flag (if c then xs else []) = (if c then opt_values flag xs else [])"
  by simp

locale docker_reader =
  fixes reader :: "string list \<Rightarrow> (string \<times> string) list \<times> string list"
  assumes reads_value: "flag \<in> set value_flags \<Longrightarrow> reader (flag # v # ws) = ((flag, v) # fst (reader ws), snd (reader ws))"
    and reads_detach: "reader (''-d'' # ws) = ((''-d'', []) # fst (reader ws), snd (reader ws))"
    and reads_image: "im \<noteq> [] \<Longrightarrow> hd im \<noteq> CHR ''-'' \<Longrightarrow> reader (im # cmd) = ([], im # cmd)"
begin

lemma reads_pairs: "\<forall>p \<in> set ps. fst p \<in> set value_flags \<Longrightarrow>
    reader (flatten ps @ rest) = (ps @ fst (reader rest), snd (reader rest))"
proof (induction ps)
  case (Cons p ps)
  obtain a b where p: "p = (a, b)" by (cases p)
  then have "a \<in> set value_flags" using Cons.prems by simp
  then show ?case using Cons p by (simp add: flatten_simps reads_value)
qed (simp add: flatten_simps)

text \<open>When the image is a name, docker reads the options it was given.\<close>

lemma reads_argv:
  assumes "build_run_args job_id attempt s u g gpu mem_limit mem cfg enforce attach_gpu = Inr argv"
    and "image s \<noteq> []" "hd (image s) \<noteq> CHR ''-''"
  shows "reader (drop 2 (map the_str argv)) =
    ((''-d'', []) # option_pairs job_id attempt s u g gpu mem_limit mem cfg enforce attach_gpu, image s # js_command s)"
  unfolding argv_pairs [OF assms(1)]
  by (simp add: reads_detach reads_pairs [OF option_pairs_valued] reads_image [OF assms(2,3)])

end

text \<open>A reader of options that does so.\<close>

definition boolean_flag :: "string \<Rightarrow> bool" where
  "boolean_flag a = (a \<in> {''-d'', ''--privileged''})"

fun read_opts :: "string list \<Rightarrow> (string \<times> string) list \<times> string list" where
  "read_opts [] = ([], [])"
| "read_opts [a] = (if boolean_flag a then ([(a, [])], []) else ([], [a]))"
| "read_opts (a # b # rest) =
     (if boolean_flag a then (let (os, r) = read_opts (b # rest) in ((a, []) # os, r))
      else if startswith a ''-'' then (let (os, r) = read_opts rest in ((a, b) # os, r))
      else ([], a # b # rest))"

interpretation ropts: docker_reader read_opts
proof
  fix flag v ws assume "flag \<in> set value_flags"
  then have "\<not> boolean_flag flag" "startswith flag ''-''" by (auto simp: value_flags_def boolean_flag_def startswith_def)
  then show "read_opts (flag # v # ws) = ((flag, v) # fst (read_opts ws), snd (read_opts ws))"
    by (simp add: case_prod_unfold Let_def)
next
  fix ws show "read_opts (''-d'' # ws) = ((''-d'', []) # fst (read_opts ws), snd (read_opts ws))"
    by (cases ws) (simp_all add: boolean_flag_def case_prod_unfold Let_def)
next
  fix im :: string and cmd assume "im \<noteq> []" "hd im \<noteq> CHR ''-''"
  then have "\<not> startswith im ''-''" "\<not> boolean_flag im" by (cases im; auto simp: startswith_def boolean_flag_def)+
  then show "read_opts (im # cmd) = ([], im # cmd)" by (cases cmd) auto
qed

text \<open>C33: docker starts what the controller meant. For a job whose image is a name (not empty, no
  hyphen in front) and whose working directory and entry point are texts or absent, the
  argument vector consists of strings, and any reader \<open>R\<close> of docker's options that treats
  the controller's options as docker's documentation says gives back: the image and the
  command of the job; one \<open>--user\<close>, which is not root; the memory limit, without swap
  beyond it; the GPU, exactly when one is to be attached; the job's environment with the
  enforcement variables; and as volumes the enforcement library, when enforced, then the
  job's mounts, nothing else.\<close>

theorem docker_reads_back:
  assumes "build_run_args job_id attempt s u g gpu mem_limit mem cfg enforce attach_gpu = Inr argv"
    and "textual s" "image s \<noteq> []" "hd (image s) \<noteq> CHR ''-''"
    and takes_value: "\<And>flag v ws. flag \<in> set value_flags \<Longrightarrow> R (flag # v # ws) = ((flag, v) # fst (R ws), snd (R ws))"
    and takes_none: "\<And>ws. R (''-d'' # ws) = ((''-d'', []) # fst (R ws), snd (R ws))"
    and ends_options: "\<And>im cmd. im \<noteq> [] \<Longrightarrow> hd im \<noteq> CHR ''-'' \<Longrightarrow> R (im # cmd) = ([], im # cmd)"
  shows "list_all is_str argv \<and> hd argv = PStr ''docker'' \<and> (\<exists>os. R (drop 2 (map the_str argv)) = (os, image s # js_command s) \<and>
    opt_values ''--user'' os = [int_str u @ '':'' @ int_str g] \<and> u \<noteq> 0 \<and>
    opt_values ''--memory'' os = [int_str mem] \<and> opt_values ''--memory-swap'' os = [int_str mem] \<and>
    opt_values ''--gpus'' os = (if attach_gpu then [''device='' @ gpu] else []) \<and>
    opt_values ''-e'' os = map (\<lambda>(k, v). k @ ''='' @ v) (final_env s job_id attempt mem_limit enforce) \<and>
    opt_values ''-v'' os = (if enforce then [path_str (hook_path cfg) @ '':/opt/labgpu/libvgpu.so:ro''] else []) @ map mount_arg (mounts s) \<and>
    opt_values ''--label'' os = [''labgpu.spot=1'', ''labgpu.job-id='' @ int_str job_id, ''labgpu.gpu-uuid='' @ gpu])"
proof -
  let ?ps = "option_pairs job_id attempt s u g gpu mem_limit mem cfg enforce attach_gpu"
  have "docker_reader R" by unfold_locales (fact takes_value takes_none ends_options)+
  note read = docker_reader.reads_argv [OF this assms(1,3,4)]
  have u: "u \<noteq> 0" using assms(1) by (auto simp: build_run_args_def)
  have strs: "list_all is_str argv" "hd argv = PStr ''docker''"
    using assms(1,2) u by (auto simp: build_run_args_def textual_def list_all_iff split: if_splits)
  show ?thesis
    by (intro conjI strs exI [of _ "(''-d'', []) # ?ps"] read u)
      (simp_all add: option_pairs_def option_values opt_values_if HOOK_IN_CONTAINER_def SPOT_LABEL_def JOB_LABEL_def GPU_LABEL_def)
qed

definition demo_spot_config :: spot_config where
  "demo_spot_config = \<lparr>hook_path = Path 1 [''opt'', ''libvgpu.so''], allow_unenforced = False, cpu_shares = 64,
     default_ram = 16 * GiB, host_ram_reserve = 32 * GiB, allowed_mount_roots = [Path 1 [''vfroot'']], max_attempts = 20\<rparr>"

theorem docker_reads_back_witness:
  "\<exists>argv os. build_run_args 7 1 demo_spec 1000 1000 ''GPU-a'' (94 * GiB) GiB demo_spot_config True True = Inr argv \<and>
     read_opts (drop 2 (map the_str argv)) = (os, [''torch:2'', ''python'', ''a.py'']) \<and>
     opt_values ''--gpus'' os = [''device=GPU-a'']"
proof -
  obtain argv where a: "build_run_args 7 1 demo_spec 1000 1000 ''GPU-a'' (94 * GiB) GiB demo_spot_config True True = Inr argv"
    by (simp add: build_run_args_def)
  have t: "textual demo_spec" "image demo_spec = ''torch:2''" "js_command demo_spec = [''python'', ''a.py'']"
    by (simp_all add: textual_def demo_spec_def)
  have im: "image demo_spec \<noteq> []" "hd (image demo_spec) \<noteq> CHR ''-''" by (simp_all add: t(2))
  from docker_reads_back [OF a t(1) im ropts.reads_value ropts.reads_detach ropts.reads_image] t(2,3) a show ?thesis by auto
qed

text \<open>An image that starts with a hyphen is read as an option. A job file may ask for the
  image \<open>--privileged\<close>: it is accepted, and the container is started with that option from
  the image that comes first in the job's command.\<close>

theorem image_becomes_option:
  "\<exists>s argv os. spec_from_dict [(''name'', PStr ''x''), (''image'', PStr ''--privileged''),
      (''command'', PList [PStr ''busybox'', PStr ''sh''])] = Inr s \<and>
    build_run_args 1 1 s 1000 1000 ''GPU-a'' GiB GiB demo_spot_config True True = Inr argv \<and>
    read_opts (drop 2 (map the_str argv)) = (os, [''busybox'', ''sh'']) \<and> opt_values ''--privileged'' os = [[]]"
proof -
  let ?s = "\<lparr>js_name = ''x'', image = ''--privileged'', js_command = [''busybox'', ''sh''], workdir = PNone,
     entrypoint = PNone, gpu_mem = 0, ram = 0, js_priority = 0, env = [], mounts = [], gpu_models = []\<rparr> :: job_spec"
  let ?ps = "option_pairs 1 1 ?s 1000 1000 ''GPU-a'' GiB GiB demo_spot_config True True"
  have read: "spec_from_dict [(''name'', PStr ''x''), (''image'', PStr ''--privileged''),
      (''command'', PList [PStr ''busybox'', PStr ''sh''])] = Inr ?s"
    by (simp add: spec_from_dict_def allowed_keys_def required_keys_def read_command_def
      iter_items_def read_env_def read_models_def as_spec_error_def read_size_def int_of_def get_or_def Let_def)
  obtain argv where a: "build_run_args 1 1 ?s 1000 1000 ''GPU-a'' GiB GiB demo_spot_config True True = Inr argv"
    by (simp add: build_run_args_def)
  have "drop 2 (map the_str argv) = ''-d'' # flatten ?ps @ image ?s # js_command ?s" unfolding argv_pairs [OF a] by simp
  moreover have "read_opts (image ?s # js_command ?s) = ([(''--privileged'', [])], [''busybox'', ''sh''])"
    by (simp add: boolean_flag_def startswith_def)
  ultimately have "read_opts (drop 2 (map the_str argv)) = ((''-d'', []) # ?ps @ [(''--privileged'', [])], [''busybox'', ''sh''])"
    by (simp only: ropts.reads_detach ropts.reads_pairs [OF option_pairs_valued]) simp
  moreover have "opt_values ''--privileged'' ((''-d'', []) # ?ps @ [(''--privileged'', [])]) = [[]]"
    by (simp add: option_pairs_def option_values)
  ultimately show ?thesis using read a by blast
qed

section \<open>The environment of a job\<close>

lemma final_env_get: "dict_get (final_env s job_id attempt m enforce) k =
    (case (if enforce then map_of (enforce_env m) k else None) of Some v \<Rightarrow> Some v
     | None \<Rightarrow> (case map_of [(''LABGPU_SPOT'', ''1''), (''LABGPU_JOB_ID'', int_str job_id), (''LABGPU_ATTEMPT'', int_str attempt)] k of
         Some v \<Rightarrow> Some v | None \<Rightarrow> dict_get (env s) k))"
  by (auto simp: final_env_def job_env_def dict_get_update enforce_env_def split: option.splits)

text \<open>A job cannot lift its own limits through its environment. Whatever \<open>env\<close> the job file
  gives, the environment has one entry per key; with enforcement, the preloaded library and
  the memory limit are the controller's, the limit being what was asked for rounded down to
  whole MiB (at least one); and every other variable of the file is passed on.\<close>

theorem enforced_environment:
  assumes "distinct (dict_keys (env s))" "0 \<le> m" "m div MiB \<le> 2 ^ 53"
  shows "distinct (dict_keys (final_env s job_id attempt m True)) \<and>
    dict_get (final_env s job_id attempt m True) ''LD_PRELOAD'' = Some HOOK_IN_CONTAINER \<and>
    (\<exists>lim. dict_get (final_env s job_id attempt m True) ''CUDA_DEVICE_MEMORY_LIMIT_0'' = Some lim \<and>
       parse_size (PStr lim) = Inr (max (m div MiB) 1 * MiB)) \<and>
    (\<forall>k. k \<notin> {''LD_PRELOAD'', ''CUDA_DEVICE_MEMORY_LIMIT_0'', ''CUDA_DEVICE_MEMORY_SHARED_CACHE'', ''LABGPU_SPOT'',
        ''LABGPU_JOB_ID'', ''LABGPU_ATTEMPT''} \<longrightarrow>
       dict_get (final_env s job_id attempt m True) k = dict_get (env s) k)"
proof -
  let ?n = "max (m div MiB) 1"
  have "?n * MiB div MiB = ?n" by (simp add: MiB_def)
  moreover have "0 \<le> ?n * MiB" by (simp add: MiB_def)
  moreover have "?n \<le> 2 ^ 53" using assms(3) by simp
  ultimately have "parse_size (PStr (format_mib (?n * MiB))) = Inr (?n * MiB)"
    using parse_format_mib [of "?n * MiB"] by simp
  moreover have "format_mib (?n * MiB) = int_str ?n @ ''m''" using \<open>?n * MiB div MiB = ?n\<close> by (simp add: format_mib_def)
  ultimately have lim: "parse_size (PStr (int_str ?n @ ''m'')) = Inr (?n * MiB)" by (simp only:)
  have dist: "distinct (dict_keys (final_env s job_id attempt m True))"
    using assms(1) by (simp add: final_env_def job_env_def dict_update_distinct del: distinct_map)
  show ?thesis
  proof (intro conjI dist exI allI impI)
    show "dict_get (final_env s job_id attempt m True) ''LD_PRELOAD'' = Some HOOK_IN_CONTAINER"
      "dict_get (final_env s job_id attempt m True) ''CUDA_DEVICE_MEMORY_LIMIT_0'' = Some (int_str ?n @ ''m'')"
      by (simp_all add: final_env_get enforce_env_def)
    show "parse_size (PStr (int_str ?n @ ''m'')) = Inr (?n * MiB)" by (rule lim)
  qed (simp add: final_env_get enforce_env_def)
qed

theorem enforced_environment_witness:
  "\<exists>lim. dict_get (final_env demo_spec 7 1 (94 * GiB) True) ''CUDA_DEVICE_MEMORY_LIMIT_0'' = Some lim \<and>
     parse_size (PStr lim) = Inr (94 * GiB)"
proof -
  have d: "distinct (dict_keys (env demo_spec))" by (simp add: demo_spec_def)
  have c: "0 \<le> 94 * GiB" "94 * GiB div MiB \<le> 2 ^ 53" "max (94 * GiB div MiB) 1 * MiB = 94 * GiB"
    by (simp_all add: GiB_def MiB_def)
  from enforced_environment [OF d c(1,2), of 7 1] show ?thesis unfolding c(3) by blast
qed

section \<open>Containers read back\<close>

text \<open>A spot container is recognised as the job it was started for. Its three labels,
  reported by \<open>docker inspect\<close> in any order among others, give the job number and the GPU
  they were made from; the exit code counts only once it no longer runs.\<close>

theorem spot_labels_roundtrip:
  assumes "dict_get labels JOB_LABEL = Some (PStr (int_str job_id))" "dict_get labels GPU_LABEL = Some (PStr gpu)"
    and "0 \<le> job_id" "length (int_str job_id) \<le> 4300"
  shows "parse_spot (PDict [(''Id'', PStr cid), (''Name'', PStr (''/'' @ container_name job_id attempt)),
      (''Config'', PDict [(''Labels'', PDict labels)]),
      (''State'', PDict [(''Running'', PBool r), (''ExitCode'', PInt ec)])]) =
    Inr \<lparr>sc_id = cid, sc_name = container_name job_id attempt, sc_job_id = Some job_id, sc_gpu_uuid = Some gpu,
         running = r, sc_exit_code = (if r then None else Some ec)\<rparr>"
proof -
  have s: "int_str job_id = nat_str (nat job_id)" using assms(3) by (simp add: int_str_def)
  have "str_isdigit (int_str job_id)"
    using nat_str_dec [of "nat job_id"] by (auto simp: s str_isdigit_def list_all_iff is_digit_def)
  moreover have "py_int (int_str job_id) = Some job_id"
    using py_int_nat_str [of "nat job_id"] assms(3,4) by (simp add: s)
  moreover have "int_str job_id \<noteq> []" by (simp add: s)
  moreover have "labels \<noteq> []" using assms(1) by auto
  moreover have "lstrip_by (\<lambda>c. c = CHR ''/'') (''/'' @ container_name job_id attempt) = container_name job_id attempt"
    by (simp add: lstrip_by_def container_name_def)
  ultimately show ?thesis
    using assms(1,2)
    by (simp add: parse_spot_def dget2_def dget_def or_dict_def get_or_def inspect_id_def untyped_def doc_key_def
        inspect_name_def label_job_def int_of_def)
qed

theorem spot_labels_roundtrip_witness:
  "\<exists>c. parse_spot (PDict [(''Id'', PStr ''c1''), (''Name'', PStr (''/'' @ container_name 7 2)),
      (''Config'', PDict [(''Labels'', PDict [(JOB_LABEL, PStr (int_str 7)), (GPU_LABEL, PStr ''GPU-a'')])]),
      (''State'', PDict [(''Running'', PBool False), (''ExitCode'', PInt 137)])]) = Inr c \<and>
    sc_job_id c = Some 7 \<and> sc_exit_code c = Some 137"
proof -
  have "length (int_str 7) \<le> 4300" by code_simp
  then show ?thesis
    using spot_labels_roundtrip [of "[(JOB_LABEL, PStr (int_str 7)), (GPU_LABEL, PStr ''GPU-a'')]" 7 "''GPU-a''" "''c1''" 2 False 137]
    by (simp add: JOB_LABEL_def GPU_LABEL_def)
qed

end
