(* ===== verification/Hostinfo.thy ===== *)
theory Hostinfo imports Py_Value Procmap begin

text \<open>
  \<open>labgpu/spot/hostinfo.py\<close>: the host's available memory and the CPU use of containers. The
  files are parameters: what reading them gives, an exception or a text.
\<close>

definition int_text :: "string \<Rightarrow> int result" where
  "int_text s = (case py_int s of Some i \<Rightarrow> Inr i
     | None \<Rightarrow> Inl (ValueError (''invalid literal for int() with base 10: '' @ repr_str s)))"

text \<open>\<open>line.split()[1]\<close> of the first line that starts as wanted.\<close>

definition parse_meminfo_available :: "string \<Rightarrow> int result" where
  "parse_meminfo_available txt = (case find (\<lambda>l. startswith l ''MemAvailable:'') (splitlines txt) of
     None \<Rightarrow> Inl (ValueError ''MemAvailable not found'')
   | Some l \<Rightarrow> if length (words l) < 2 then Inl (IndexError ''list index out of range'')
       else rmap (\<lambda>n. n * 1024) (int_text (words l ! 1)))"

definition mem_available :: "string result \<Rightarrow> int result" where
  "mem_available meminfo = rbind meminfo parse_meminfo_available"

definition parse_cpu_usage_usec :: "string \<Rightarrow> int result" where
  "parse_cpu_usage_usec txt =
     (case find (\<lambda>l. fst (partition (CHR '' '') l) = ''usage_usec'') (splitlines txt) of
        None \<Rightarrow> Inl (ValueError ''usage_usec not found'')
      | Some l \<Rightarrow> int_text (snd (partition (CHR '' '') l)))"

text \<open>The sampler remembers the last sample of each container. Exceptions of the files and of
  their contents are absorbed; the quotient is computed outside the \<open>try\<close>.\<close>

type_synonym cpu_samples = "(string, rat \<times> int) pydict"

record cpu_files =
  cgroup_of :: "int \<Rightarrow> string result"
  cpu_stat_of :: "string \<Rightarrow> string result"

definition read_usage :: "cpu_files \<Rightarrow> int \<Rightarrow> int option result" where
  "read_usage fs pid = rbind (cgroup_of fs pid) (\<lambda>cg.
     case cgroup_v2_path cg of None \<Rightarrow> Inr None
     | Some p \<Rightarrow> rbind (cpu_stat_of fs (lstrip_by (\<lambda>c. c = CHR ''/'') p)) (\<lambda>st.
         rmap Some (parse_cpu_usage_usec st)))"

definition cores_used :: "int \<Rightarrow> rat \<Rightarrow> rat \<Rightarrow> rat result" where
  "cores_used usec t0 t1 = (if fl_overflows (of_int usec)
     then Inl (OverflowError ''int too large to convert to float'')
     else Inr (fdiv (fdiv (fl (of_int usec)) 1000000) (fsub t1 t0)))"

definition sample :: "cpu_files \<Rightarrow> string \<Rightarrow> int \<Rightarrow> rat \<Rightarrow> cpu_samples \<Rightarrow> rat option result \<times> cpu_samples" where
  "sample fs cid pid now last_samples = (case read_usage fs pid of
     Inl e \<Rightarrow> if is_os_error e \<or> is_value_error e then (Inr None, AList.delete cid last_samples) else (Inl e, last_samples)
   | Inr None \<Rightarrow> (Inr None, last_samples)
   | Inr (Some usage) \<Rightarrow>
       (let new = dict_set cid (now, usage) last_samples in
        case dict_get last_samples cid of
          None \<Rightarrow> (Inr None, new)
        | Some (t0, u0) \<Rightarrow> if now \<le> t0 then (Inr None, new)
            else (rmap Some (cores_used (usage - u0) t0 now), new)))"

definition forget_except :: "string set \<Rightarrow> cpu_samples \<Rightarrow> cpu_samples" where
  "forget_except live last_samples = filter (\<lambda>(c, _). c \<in> live) last_samples"

section \<open>Properties\<close>

text \<open>CPU use is measured between two successful readings, and only then. The first reading
  of a container, a reading after a failed one, and one at a clock that has not advanced
  give nothing; two successive readings give the microseconds used between them over the
  seconds between them, in cores; and samples of containers that are gone are dropped.\<close>

theorem cpu_sampling:
  assumes "read_usage fs pid = Inr (Some u1)" "read_usage fs' pid = Inr (Some u2)"
    and "read_usage bad pid = Inl (OSError e)"
  shows "(let s1 = snd (sample fs cid pid t1 s0) in
     (dict_get s0 cid = None \<longrightarrow> fst (sample fs cid pid t1 s0) = Inr None) \<and>
     fst (sample fs' cid pid t2 s1) = (if t2 \<le> t1 then Inr None
        else rmap Some (cores_used (u2 - u1) t1 t2)) \<and>
     (let s2 = snd (sample bad cid pid t2 s1) in
        fst (sample bad cid pid t2 s1) = Inr None \<and> fst (sample fs' cid pid t3 s2) = Inr None) \<and>
     (cid \<notin> live \<longrightarrow> fst (sample fs' cid pid t2 (forget_except live s1)) = Inr None))"
proof -
  have gone: "dict_get (AList.delete cid d) cid = None" for d :: cpu_samples
    by (simp add: delete_conv')
  have dropped: "cid \<notin> live \<Longrightarrow> dict_get (forget_except live d) cid = None" for d
    by (auto simp: forget_except_def map_of_eq_None_iff)
  let ?s1 = "snd (sample fs cid pid t1 s0)"
  have s1: "dict_get ?s1 cid = Some (t1, u1)"
    using assms(1) by (auto simp: sample_def Let_def split: option.splits)
  show ?thesis
    unfolding Let_def
  proof (intro conjI impI)
    show "fst (sample fs cid pid t1 s0) = Inr None" if "dict_get s0 cid = None"
      using that assms(1) by (simp add: sample_def)
    show "fst (sample fs' cid pid t2 ?s1) = (if t2 \<le> t1 then Inr None else rmap Some (cores_used (u2 - u1) t1 t2))"
      using s1 assms(2) by (simp add: sample_def Let_def)
    show "fst (sample bad cid pid t2 ?s1) = Inr None" using assms(3) by (simp add: sample_def)
    have "dict_get (snd (sample bad cid pid t2 ?s1)) cid = None" using assms(3) gone by (simp add: sample_def)
    then show "fst (sample fs' cid pid t3 (snd (sample bad cid pid t2 ?s1))) = Inr None"
      using assms(2) by (simp add: sample_def)
    show "fst (sample fs' cid pid t2 (forget_except live ?s1)) = Inr None" if "cid \<notin> live"
      using dropped [OF that] assms(2) by (simp add: sample_def)
  qed
qed

definition demo_cpu :: "string \<Rightarrow> cpu_files" where
  "demo_cpu usec = \<lparr>cgroup_of = \<lambda>_. Inr ''0::/docker/a'', cpu_stat_of = \<lambda>_. Inr (''usage_usec '' @ usec)\<rparr>"

theorem cpu_sampling_witness:
  "fst (sample (demo_cpu ''7000000'') ''c'' 5 4 (snd (sample (demo_cpu ''1000000'') ''c'' 5 2 []))) =
     rmap Some (cores_used 6000000 2 4)"
proof -
  have r: "read_usage (demo_cpu ''1000000'') 5 = Inr (Some 1000000)" "read_usage (demo_cpu ''7000000'') 5 = Inr (Some 7000000)"
    by code_simp+
  have bad: "read_usage \<lparr>cgroup_of = \<lambda>_. Inl (OSError []), cpu_stat_of = \<lambda>_. Inl (OSError [])\<rparr> 5 = Inl (OSError [])"
    by (simp add: read_usage_def)
  from cpu_sampling [OF r bad, of "''c''" 2 "[]" 4] show ?thesis by (simp add: Let_def)
qed

end
