(* ===== verification/Nvml.thy ===== *)
theory Nvml imports Sizes Procmap begin

text \<open>
  \<open>labgpu/nvml.py\<close>: what the rest knows of the GPUs. The NVML library is a parameter: the
  answers of one device, or the exception it raises. The fake reader works on the parsed
  JSON file, which it reads again on every call.
\<close>

record gpu_info =
  index :: int
  uuid :: string
  name :: string
  memory :: int
  pci_bus_id :: string

record gpu_process =
  pid :: int
  proc_memory :: int
  proc_sm :: int

record gpu_snapshot =
  info :: gpu_info
  snap_used :: int
  gpu_util :: int
  snap_processes :: "gpu_process list"

definition snap_free :: "gpu_snapshot \<Rightarrow> int" where
  "snap_free s = memory (info s) - snap_used s"

section \<open>The NVML reader\<close>

text \<open>The answers of one device: its name plate, its memory in use and utilisation, its compute
  processes with their memory if NVML knows it, and the utilisation samples newer than a
  time stamp (process, percent, time stamp), \<open>None\<close> when there are none.\<close>

record nvml_device =
  dev_uuid :: string
  dev_name :: string
  dev_total :: int
  dev_bus :: string
  dev_used :: int
  dev_util :: int
  dev_procs :: "(int \<times> int option) list"
  dev_samples :: "int \<Rightarrow> (int \<times> int \<times> int) list option"

definition info_of :: "int \<Rightarrow> nvml_device \<Rightarrow> gpu_info" where
  "info_of i d = \<lparr>index = i, uuid = dev_uuid d, name = dev_name d, memory = dev_total d, pci_bus_id = dev_bus d\<rparr>"

definition list_gpus :: "string + nvml_device list \<Rightarrow> gpu_info list result" where
  "list_gpus devices = (case devices of Inl e \<Rightarrow> Inl (NvmlError (''listing GPUs failed: '' @ e))
     | Inr ds \<Rightarrow> Inr (map (\<lambda>(i, d). info_of (int i) d) (enumerate 0 ds)))"

text \<open>\<open>_process_sm_util\<close>: the peak of each process and the newest time stamp.\<close>

definition sm_peak :: "(int \<times> int \<times> int) list \<Rightarrow> (int, int) pydict" where
  "sm_peak samples = fold (\<lambda>(p, u, _) r. dict_set p (max (get_or 0 r p) u) r) samples []"

definition process_sm_util :: "nvml_device \<Rightarrow> int \<Rightarrow> (int, int) pydict \<Rightarrow> (int, int) pydict \<times> (int, int) pydict" where
  "process_sm_util d i last_ts = (case dev_samples d (get_or 0 last_ts i) of
     None \<Rightarrow> ([], last_ts)
   | Some ss \<Rightarrow> (sm_peak ss, dict_set i (fold (\<lambda>(_, _, t) m. max m t) ss (get_or 0 last_ts i)) last_ts))"

definition nvml_snapshot :: "(int \<Rightarrow> string + nvml_device) \<Rightarrow> int \<Rightarrow> (int, int) pydict \<Rightarrow>
    gpu_snapshot result \<times> (int, int) pydict" where
  "nvml_snapshot device i last_ts = (case device i of
     Inl e \<Rightarrow> (Inl (NvmlError (''GPU '' @ int_str i @ '' snapshot failed: '' @ e)), last_ts)
   | Inr d \<Rightarrow> (let (sm, ts) = process_sm_util d i last_ts in
       (Inr \<lparr>info = info_of i d, snap_used = dev_used d, gpu_util = dev_util d,
             snap_processes = map (\<lambda>(p, m). \<lparr>pid = p, proc_memory = (case m of None \<Rightarrow> 0 | Some b \<Rightarrow> b),
               proc_sm = get_or 0 sm p\<rparr>) (dev_procs d)\<rparr>, ts)))"

section \<open>The fake reader\<close>

definition as_nvml_error :: "string \<Rightarrow> pyval result \<Rightarrow> pyval result" where
  "as_nvml_error file r = (case r of Inl e \<Rightarrow> if is_os_error e \<or> is_value_error e
       then Inl (NvmlError (''fake NVML file '' @ file @ '': '' @ exc_str e)) else Inl e
     | Inr v \<Rightarrow> Inr v)"

text \<open>\<open>d[k]\<close> and \<open>d.get(k, dflt)\<close> on a decoded value; \<open>str_at\<close> takes a field that is declared
  as a string and holds one.\<close>

definition item :: "pyval \<Rightarrow> string \<Rightarrow> pyval result" where
  "item v k = (case v of PDict d \<Rightarrow> (case dict_get d k of Some w \<Rightarrow> Inr w | None \<Rightarrow> Inl (KeyError (repr_str k)))
     | _ \<Rightarrow> Inl (TypeError (repr_str (type_name v) @ '' is not indexed by keys'')))"

definition get_item :: "pyval \<Rightarrow> string \<Rightarrow> pyval \<Rightarrow> pyval result" where
  "get_item v k dflt = (case v of PDict d \<Rightarrow> Inr (get_or dflt d k)
     | _ \<Rightarrow> Inl (AttributeError (repr_str (type_name v) @ '' object has no attribute '' @ repr_str ''get'')))"

definition as_string :: "pyval \<Rightarrow> string result" where
  "as_string v = (case v of PStr s \<Rightarrow> Inr s | _ \<Rightarrow> Inl (TypeError ''not a string''))"

definition as_items :: "pyval \<Rightarrow> pyval list result" where
  "as_items v = (case v of PList xs \<Rightarrow> Inr xs | _ \<Rightarrow> Inl (TypeError ''not a list''))"

definition int_value :: "pyval \<Rightarrow> int result" where
  "int_value v = (case v of PInt i \<Rightarrow> Inr i | PBool b \<Rightarrow> Inr (if b then 1 else 0) | PFloat x \<Rightarrow> Inr (trunc x)
     | PStr s \<Rightarrow> (case py_int s of Some i \<Rightarrow> Inr i
         | None \<Rightarrow> Inl (ValueError (''invalid literal for int() with base 10: '' @ repr_str s)))
     | _ \<Rightarrow> Inl (TypeError (''int() argument must be a number, not '' @ repr_str (type_name v))))"

text \<open>\<open>f"{n:02X}"\<close>.\<close>

definition hex2 :: "int \<Rightarrow> string" where
  "hex2 n = (let digit = (\<lambda>k. ''0123456789ABCDEF'' ! nat k)
     in if n < 256 then [digit (n div 16), digit (n mod 16)]
        else map digit (rev (map (\<lambda>k. (n div 16 ^ k) mod 16) [0..<num_digits 16 (nat n)])))"

definition default_bus :: "int \<Rightarrow> string" where
  "default_bus i = ''00000000:'' @ hex2 (i + 16) @ '':00.0''"

definition fake_info :: "int \<Rightarrow> pyval \<Rightarrow> gpu_info result" where
  "fake_info i g =
     rbind (rbind (item g ''uuid'') as_string) (\<lambda>u.
     rbind (rbind (item g ''name'') as_string) (\<lambda>n.
     rbind (rbind (item g ''memory'') parse_size) (\<lambda>m.
     rbind (rbind (get_item g ''pci'' (PStr (default_bus i))) as_string) (\<lambda>b.
       Inr \<lparr>index = i, uuid = u, name = n, memory = m, pci_bus_id = b\<rparr>))))"

definition fake_gpus :: "pyval result \<Rightarrow> pyval list result" where
  "fake_gpus doc = rbind doc (\<lambda>d. rbind (item d ''gpus'') as_items)"

definition fake_list_gpus :: "pyval result \<Rightarrow> gpu_info list result" where
  "fake_list_gpus doc = rbind (fake_gpus doc) (\<lambda>gs.
     traverse (\<lambda>(i, g). fake_info (int i) g) (enumerate 0 gs))"

definition fake_process :: "pyval \<Rightarrow> gpu_process result" where
  "fake_process p = rbind (rbind (item p ''pid'') int_value) (\<lambda>i.
     rbind (rbind (get_item p ''mem'' (PInt 0)) parse_size) (\<lambda>m.
     rbind (rbind (get_item p ''sm'' (PInt 0)) int_value) (\<lambda>u. Inr \<lparr>pid = i, proc_memory = m, proc_sm = u\<rparr>)))"

definition fake_used :: "pyval \<Rightarrow> gpu_process list \<Rightarrow> int result" where
  "fake_used g ps = rbind (get_item g ''used'' PNone) (\<lambda>u. case g of
     PDict d \<Rightarrow> (case dict_get d ''used'' of Some v \<Rightarrow> parse_size v | None \<Rightarrow> Inr (sum_list (map proc_memory ps)))
   | _ \<Rightarrow> Inr 0)"

text \<open>Negative indices, which Python counts from the end, are never asked for.\<close>

definition fake_snapshot :: "pyval result \<Rightarrow> int \<Rightarrow> gpu_snapshot result" where
  "fake_snapshot doc i = rbind (fake_gpus doc) (\<lambda>gs.
     if int (length gs) \<le> i then Inl (NvmlError (''GPU '' @ int_str i @ '' not found''))
     else (let g = gs ! nat (if i < 0 then i + int (length gs) else i) in
       rbind (get_item g ''fail'' PNone) (\<lambda>f.
       if truthy f then Inl (NvmlError (''GPU '' @ int_str i @ '': simulated failure''))
       else rbind (rbind (get_item g ''processes'' (PList [])) as_items) (\<lambda>ps.
            rbind (traverse fake_process ps) (\<lambda>procs.
            rbind (fake_used g procs) (\<lambda>used.
            rbind (fake_info i g) (\<lambda>inf.
            rbind (rbind (get_item g ''util'' (PInt 0)) int_value) (\<lambda>u.
              Inr \<lparr>info = inf, snap_used = used, gpu_util = u, snap_processes = procs\<rparr>))))))))"

definition fake_pid_entry :: "pyval \<Rightarrow> (int \<times> string option) result" where
  "fake_pid_entry p = rbind (rbind (item p ''pid'') int_value) (\<lambda>i.
     rbind (get_item p ''container'' PNone) (\<lambda>c. Inr (i, case c of PStr s \<Rightarrow> Some s | _ \<Rightarrow> None)))"

definition fake_container_of_pids :: "pyval result \<Rightarrow> int list \<Rightarrow> (int, string option) pydict result" where
  "fake_container_of_pids doc pids = rbind (fake_gpus doc) (\<lambda>gs.
     rbind (traverse (\<lambda>g. rbind (rbind (get_item g ''processes'' (PList [])) as_items) (traverse fake_pid_entry)) gs)
       (\<lambda>es. (let mapping = dict_of (concat es) in Inr (dict_of (map (\<lambda>p. (p, get_or None mapping p)) pids)))))"

text \<open>\<open>open_reader\<close>: the fake reader, when its variable is set to something.\<close>

definition fake_wanted :: "(string, string) pydict \<Rightarrow> string option" where
  "fake_wanted environ = (let f = get_or [] environ ''LABGPU_FAKE_NVML'' in if f = [] then None else Some f)"

section \<open>The interface of a GPU source\<close>

text \<open>
  What the observer relies on: the listing numbers the GPUs from zero, a snapshot is of the
  GPU it was asked for, and while the machine does not change it agrees with the listing.
\<close>

locale gpu_source =
  fixes listing :: "gpu_info list result"
    and snap :: "int \<Rightarrow> gpu_snapshot result"
  assumes numbered: "listing = Inr gs \<Longrightarrow> i < length gs \<Longrightarrow> index (gs ! i) = int i"
    and agrees: "listing = Inr gs \<Longrightarrow> i < length gs \<Longrightarrow> snap (int i) = Inr s \<Longrightarrow> info s = gs ! i"
begin

lemma snapshot_of_listed:
  assumes "listing = Inr gs" "g \<in> set gs" "snap (index g) = Inr s"
  shows "info s = g"
proof -
  from assms(2) obtain i where "i < length gs" "g = gs ! i" by (auto simp: in_set_conv_nth)
  then show ?thesis using assms numbered agrees by metis
qed

lemma indices_distinct: "listing = Inr gs \<Longrightarrow> distinct (map index gs)"
  by (auto simp: distinct_conv_nth numbered)

end

lemma fake_info_index: "fake_info i g = Inr x \<Longrightarrow> index x = i"
  by (auto simp: fake_info_def rbind_Inr_iff)

lemma fake_snapshot_info: "fake_snapshot doc i = Inr s \<Longrightarrow> \<exists>gs. fake_gpus doc = Inr gs \<and> i < int (length gs) \<and>
    fake_info i (gs ! nat (if i < 0 then i + int (length gs) else i)) = Inr (info s)"
  by (auto simp: fake_snapshot_def Let_def rbind_Inr_iff split: if_splits)

lemma enumerate_traverse_nth: "traverse (\<lambda>(i, g). f (int i) g) (enumerate 0 gs) = Inr xs \<Longrightarrow>
    length xs = length gs \<and> (\<forall>i < length gs. f (int i) (gs ! i) = Inr (xs ! i))"
  by (auto simp: traverse_Inr_iff list_all2_conv_all_nth nth_enumerate_eq)

interpretation fake: gpu_source "fake_list_gpus doc" "fake_snapshot doc" for doc
proof
  fix gs i assume l: "fake_list_gpus doc = Inr gs" and i: "i < length gs"
  then obtain ds where ds: "fake_gpus doc = Inr ds" "traverse (\<lambda>(i, g). fake_info (int i) g) (enumerate 0 ds) = Inr gs"
    by (auto simp: fake_list_gpus_def rbind_Inr_iff)
  from enumerate_traverse_nth [OF ds(2)] i have n: "fake_info (int i) (ds ! i) = Inr (gs ! i)" by simp
  then show "index (gs ! i) = int i" by (rule fake_info_index)
  fix s assume "fake_snapshot doc (int i) = Inr s"
  from fake_snapshot_info [OF this] ds(1) n show "info s = gs ! i" by auto
qed

lemma nvml_snapshot_info: "fst (nvml_snapshot device i ts) = Inr s \<Longrightarrow> \<exists>d. device i = Inr d \<and> info s = info_of i d"
  by (auto simp: nvml_snapshot_def Let_def case_prod_unfold split: sum.splits)

interpretation real: gpu_source "list_gpus (Inr ds)"
  "\<lambda>i. fst (nvml_snapshot (\<lambda>j. if 0 \<le> j \<and> j < int (length ds) then Inr (ds ! nat j) else Inl []) i ts)" for ds ts
proof
  fix gs i assume l: "list_gpus (Inr ds) = Inr gs" and i: "i < length gs"
  then have gs: "gs = map (\<lambda>(i, d). info_of (int i) d) (enumerate 0 ds)" by (simp add: list_gpus_def)
  with i have n: "i < length ds" "gs ! i = info_of (int i) (ds ! i)" by (auto simp: nth_enumerate_eq)
  then show "index (gs ! i) = int i" by (simp add: info_of_def)
  fix s assume "fst (nvml_snapshot (\<lambda>j. if 0 \<le> j \<and> j < int (length ds) then Inr (ds ! nat j) else Inl []) (int i) ts) = Inr s"
  from nvml_snapshot_info [OF this] n show "info s = gs ! i" by auto
qed

end
