(* ===== verification/Observer.thy ===== *)
theory Observer imports Nvml Docker Detector begin

text \<open>
  \<open>labgpu/spot/observer.py\<close>: the observation of each GPU, from its NVML snapshot, the owner
  and spot containers of Docker, the container of each process, and the owners' CPU use.
\<close>

definition by_index :: "gpu_info list \<Rightarrow> (string, string) pydict" where
  "by_index gpus = dict_of (map (\<lambda>g. (int_str (index g), uuid g)) gpus)"

fun resolve_acc :: "gpu_info list \<Rightarrow> string list \<Rightarrow> string set \<Rightarrow> string set" where
  "resolve_acc gpus [] result = result"
| "resolve_acc gpus (r # refs) result =
     (if r = ''all'' then uuid ` set gpus
      else if r \<in> uuid ` set gpus then resolve_acc gpus refs (insert r result)
      else case dict_get (by_index gpus) r of
             Some u \<Rightarrow> resolve_acc gpus refs (insert u result)
           | None \<Rightarrow> resolve_acc gpus refs result)"

definition resolve_gpu_refs :: "string list \<Rightarrow> gpu_info list \<Rightarrow> string set" where
  "resolve_gpu_refs refs gpus = resolve_acc gpus refs {}"

text \<open>\<open>sum\<close> of floats, which compensates rounding errors (Neumaier).\<close>

fun compensated_sum :: "rat \<Rightarrow> rat \<Rightarrow> rat list \<Rightarrow> rat" where
  "compensated_sum s c [] = fadd s c"
| "compensated_sum s c (x # xs) = (let t = fadd s x in
     compensated_sum t (fadd c (if \<bar>x\<bar> \<le> \<bar>s\<bar> then fadd (fsub s t) x else fadd (fsub x t) s)) xs)"

definition float_sum :: "rat list \<Rightarrow> rat" where
  "float_sum xs = (case xs of [] \<Rightarrow> 0 | x # ys \<Rightarrow> compensated_sum x 0 ys)"

definition owner_cores :: "(string, rat option) pydict \<Rightarrow> string list \<Rightarrow> rat option" where
  "owner_cores owner_cpu cids =
     (let measured = List.map_filter (\<lambda>cid. get_or None owner_cpu cid) cids
      in if measured = [] then None else Some (float_sum measured))"

definition classify :: "string \<Rightarrow> (string, owner_container) pydict \<Rightarrow> (string, string option) pydict \<Rightarrow>
    string option \<Rightarrow> proc_kind" where
  "classify gpu owners_on_gpu spot_gpu cid = (case cid of
     None \<Rightarrow> UNKNOWN_PROC
   | Some c \<Rightarrow> (case dict_get spot_gpu c of
       Some g \<Rightarrow> if g = Some gpu then SPOT else UNKNOWN_PROC
     | None \<Rightarrow> if c \<in> set (dict_keys owners_on_gpu) then OWNER else UNKNOWN_PROC))"

definition build_observation :: "gpu_snapshot \<Rightarrow> (int, string option) pydict \<Rightarrow>
    (string, owner_container) pydict \<Rightarrow> (string, string option) pydict \<Rightarrow> (string, rat option) pydict \<Rightarrow>
    gpu_observation" where
  "build_observation s pid_to_container owners_on_gpu spot_gpu owner_cpu =
     \<lparr>obs_uuid = uuid (info s), obs_index = index (info s), obs_ok = True,
      total_memory = memory (info s), used_memory = snap_used s,
      processes = map (\<lambda>p. let cid = get_or None pid_to_container (pid p) in
        \<lparr>cp_pid = pid p, kind = classify (uuid (info s)) owners_on_gpu spot_gpu cid, container_id = cid,
         cp_used_memory = proc_memory p, sm_util = proc_sm p\<rparr>) (snap_processes s),
      owner_containers = set (dict_keys owners_on_gpu),
      owner_cpu_cores = owner_cores owner_cpu (dict_keys owners_on_gpu),
      obs_error = None, obs_model = name (info s)\<rparr>"

text \<open>The owners attached to a GPU, by container.\<close>

definition owners_of :: "gpu_info list \<Rightarrow> owner_container list \<Rightarrow> string \<Rightarrow> (string, owner_container) pydict" where
  "owners_of gpus owners gpu =
     fold (\<lambda>oc d. if gpu \<in> resolve_gpu_refs (gpu_refs oc) gpus then dict_set (oc_id oc) oc d else d) owners []"

definition spot_gpus :: "spot_container list \<Rightarrow> (string, string option) pydict" where
  "spot_gpus spots = dict_of (map (\<lambda>s. (sc_id s, sc_gpu_uuid s)) (filter running spots))"

definition is_observed_error :: "py_exc \<Rightarrow> bool" where
  "is_observed_error e = (is_os_error e \<or> (case e of NvmlError _ \<Rightarrow> True | _ \<Rightarrow> False))"

definition observe_gpu :: "(int \<Rightarrow> gpu_snapshot result) \<Rightarrow> (int list \<Rightarrow> (int, string option) pydict result) \<Rightarrow>
    (string, owner_container) pydict \<Rightarrow> (string, string option) pydict \<Rightarrow> (string, rat option) pydict \<Rightarrow>
    gpu_info \<Rightarrow> gpu_observation result" where
  "observe_gpu snapshot pid_mapper owners_on_gpu spot_gpu owner_cpu g =
     (case rbind (snapshot (index g)) (\<lambda>s.
             if uuid (info s) \<noteq> uuid g then Inl (NvmlError (''GPU index '' @ int_str (index g) @ '' changed identity''))
             else rmap (Pair s) (pid_mapper (map pid (snap_processes s)))) of
        Inl e \<Rightarrow> if is_observed_error e
          then Inr (failed_observation (uuid g) (index g) (name g) (exc_str e)) else Inl e
      | Inr (s, pid_map) \<Rightarrow> Inr (build_observation s pid_map owners_on_gpu spot_gpu owner_cpu))"

definition observe :: "gpu_info list \<Rightarrow> (int \<Rightarrow> gpu_snapshot result) \<Rightarrow> owner_container list \<Rightarrow>
    spot_container list \<Rightarrow> (int list \<Rightarrow> (int, string option) pydict result) \<Rightarrow> (string, rat option) pydict \<Rightarrow>
    gpu_observation list result" where
  "observe gpus snapshot owners spots pid_mapper owner_cpu =
     traverse (\<lambda>g. observe_gpu snapshot pid_mapper (owners_of gpus owners (uuid g)) (spot_gpus spots) owner_cpu g) gpus"

section \<open>References and owners\<close>

lemma by_index_get: "distinct (map index gpus) \<Longrightarrow>
    dict_get (by_index gpus) r = map_option uuid (find (\<lambda>g. int_str (index g) = r) gpus)"
proof -
  assume d: "distinct (map index gpus)"
  have "distinct (map (int_str \<circ> index) gpus)" using d by (auto simp: distinct_map inj_on_def dest: int_str_inj)
  then have "distinct (map fst (map (\<lambda>g. (int_str (index g), uuid g)) gpus))" by (simp add: comp_def)
  then have "dict_get (by_index gpus) r = map_of (map (\<lambda>g. (int_str (index g), uuid g)) gpus) r"
    by (simp add: by_index_def dict_of_id del: map_map)
  also have "\<dots> = map_option uuid (find (\<lambda>g. int_str (index g) = r) gpus)" by (induction gpus) auto
  finally show ?thesis .
qed

definition ref_target :: "gpu_info list \<Rightarrow> string \<Rightarrow> string option" where
  "ref_target gpus r = (if r \<in> uuid ` set gpus then Some r else dict_get (by_index gpus) r)"

lemma resolve_acc_eq: "resolve_acc gpus refs res = (if ''all'' \<in> set refs then uuid ` set gpus
    else res \<union> {u. \<exists>r \<in> set refs. ref_target gpus r = Some u})"
  by (induction refs arbitrary: res) (auto simp: ref_target_def split: option.splits)

text \<open>A GPU a reference names: all of them, by UUID, or by index.\<close>

definition names_gpu :: "gpu_info list \<Rightarrow> string \<Rightarrow> gpu_info \<Rightarrow> bool" where
  "names_gpu gpus r g = (r = ''all'' \<or> r = uuid g \<or> r \<notin> uuid ` set gpus \<and> int_str (index g) = r)"

lemma ref_target_iff:
  assumes "distinct (map index gpus)" "distinct (map uuid gpus)" "g \<in> set gpus"
  shows "ref_target gpus r = Some (uuid g) \<longleftrightarrow> r = uuid g \<or> r \<notin> uuid ` set gpus \<and> int_str (index g) = r"
proof (cases "r \<in> uuid ` set gpus")
  case True
  then show ?thesis by (simp add: ref_target_def)
next
  case False
  have same: "h = g" if "h \<in> set gpus" "int_str (index h) = int_str (index g) \<or> uuid h = uuid g" for h
    using that assms by (metis distinct_map inj_on_eq_iff int_str_inj)
  have "find (\<lambda>g. int_str (index g) = int_str (index g')) gpus = Some g'" if "g' \<in> set gpus" for g'
  proof (cases "find (\<lambda>g. int_str (index g) = int_str (index g')) gpus")
    case None
    then show ?thesis using that by (auto simp: find_None_all)
  next
    case (Some h)
    then have "h \<in> set gpus" "int_str (index h) = int_str (index g')" by (auto dest: find_Some_in)
    then show ?thesis using Some that assms(1) by (metis distinct_map inj_on_eq_iff int_str_inj)
  qed
  then have "map_option uuid (find (\<lambda>g. int_str (index g) = r) gpus) = Some (uuid g) \<longleftrightarrow> int_str (index g) = r"
    using assms(3) same by (auto dest: find_Some_in)
  then show ?thesis using False assms(3) by (auto simp: ref_target_def by_index_get [OF assms(1)])
qed

lemma resolve_iff:
  assumes "distinct (map index gpus)" "distinct (map uuid gpus)" "g \<in> set gpus"
  shows "uuid g \<in> resolve_gpu_refs refs gpus \<longleftrightarrow> (\<exists>r \<in> set refs. names_gpu gpus r g)"
  using ref_target_iff [OF assms] assms(3)
  by (auto simp: resolve_gpu_refs_def resolve_acc_eq names_gpu_def)

lemma owners_of_keys: "set (dict_keys (owners_of gpus owners gpu)) =
    {oc_id oc | oc. oc \<in> set owners \<and> gpu \<in> resolve_gpu_refs (gpu_refs oc) gpus}"
proof -
  have "fst ` set (fold (\<lambda>oc d. if gpu \<in> resolve_gpu_refs (gpu_refs oc) gpus then dict_set (oc_id oc) oc d else d) owners d) =
      fst ` set d \<union> {oc_id oc | oc. oc \<in> set owners \<and> gpu \<in> resolve_gpu_refs (gpu_refs oc) gpus}" for d
    by (induction owners arbitrary: d) (auto simp: dict_keys_set)
  from this [of "[]"] show ?thesis by (simp add: owners_of_def)
qed

section \<open>Observations\<close>

lemma spot_gpus_get: "distinct (map sc_id spots) \<Longrightarrow>
    dict_get (spot_gpus spots) c = Some g \<longleftrightarrow> (\<exists>s \<in> set spots. running s \<and> sc_id s = c \<and> sc_gpu_uuid s = g)"
proof -
  assume "distinct (map sc_id spots)"
  then have "distinct (map sc_id (filter running spots))" by (rule distinct_map_filter)
  then have d: "distinct (map fst (map (\<lambda>s. (sc_id s, sc_gpu_uuid s)) (filter running spots)))" by (simp add: comp_def)
  have "dict_get (spot_gpus spots) = map_of (map (\<lambda>s. (sc_id s, sc_gpu_uuid s)) (filter running spots))"
    unfolding spot_gpus_def dict_of_id [OF d] ..
  then show ?thesis using d by (auto simp: map_of_eq_Some_iff simp del: map_map)
qed

text \<open>Whether a container is an owner attached to a GPU, and whether it is a running spot of it.\<close>

definition attached_owner :: "gpu_info list \<Rightarrow> owner_container list \<Rightarrow> gpu_info \<Rightarrow> string \<Rightarrow> bool" where
  "attached_owner gpus owners g c = (\<exists>oc \<in> set owners. oc_id oc = c \<and> (\<exists>r \<in> set (gpu_refs oc). names_gpu gpus r g))"

definition running_spot_of :: "spot_container list \<Rightarrow> gpu_info \<Rightarrow> string \<Rightarrow> bool" where
  "running_spot_of spots g c = (\<exists>s \<in> set spots. running s \<and> sc_id s = c \<and> sc_gpu_uuid s = Some (uuid g))"

definition expected_kind :: "gpu_info list \<Rightarrow> owner_container list \<Rightarrow> spot_container list \<Rightarrow> gpu_info \<Rightarrow>
    string option \<Rightarrow> proc_kind" where
  "expected_kind gpus owners spots g cid = (case cid of None \<Rightarrow> UNKNOWN_PROC
   | Some c \<Rightarrow> if running_spot_of spots g c then SPOT
       else if attached_owner gpus owners g c \<and> (\<forall>s \<in> set spots. running s \<longrightarrow> sc_id s \<noteq> c) then OWNER
       else UNKNOWN_PROC)"

lemma owners_of_mem: "distinct (map index gpus) \<Longrightarrow> distinct (map uuid gpus) \<Longrightarrow> g \<in> set gpus \<Longrightarrow>
    c \<in> set (dict_keys (owners_of gpus owners (uuid g))) \<longleftrightarrow> attached_owner gpus owners g c"
  unfolding owners_of_keys attached_owner_def by (auto simp: resolve_iff)

lemma classify_expected:
  assumes "distinct (map index gpus)" "distinct (map uuid gpus)" "g \<in> set gpus" "distinct (map sc_id spots)"
  shows "classify (uuid g) (owners_of gpus owners (uuid g)) (spot_gpus spots) cid = expected_kind gpus owners spots g cid"
proof (cases cid)
  case (Some c)
  note sg = spot_gpus_get [OF assms(4), of c]
  show ?thesis
  proof (cases "dict_get (spot_gpus spots) c")
    case None
    then have "\<forall>s \<in> set spots. running s \<longrightarrow> sc_id s \<noteq> c" using sg by fastforce
    then show ?thesis
      using None Some owners_of_mem [OF assms(1-3)]
      by (auto simp: classify_def expected_kind_def running_spot_of_def simp del: list.set_map)
  next
    case (Some k)
    then obtain s where s: "s \<in> set spots" "running s" "sc_id s = c" "sc_gpu_uuid s = k" using sg by blast
    have "k = Some (uuid g) \<longleftrightarrow> running_spot_of spots g c"
      using sg [of "Some (uuid g)"] Some by (auto simp: running_spot_of_def)
    then show ?thesis using Some \<open>cid = Some c\<close> s by (auto simp: classify_def expected_kind_def)
  qed
qed (simp add: classify_def expected_kind_def)

lemma observe_gpu_cases:
  assumes "observe_gpu snapshot pid_mapper ow sg cpu g = Inr ob"
  obtains (failed) e where "ob = failed_observation (uuid g) (index g) (name g) e"
  | (seen) s pm where "snapshot (index g) = Inr s" "uuid (info s) = uuid g"
      "pid_mapper (map pid (snap_processes s)) = Inr pm" "ob = build_observation s pm ow sg cpu"
proof (cases "rbind (snapshot (index g)) (\<lambda>s.
    if uuid (info s) \<noteq> uuid g then Inl (NvmlError (''GPU index '' @ int_str (index g) @ '' changed identity''))
    else rmap (Pair s) (pid_mapper (map pid (snap_processes s))))")
  case (Inl e)
  then show thesis using assms failed by (auto simp: observe_gpu_def split: if_splits)
next
  case (Inr p)
  then show thesis using assms seen by (auto simp: observe_gpu_def rbind_Inr_iff rmap_Inr_iff split: if_splits)
qed

text \<open>C19: every process of a GPU is accounted for. The observations are those of the listed GPUs,
  one each, in order. An observation that succeeded shows exactly the processes of the GPU's
  snapshot, with their memory and utilisation, each classified by its container: a running
  spot of this GPU; else an owner attached to this GPU (by UUID, index or "all") whose
  container is no spot; else unknown, which includes processes without container, owners
  of other GPUs and spots of other GPUs. Its owners are exactly the attached ones.\<close>

theorem processes_accounted_for:
  assumes "observe gpus snapshot owners spots pid_mapper owner_cpu = Inr obs"
    and "distinct (map index gpus)" "distinct (map uuid gpus)" "distinct (map sc_id spots)"
  shows "map obs_uuid obs = map uuid gpus \<and>
    (\<forall>i < length gpus. obs_ok (obs ! i) \<longrightarrow> (\<exists>s pm. snapshot (index (gpus ! i)) = Inr s \<and>
       pid_mapper (map pid (snap_processes s)) = Inr pm \<and>
       map (\<lambda>p. (cp_pid p, cp_used_memory p, sm_util p, kind p)) (processes (obs ! i)) =
       map (\<lambda>p. (pid p, proc_memory p, proc_sm p,
         expected_kind gpus owners spots (gpus ! i) (get_or None pm (pid p)))) (snap_processes s) \<and>
       free_memory (obs ! i) = snap_free s \<and>
       owner_containers (obs ! i) = {c. attached_owner gpus owners (gpus ! i) c}))"
proof -
  let ?og = "\<lambda>g. observe_gpu snapshot pid_mapper (owners_of gpus owners (uuid g)) (spot_gpus spots) owner_cpu g"
  have l2: "list_all2 (\<lambda>g ob. ?og g = Inr ob) gpus obs" using assms(1) by (simp add: observe_def traverse_Inr_iff)
  then have len: "length obs = length gpus" by (simp add: list_all2_lengthD)
  have each: "?og (gpus ! i) = Inr (obs ! i)" if "i < length gpus" for i
    using l2 that by (simp add: list_all2_conv_all_nth)
  have uuid: "obs_uuid (obs ! i) = uuid (gpus ! i)" if "i < length gpus" for i
    using each [OF that] by (cases rule: observe_gpu_cases) (simp_all add: failed_observation_def build_observation_def)
  have "\<exists>s pm. snapshot (index (gpus ! i)) = Inr s \<and> pid_mapper (map pid (snap_processes s)) = Inr pm \<and>
       map (\<lambda>p. (cp_pid p, cp_used_memory p, sm_util p, kind p)) (processes (obs ! i)) =
       map (\<lambda>p. (pid p, proc_memory p, proc_sm p,
         expected_kind gpus owners spots (gpus ! i) (get_or None pm (pid p)))) (snap_processes s) \<and>
       free_memory (obs ! i) = snap_free s \<and>
       owner_containers (obs ! i) = {c. attached_owner gpus owners (gpus ! i) c}"
    if i: "i < length gpus" and ok: "obs_ok (obs ! i)" for i
    using each [OF i]
  proof (cases rule: observe_gpu_cases)
    case (failed e)
    then show ?thesis using ok by (simp add: failed_observation_def)
  next
    case (seen s pm)
    have mem: "gpus ! i \<in> set gpus" using i by simp
    note kinds = classify_expected [OF assms(2,3) mem assms(4)] and ow = owners_of_mem [OF assms(2,3) mem]
    have "owner_containers (obs ! i) = {c. attached_owner gpus owners (gpus ! i) c}"
      using ow [of _ owners] by (auto simp: seen(4) build_observation_def simp del: list.set_map)
    then show ?thesis
      using seen kinds by (auto simp: build_observation_def Let_def snap_free_def free_memory_def)
  qed
  moreover have "map obs_uuid obs = map uuid gpus"
    by (rule nth_equalityI) (simp_all add: len uuid)
  ultimately show ?thesis by blast
qed

text \<open>C20: a process nobody can account for keeps a GPU from being lent, and so does a failed
  observation. Unless the snapshot of the GPU could be taken, was of that GPU, its processes
  could be mapped to containers, and each of them is in an owner container attached to that
  GPU or in a spot container of it, then, whatever the tracker remembers, the GPU is not
  offered, and a spot on it that is not being reclaimed yet is reclaimed.\<close>

theorem stranger_blocks_lending:
  assumes "observe gpus snapshot owners spots pid_mapper owner_cpu = Inr obs"
    and "distinct (map index gpus)" "distinct (map uuid gpus)" "distinct (map sc_id spots)" "i < length gpus"
    and "\<forall>s pm. snapshot (index (gpus ! i)) = Inr s \<and> uuid (info s) = uuid (gpus ! i) \<and>
      pid_mapper (map pid (snap_processes s)) = Inr pm \<longrightarrow>
      (\<exists>p \<in> set (snap_processes s). \<forall>c. get_or None pm (pid p) = Some c \<longrightarrow>
         \<not> attached_owner gpus owners (gpus ! i) c \<and> \<not> running_spot_of spots (gpus ! i) c)"
  shows "\<not> lendable (fst (update t (obs ! i) now ic rc lent recl blocked)) \<and>
    (must_reclaim (fst (update t (obs ! i) now ic rc lent recl blocked)) \<longleftrightarrow> lent \<and> \<not> recl)"
proof (cases "obs_ok (obs ! i)")
  case False
  then show ?thesis by (simp add: update_lendable update_must_reclaim)
next
  case True
  have "observe_gpu snapshot pid_mapper (owners_of gpus owners (uuid (gpus ! i))) (spot_gpus spots) owner_cpu (gpus ! i) =
      Inr (obs ! i)"
    using assms(1,5) by (simp add: observe_def traverse_Inr_iff list_all2_conv_all_nth)
  then have "has_unknown (obs ! i)"
  proof (cases rule: observe_gpu_cases)
    case (seen s pm)
    then obtain p where p: "p \<in> set (snap_processes s)" "\<forall>c. get_or None pm (pid p) = Some c \<longrightarrow>
        \<not> attached_owner gpus owners (gpus ! i) c \<and> \<not> running_spot_of spots (gpus ! i) c"
      using assms(6) by blast
    have mem: "gpus ! i \<in> set gpus" using assms(5) by simp
    have "expected_kind gpus owners spots (gpus ! i) (get_or None pm (pid p)) = UNKNOWN_PROC"
      using p(2) by (auto simp: expected_kind_def split: option.splits)
    then have "classify (uuid (info s)) (owners_of gpus owners (uuid (gpus ! i))) (spot_gpus spots)
        (get_or None pm (pid p)) = UNKNOWN_PROC"
      using classify_expected [OF assms(2,3) mem assms(4)] seen(2) by simp
    then show ?thesis
      using p(1) unfolding seen(4) by (force simp: has_unknown_iff build_observation_def Let_def)
  qed (use True in \<open>simp add: failed_observation_def\<close>)
  then have "activity_reasons t (obs ! i) ic \<noteq> []" by (simp add: activity_Nil_iff)
  then show ?thesis by (simp add: update_lendable update_must_reclaim)
qed

text \<open>A machine with one GPU, an owner attached to it by index, and a stranger.\<close>

definition demo_gpu :: gpu_info where
  "demo_gpu = \<lparr>index = 0, uuid = ''GPU-a'', name = ''NVIDIA'', memory = 96, pci_bus_id = ''0''\<rparr>"

definition demo_snap :: gpu_snapshot where
  "demo_snap = \<lparr>info = demo_gpu, snap_used = 7, gpu_util = 3, snap_processes =
     [\<lparr>pid = 5, proc_memory = 4, proc_sm = 2\<rparr>, \<lparr>pid = 6, proc_memory = 3, proc_sm = 1\<rparr>]\<rparr>"

definition demo_owner :: owner_container where
  "demo_owner = \<lparr>oc_id = ''c1'', oc_pid = 5, gpu_refs = [''0'']\<rparr>"

definition demo_pids :: "(int, string option) pydict" where
  "demo_pids = [(5, Some ''c1''), (6, None)]"

lemma int_str_0: "int_str 0 = ''0''"
  by code_simp

lemma demo_observed: "\<exists>ob. observe [demo_gpu] (\<lambda>_. Inr demo_snap) [demo_owner] [] (\<lambda>_. Inr demo_pids) [] = Inr [ob] \<and>
    obs_ok ob"
  by (simp add: observe_def observe_gpu_def demo_snap_def build_observation_def)

theorem processes_accounted_for_witness:
  "\<exists>ob. observe [demo_gpu] (\<lambda>_. Inr demo_snap) [demo_owner] [] (\<lambda>_. Inr demo_pids) [] = Inr [ob] \<and>
     map kind (processes ob) = [OWNER, UNKNOWN_PROC]"
proof -
  obtain ob where ob: "observe [demo_gpu] (\<lambda>_. Inr demo_snap) [demo_owner] [] (\<lambda>_. Inr demo_pids) [] = Inr [ob]" "obs_ok ob"
    using demo_observed by blast
  have own: "attached_owner [demo_gpu] [demo_owner] demo_gpu ''c1''"
    using int_str_0 by (simp add: attached_owner_def demo_owner_def names_gpu_def demo_gpu_def)
  have "map (\<lambda>p. (cp_pid p, cp_used_memory p, sm_util p, kind p)) (processes ob) =
       map (\<lambda>p. (pid p, proc_memory p, proc_sm p,
         expected_kind [demo_gpu] [demo_owner] [] demo_gpu (get_or None demo_pids (pid p)))) (snap_processes demo_snap)"
    using processes_accounted_for [OF ob(1)] ob(2) by simp
  then have "map (\<lambda>p. (cp_pid p, cp_used_memory p, sm_util p, kind p)) (processes ob) = [(5, 4, 2, OWNER), (6, 3, 1, UNKNOWN_PROC)]"
    using own by (simp add: demo_snap_def demo_pids_def get_or_def expected_kind_def running_spot_of_def)
  then have "map (\<lambda>x. snd (snd (snd x))) (map (\<lambda>p. (cp_pid p, cp_used_memory p, sm_util p, kind p)) (processes ob)) =
      [OWNER, UNKNOWN_PROC]" by simp
  then show ?thesis using ob(1) by (auto simp: comp_def)
qed

text \<open>With the stranger, and with a GPU that does not answer.\<close>

theorem stranger_blocks_lending_witness:
  "(\<exists>ob. observe [demo_gpu] (\<lambda>_. Inr demo_snap) [demo_owner] [] (\<lambda>_. Inr demo_pids) [] = Inr [ob] \<and>
     must_reclaim (fst (update (new_tracker unused_gpu 0) ob 5 idle_defaults reclaim_defaults True False None))) \<and>
   (\<exists>ob. observe [demo_gpu] (\<lambda>_. Inl (NvmlError ''gone'')) [demo_owner] [] (\<lambda>_. Inr demo_pids) [] = Inr [ob] \<and>
     must_reclaim (fst (update (new_tracker unused_gpu 0) ob 5 idle_defaults reclaim_defaults True False None)))"
proof
  obtain ob where ob: "observe [demo_gpu] (\<lambda>_. Inr demo_snap) [demo_owner] [] (\<lambda>_. Inr demo_pids) [] = Inr [ob]"
    using demo_observed by blast
  have "must_reclaim (fst (update (new_tracker unused_gpu 0) ([ob] ! 0) 5 idle_defaults reclaim_defaults True False None))"
    using stranger_blocks_lending [OF ob, of 0 "new_tracker unused_gpu 0" 5 idle_defaults reclaim_defaults True False None]
    by (simp add: demo_snap_def demo_pids_def get_or_def)
  with ob show "\<exists>ob. observe [demo_gpu] (\<lambda>_. Inr demo_snap) [demo_owner] [] (\<lambda>_. Inr demo_pids) [] = Inr [ob] \<and>
     must_reclaim (fst (update (new_tracker unused_gpu 0) ob 5 idle_defaults reclaim_defaults True False None))" by simp
next
  obtain ob where ob: "observe [demo_gpu] (\<lambda>_. Inl (NvmlError ''gone'')) [demo_owner] [] (\<lambda>_. Inr demo_pids) [] = Inr [ob]"
    by (simp add: observe_def observe_gpu_def is_observed_error_def)
  have "must_reclaim (fst (update (new_tracker unused_gpu 0) ([ob] ! 0) 5 idle_defaults reclaim_defaults True False None))"
    using stranger_blocks_lending [OF ob, of 0 "new_tracker unused_gpu 0" 5 idle_defaults reclaim_defaults True False None] by simp
  with ob show "\<exists>ob. observe [demo_gpu] (\<lambda>_. Inl (NvmlError ''gone'')) [demo_owner] [] (\<lambda>_. Inr demo_pids) [] = Inr [ob] \<and>
     must_reclaim (fst (update (new_tracker unused_gpu 0) ob 5 idle_defaults reclaim_defaults True False None))" by simp
qed

section \<open>Observing a GPU source\<close>

text \<open>On a source that keeps the contract, the listing and the snapshots agree, so the check for
  a changed identity never fires.\<close>

context gpu_source begin

lemma observe_listed:
  assumes "listing = Inr gs" "g \<in> set gs" "snap (index g) = Inr s" "pid_mapper (map pid (snap_processes s)) = Inr pm"
  shows "observe_gpu snap pid_mapper ow sg cpu g = Inr (build_observation s pm ow sg cpu)"
  using snapshot_of_listed [OF assms(1-3)] assms(3,4) by (simp add: observe_gpu_def)

end

text \<open>What the fake reader serves is observed. With the JSON file unchanged between the two
  reads, every GPU whose snapshot and process containers it answers is observed
  successfully, under its own UUID and with the memory the file gives it.\<close>

theorem fake_gpus_observed:
  assumes "fake_list_gpus doc = Inr gs" "g \<in> set gs" "fake_snapshot doc (index g) = Inr s"
    and "fake_container_of_pids doc (map pid (snap_processes s)) = Inr pm"
  shows "\<exists>ob. observe_gpu (fake_snapshot doc) (fake_container_of_pids doc) ow sg cpu g = Inr ob \<and> obs_ok ob \<and>
    obs_uuid ob = uuid g \<and> total_memory ob = memory g \<and> used_memory ob = snap_used s \<and> distinct (map index gs)"
  using fake.observe_listed [OF assms(1-3), of "fake_container_of_pids doc", OF assms(4)]
    fake.snapshot_of_listed [OF assms(1-3)] fake.indices_distinct [OF assms(1)]
  by (simp add: build_observation_def)

definition demo_doc :: pyval where
  "demo_doc = PDict [(''gpus'', PList [PDict [(''uuid'', PStr ''GPU-a''), (''name'', PStr ''NVIDIA''), (''memory'', PInt 96),
     (''processes'', PList [PDict [(''pid'', PInt 5), (''mem'', PInt 4), (''container'', PStr ''c1'')]])]])]"

theorem fake_gpus_observed_witness:
  "\<exists>g s ob. fake_list_gpus (Inr demo_doc) = Inr [g] \<and> fake_snapshot (Inr demo_doc) 0 = Inr s \<and> snap_used s = 4 \<and>
     observe_gpu (fake_snapshot (Inr demo_doc)) (fake_container_of_pids (Inr demo_doc)) [] [] [] g = Inr ob \<and> obs_ok ob"
proof -
  obtain g where g: "fake_list_gpus (Inr demo_doc) = Inr [g]" "index g = 0"
    by (simp add: fake_list_gpus_def fake_gpus_def demo_doc_def item_def as_items_def fake_info_def as_string_def
        parse_size_def get_item_def get_or_def)
  obtain s where s: "fake_snapshot (Inr demo_doc) 0 = Inr s" "snap_used s = 4"
    by (simp add: fake_snapshot_def fake_gpus_def demo_doc_def item_def as_items_def fake_info_def as_string_def
        parse_size_def get_item_def get_or_def fake_process_def int_value_def fake_used_def Let_def)
  have "\<exists>pm. fake_container_of_pids (Inr demo_doc) ps = Inr pm" for ps
    by (simp add: fake_container_of_pids_def fake_gpus_def demo_doc_def item_def as_items_def get_item_def get_or_def
        fake_pid_entry_def int_value_def Let_def)
  then obtain pm where "fake_container_of_pids (Inr demo_doc) (map pid (snap_processes s)) = Inr pm" by blast
  from fake_gpus_observed [OF g(1), of g s pm "[]" "[]" "[]"] this g s show ?thesis by auto
qed

end
