(* ===== verification/Py_State.thy ===== *)
theory Py_State imports Prelude begin

text \<open>
  Methods that change an object and may raise: functions from the state to a result and the
  state left behind, also when an exception is raised. With the sequencing and loops of the
  sources come the rules of a Hoare logic, whose triples speak of both ways out.
\<close>

type_synonym ('s, 'a) effect = "'s \<Rightarrow> 'a result \<times> 's"

definition ret :: "'a \<Rightarrow> ('s, 'a) effect" where
  "ret x s = (Inr x, s)"

definition lift :: "'a result \<Rightarrow> ('s, 'a) effect" where
  "lift r s = (r, s)"

definition bnd :: "('s, 'a) effect \<Rightarrow> ('a \<Rightarrow> ('s, 'b) effect) \<Rightarrow> ('s, 'b) effect" where
  "bnd f g s = (case f s of (Inl e, s') \<Rightarrow> (Inl e, s') | (Inr x, s') \<Rightarrow> g x s')"

definition gets :: "('s \<Rightarrow> 'a) \<Rightarrow> ('s, 'a) effect" where
  "gets f s = (Inr (f s), s)"

definition modify :: "('s \<Rightarrow> 's) \<Rightarrow> ('s, unit) effect" where
  "modify f s = (Inr (), f s)"

text \<open>\<open>try: f except P: h\<close>.\<close>

definition catch :: "('s, 'a) effect \<Rightarrow> (py_exc \<Rightarrow> bool) \<Rightarrow> (py_exc \<Rightarrow> ('s, 'a) effect) \<Rightarrow> ('s, 'a) effect" where
  "catch f P h s = (case f s of (Inl e, s') \<Rightarrow> if P e then h e s' else (Inl e, s') | (Inr x, s') \<Rightarrow> (Inr x, s'))"

fun for_each :: "('x \<Rightarrow> ('s, unit) effect) \<Rightarrow> 'x list \<Rightarrow> ('s, unit) effect" where
  "for_each f [] = ret ()"
| "for_each f (x # xs) = bnd (f x) (\<lambda>_. for_each f xs)"

text \<open>Normal returns.\<close>

lemma bnd_Inr: "bnd f g c = (Inr y, c') \<longleftrightarrow> (\<exists>x c1. f c = (Inr x, c1) \<and> g x c1 = (Inr y, c'))"
  by (auto simp: bnd_def split: prod.splits sum.splits)

lemma lift_Inr: "lift r c = (Inr y, c') \<longleftrightarrow> r = Inr y \<and> c' = c"
  by (auto simp: lift_def)

lemma gets_Inr: "gets f c = (Inr y, c') \<longleftrightarrow> y = f c \<and> c' = c"
  by (auto simp: gets_def)

lemma modify_Inr: "modify f c = (Inr y, c') \<longleftrightarrow> c' = f c"
  by (auto simp: modify_def)

lemma ret_Inr: "ret x c = (Inr y, c') \<longleftrightarrow> y = x \<and> c' = c"
  by (auto simp: ret_def)

lemmas return_iffs = bnd_Inr lift_Inr gets_Inr modify_Inr ret_Inr

section \<open>Triples\<close>

definition hoare :: "('s \<Rightarrow> bool) \<Rightarrow> ('s, 'a) effect \<Rightarrow> ('a \<Rightarrow> 's \<Rightarrow> bool) \<Rightarrow> (py_exc \<Rightarrow> 's \<Rightarrow> bool) \<Rightarrow> bool" where
  "hoare P f Q E = (\<forall>s. P s \<longrightarrow> (case f s of (Inr x, s') \<Rightarrow> Q x s' | (Inl e, s') \<Rightarrow> E e s'))"

lemma hoareI: "(\<And>s x s'. P s \<Longrightarrow> f s = (Inr x, s') \<Longrightarrow> Q x s') \<Longrightarrow> (\<And>s e s'. P s \<Longrightarrow> f s = (Inl e, s') \<Longrightarrow> E e s') \<Longrightarrow>
    hoare P f Q E"
  unfolding hoare_def by (auto split: prod.split sum.split)

lemma hoareD: "hoare P f Q E \<Longrightarrow> P s \<Longrightarrow> f s = (Inr x, s') \<Longrightarrow> Q x s'"
  "hoare P f Q E \<Longrightarrow> P s \<Longrightarrow> f s = (Inl e, s') \<Longrightarrow> E e s'"
  unfolding hoare_def by fastforce+

lemma hoare_conseq: "hoare P f Q E \<Longrightarrow> (\<And>s. P' s \<Longrightarrow> P s) \<Longrightarrow> (\<And>x s. Q x s \<Longrightarrow> Q' x s) \<Longrightarrow>
    (\<And>e s. E e s \<Longrightarrow> E' e s) \<Longrightarrow> hoare P' f Q' E'"
  unfolding hoare_def by (fastforce split: prod.splits sum.splits)

lemma hoare_pre: "hoare P f Q E \<Longrightarrow> (\<And>s. P' s \<Longrightarrow> P s) \<Longrightarrow> hoare P' f Q E"
  by (rule hoare_conseq)

lemma hoare_ret: "hoare (Q x) (ret x) Q E"
  by (simp add: hoare_def ret_def)

lemma hoare_lift: "hoare (\<lambda>s. (\<forall>x. r = Inr x \<longrightarrow> Q x s) \<and> (\<forall>e. r = Inl e \<longrightarrow> E e s)) (lift r) Q E"
  by (cases r) (simp_all add: hoare_def lift_def)

lemma hoare_gets: "hoare (\<lambda>s. Q (f s) s) (gets f) Q E"
  by (simp add: hoare_def gets_def)

lemma hoare_modify: "hoare (\<lambda>s. Q () (f s)) (modify f) Q E"
  by (simp add: hoare_def modify_def)

lemma hoare_bnd: "hoare P f R E \<Longrightarrow> (\<And>x. hoare (R x) (g x) Q E) \<Longrightarrow> hoare P (bnd f g) Q E"
proof (rule hoareI)
  fix s y s' assume fg: "hoare P f R E" "\<And>x. hoare (R x) (g x) Q E" and P: "P s" and r: "bnd f g s = (Inr y, s')"
  obtain q t where f: "f s = (q, t)" by (cases "f s")
  then show "Q y s'" using r hoareD [OF fg(1) P] hoareD(1) [OF fg(2)] by (cases q) (auto simp: bnd_def)
next
  fix s e s' assume fg: "hoare P f R E" "\<And>x. hoare (R x) (g x) Q E" and P: "P s" and r: "bnd f g s = (Inl e, s')"
  obtain q t where f: "f s = (q, t)" by (cases "f s")
  then show "E e s'" using r hoareD [OF fg(1) P] hoareD(2) [OF fg(2)] by (cases q) (auto simp: bnd_def)
qed

lemma hoare_catch:
  assumes f: "hoare P f Q (\<lambda>e s. if C e then R e s else E e s)" and h: "\<And>e. C e \<Longrightarrow> hoare (R e) (h e) Q E"
  shows "hoare P (catch f C h) Q E"
proof (rule hoareI)
  fix s y s' assume P: "P s" and r: "catch f C h s = (Inr y, s')"
  obtain q t where t: "f s = (q, t)" by (cases "f s")
  then show "Q y s'" using r hoareD [OF f P] hoareD(1) [OF h] by (cases q) (auto simp: catch_def split: if_splits)
next
  fix s e s' assume P: "P s" and r: "catch f C h s = (Inl e, s')"
  obtain q t where t: "f s = (q, t)" by (cases "f s")
  then show "E e s'" using r hoareD [OF f P] hoareD(2) [OF h] by (cases q) (auto simp: catch_def split: if_splits)
qed

text \<open>A loop, with an invariant that may speak of the elements done.\<close>

lemma hoare_for_each:
  assumes "\<And>xs x ys. l = xs @ x # ys \<Longrightarrow> hoare (I xs) (f x) (\<lambda>_. I (xs @ [x])) E"
  shows "hoare (I []) (for_each f l) (\<lambda>_. I l) E"
proof -
  have "hoare (I xs) (for_each f ys) (\<lambda>_. I l) E" if "l = xs @ ys" for xs ys
    using that
  proof (induction ys arbitrary: xs)
    case (Cons y ys)
    have "hoare (I (xs @ [y])) (for_each f ys) (\<lambda>_. I l) E" using Cons by simp
    then show ?case using hoare_bnd [OF assms [OF Cons.prems], of "\<lambda>_. for_each f ys" "\<lambda>_. I l"] by simp
  qed (simp add: hoare_ret [where Q = "\<lambda>_. I l" and x = "()"])
  from this [of "[]" l] show ?thesis by simp
qed

lemma hoare_conj: "hoare P f Q E \<Longrightarrow> hoare P' f Q' E' \<Longrightarrow>
    hoare (\<lambda>s. P s \<and> P' s) f (\<lambda>x s. Q x s \<and> Q' x s) (\<lambda>e s. E e s \<and> E' e s)"
  unfolding hoare_def by (fastforce split: prod.splits sum.splits)

lemma hoare_exI: "(\<And>x. hoare (P x) f Q E) \<Longrightarrow> hoare (\<lambda>s. \<exists>x. P x s) f Q E"
  by (rule hoareI) (blast dest: hoareD)+

lemma hoare_assume: "(A \<Longrightarrow> hoare P f Q E) \<Longrightarrow> hoare (\<lambda>s. A \<and> P s) f Q E"
  by (rule hoareI) (blast dest: hoareD)+

text \<open>What a method keeps whichever way it ends.\<close>

definition keeps :: "('s \<Rightarrow> bool) \<Rightarrow> ('s, 'a) effect \<Rightarrow> bool" where
  "keeps I f = hoare I f (\<lambda>_. I) (\<lambda>_. I)"

lemma keepsD: "keeps I f \<Longrightarrow> I s \<Longrightarrow> I (snd (f s))"
  unfolding keeps_def by (cases "f s"; cases "fst (f s)") (auto dest: hoareD)

lemma keepsI: "(\<And>s. I s \<Longrightarrow> I (snd (f s))) \<Longrightarrow> keeps I f"
  unfolding keeps_def hoare_def by (force split: prod.splits sum.splits)

lemma keeps_ret [step_intros]: "keeps I (ret x)"
  and keeps_lift [step_intros]: "keeps I (lift r)"
  and keeps_gets [step_intros]: "keeps I (gets h)"
  by (simp_all add: keepsI ret_def lift_def gets_def)

lemma keeps_modify: "(\<And>s. I s \<Longrightarrow> I (f s)) \<Longrightarrow> keeps I (modify f)"
  by (simp add: keepsI modify_def)

lemma keeps_bnd [step_intros]: "keeps I f \<Longrightarrow> (\<And>x. keeps I (g x)) \<Longrightarrow> keeps I (bnd f g)"
  unfolding keeps_def by (rule hoare_bnd)

lemma keeps_catch [step_intros]: "keeps I f \<Longrightarrow> (\<And>e. keeps I (h e)) \<Longrightarrow> keeps I (catch f C h)"
  unfolding keeps_def by (rule hoare_catch [where R = "\<lambda>_. I"]) auto

lemma keeps_for_each [step_intros]: "(\<And>x. x \<in> set l \<Longrightarrow> keeps I (f x)) \<Longrightarrow> keeps I (for_each f l)"
  unfolding keeps_def by (rule hoare_for_each [where I = "\<lambda>_. I"]) auto

lemma keeps_if [step_intros]: "(b \<Longrightarrow> keeps I f) \<Longrightarrow> (\<not> b \<Longrightarrow> keeps I g) \<Longrightarrow> keeps I (if b then f else g)"
  by simp

lemma keeps_option [step_intros]: "(z = None \<Longrightarrow> keeps I f) \<Longrightarrow> (\<And>x. z = Some x \<Longrightarrow> keeps I (g x)) \<Longrightarrow>
    keeps I (case z of None \<Rightarrow> f | Some x \<Rightarrow> g x)"
  by (cases z) simp_all

end
