(* ===== verification/Lending.thy ===== *)
theory Lending imports Store_Machine begin

text \<open>
  Who holds which GPU, as the job database tells it: the active jobs with their GPU and
  container. Only the controller's own transactions change the holders; submitting,
  cancelling and pausing, which other processes may do at any moment, do not.
\<close>

section \<open>Transactions of other processes\<close>

text \<open>The commands of the \<open>labgpu-spot\<close> tool that change the database.\<close>

datatype user_event =
    UserSubmit job_spec int int rat
  | UserCancel int rat
  | UserPause bool "string option"

fun user_commit :: "user_event \<Rightarrow> store \<Rightarrow> store" where
  "user_commit (UserSubmit s u g now) st = snd (submit s u g now st)"
| "user_commit (UserCancel i now) st = snd (cancel i now st)"
| "user_commit (UserPause p gpu) st = set_paused p gpu st"

fun as_store_event :: "user_event \<Rightarrow> store_event" where
  "as_store_event (UserSubmit s u g now) = Submit s u g now"
| "as_store_event (UserCancel i now) = Cancel i now"
| "as_store_event (UserPause p gpu) = SetPaused p gpu"

lemma user_commit_step: "user_commit e st = store_step m (as_store_event e) st"
  by (cases e) simp_all

text \<open>The stores that transactions can lead to.\<close>

definition reach :: "int \<Rightarrow> store \<Rightarrow> store \<Rightarrow> bool" where
  "reach m st st' = (\<exists>es. st' = fold (store_step m) es st)"

lemma reach_refl [intro]: "reach m st st"
  unfolding reach_def by (rule exI [where x = "[]"]) simp

lemma reach_step: "reach m st st' \<Longrightarrow> reach m st (store_step m e st')"
  unfolding reach_def
proof (elim exE)
  fix es assume "st' = fold (store_step m) es st"
  then show "\<exists>es. store_step m e st' = fold (store_step m) es st" by (intro exI [where x = "es @ [e]"]) simp
qed

lemma reach_users: "reach m st st' \<Longrightarrow> reach m st (fold user_commit es st')"
proof (induction es arbitrary: st')
  case (Cons e es)
  then show ?case using reach_step [of m st st' "as_store_event e"] by (simp add: user_commit_step [of _ _ m])
qed simp

lemma reach_inv: "reach m st st' \<Longrightarrow> store_inv m st \<Longrightarrow> store_inv m st'"
  by (auto simp: reach_def intro: sm.inv_run)

lemma users_inv: "store_inv m st \<Longrightarrow> store_inv m (fold user_commit es st)"
  using reach_inv [OF reach_users [OF reach_refl]] .

section \<open>Holders\<close>

definition holders :: "store \<Rightarrow> (int \<times> string option \<times> string option) list" where
  "holders st = map (\<lambda>r. (jid r, gpu_uuid r, container r)) (filter is_active (jobs st))"

definition held_gpus :: "store \<Rightarrow> string option list" where
  "held_gpus st = map (fst \<circ> snd) (holders st)"

text \<open>No two active jobs have the same GPU.\<close>

definition exclusive :: "store \<Rightarrow> bool" where
  "exclusive st = distinct (held_gpus st)"

lemma holders_iff: "(i, g, c) \<in> set (holders st) \<longleftrightarrow> (\<exists>r \<in> set (jobs st). is_active r \<and> jid r = i \<and> gpu_uuid r = g \<and> container r = c)"
  by (auto simp: holders_def)

lemma holders_active:
  assumes "store_inv m st" shows "holders st = map (\<lambda>a. (rs_job_id a, Some (rs_gpu_uuid a), Some (rs_container a))) (active st)"
proof -
  have "(jid r, gpu_uuid r, container r) = (rs_job_id (spot_of r), Some (rs_gpu_uuid (spot_of r)), Some (rs_container (spot_of r)))"
    if "r \<in> set (jobs st)" "is_active r" for r
    using store_invD(2) [OF assms that(1)] that(2) by (auto simp: row_inv_def spot_of_def or_empty_def split: option.splits)
  then show ?thesis by (auto simp: holders_def active_def intro: map_cong)
qed

lemma held_gpus_active: "store_inv m st \<Longrightarrow> held_gpus st = map (Some \<circ> rs_gpu_uuid) (active st)"
  by (simp add: held_gpus_def holders_active comp_def)

lemma active_sat: "row_sat st i is_active \<longleftrightarrow> i \<in> fst ` set (holders st)" if "store_inv m st"
proof
  assume "row_sat st i is_active"
  then obtain r where "row_of st i = Some r" "is_active r" by (auto simp: row_sat_def split: option.splits)
  then show "i \<in> fst ` set (holders st)" by (force simp: holders_def dest: row_of_Some)
next
  assume "i \<in> fst ` set (holders st)"
  then obtain r where "r \<in> set (jobs st)" "is_active r" "jid r = i" by (auto simp: holders_def)
  then show "row_sat st i is_active" using row_of_unique [OF store_invD(1) [OF that], of r] by (auto simp: row_sat_def)
qed

lemma holders_map_row:
  assumes "distinct (map jid (jobs st))" "row_of st i = Some r" "jobs st' = map (\<lambda>q. if jid q = i then f q else q) (jobs st) @ extra"
    "filter is_active extra = []" "is_active (f r) = is_active r" "jid (f r) = jid r" "gpu_uuid (f r) = gpu_uuid r"
    "container (f r) = container r"
  shows "holders st' = holders st"
proof -
  have "map (\<lambda>r. (jid r, gpu_uuid r, container r)) (filter is_active (map (\<lambda>q. if jid q = i then f q else q) js)) =
      map (\<lambda>r. (jid r, gpu_uuid r, container r)) (filter is_active js)" if "set js \<subseteq> set (jobs st)" for js
    using that
  proof (induction js)
    case (Cons q js)
    have "q = r" if "jid q = i" using row_of_unique [OF assms(1), of q] that assms(2) Cons.prems by simp
    then show ?case using Cons assms(5-8) by auto
  qed simp
  from this [OF subset_refl] show ?thesis using assms(3,4) by (simp add: holders_def)
qed

lemma holders_absent: "row_of st i = None \<Longrightarrow> holders (update_row i f st) = holders st"
  by (simp add: update_row_absent)

lemma cancelled_active: "row_inv m r \<Longrightarrow> state r \<in> {QUEUED, RUNNING, PREEMPTING} \<Longrightarrow>
    is_active (r\<lparr>state := CANCELLED, reason := w, finished_at := (if state r = QUEUED then Some t else finished_at r)\<rparr>) = is_active r"
  by (cases "state r = QUEUED") (auto simp: row_inv_def is_active_def simp del: not_None_eq)

lemma user_holders: "store_inv m st \<Longrightarrow> holders (user_commit e st) = holders st"
proof (cases e)
  case (UserSubmit s u g now)
  then show ?thesis by (simp add: submit_eq holders_def new_row_def is_active_def)
next
  case (UserPause p gpu)
  then show ?thesis by (simp add: set_paused_def holders_def Let_def split: option.splits)
next
  case (UserCancel i now)
  assume inv: "store_inv m st"
  show ?thesis
  proof (cases "row_of st i")
    case (Some r)
    have ri: "row_inv m r" using store_invD(2) [OF inv] row_of_Some [OF Some] by blast
    show ?thesis
    proof (cases "state r \<in> {QUEUED, RUNNING, PREEMPTING}")
      case True
      then show ?thesis using UserCancel Some
        by (intro holders_map_row [OF store_invD(1) [OF inv] Some, where extra = "[]" and
              f = "\<lambda>q. q\<lparr>state := CANCELLED, reason := Some ''cancelled by user'',
                 finished_at := (if state r = QUEUED then Some now else finished_at q)\<rparr>"])
           (simp_all add: cancel_def cancelled_active [OF ri])
    qed (use UserCancel Some in \<open>auto simp: cancel_def\<close>)
  qed (simp add: UserCancel cancel_def)
qed

lemma users_holders: "store_inv m st \<Longrightarrow> holders (fold user_commit es st) = holders st"
proof (induction es arbitrary: st)
  case (Cons e es)
  then show ?case using users_inv [of m st "[e]"] by (simp add: user_holders)
qed simp

lemma preempting_holders: "store_inv m st \<Longrightarrow> holders (mark_preempting i why st) = holders st"
proof (cases "row_of st i")
  case (Some r)
  assume inv: "store_inv m st"
  show ?thesis unfolding mark_preempting_def
    by (rule holders_map_row [OF store_invD(1) [OF inv] Some, where extra = "[]" and
          f = "\<lambda>r. if state r = RUNNING then r\<lparr>state := PREEMPTING, reason := Some why\<rparr> else r"])
       (auto simp: is_active_def)
qed (simp add: mark_preempting_def update_row_absent)

lemma fail_holders: "store_inv m st \<Longrightarrow> row_sat st i never_started \<Longrightarrow> holders (fail_job i why now st) = holders st"
proof (cases "row_of st i")
  case (Some r)
  assume inv: "store_inv m st" and "row_sat st i never_started"
  then have n: "never_started r" using Some by (simp add: row_sat_def)
  show ?thesis unfolding fail_job_def
    by (rule holders_map_row [OF store_invD(1) [OF inv] Some, where extra = "[]" and
          f = "\<lambda>r. r\<lparr>state := FAILED, reason := Some why, finished_at := Some now\<rparr>"])
       (use n in \<open>auto simp: is_active_def never_started_def\<close>)
qed (simp add: row_sat_def)

lemma finish_holders: "store_inv m st \<Longrightarrow> row_sat st i is_active \<Longrightarrow>
    holders (snd (finish i ec m v now st)) = filter (\<lambda>h. fst h \<noteq> i) (holders st)"
proof (cases "row_of st i")
  case (Some r)
  assume inv: "store_inv m st" and "row_sat st i is_active"
  then have act: "is_active r" using Some by (simp add: row_sat_def)
  obtain ns out where e: "end_state r ec m v = (ns, out)" by (cases "end_state r ec m v")
  let ?why = "end_reason r ec ns out (state r = PREEMPTING \<or> v)"
  let ?f = "\<lambda>q. q\<lparr>state := ns, exit_code := ec, preemptions := preemptions q + (if state r = PREEMPTING \<or> v then 1 else 0),
      finished_at := (if ns = QUEUED then None else Some now), reason := ?why,
      gpu_uuid := (if ns = QUEUED then None else gpu_uuid q), container := (if ns = QUEUED then None else container q)\<rparr>"
  have js: "jobs (snd (finish i ec m v now st)) = map (\<lambda>q. if jid q = i then ?f q else q) (jobs st)"
    using Some e by (simp add: finish_def Let_def)
  have inact: "\<not> is_active (?f q)" for q using end_state_cases(1) [of r ec m v] e by (auto simp: is_active_def)
  have "map (\<lambda>r. (jid r, gpu_uuid r, container r)) (filter is_active (map (\<lambda>q. if jid q = i then ?f q else q) qs)) =
      filter (\<lambda>h. fst h \<noteq> i) (map (\<lambda>r. (jid r, gpu_uuid r, container r)) (filter is_active qs))" for qs
    by (induction qs) (auto simp: inact)
  then show ?thesis by (simp add: holders_def js)
qed (simp add: row_sat_def)

text \<open>A started job joins the holders.\<close>

lemma running_holders:
  assumes inv: "store_inv m st" and q: "row_sat st i (\<lambda>r. state r = QUEUED)"
  shows "\<exists>xs ys. holders st = xs @ ys \<and> holders (snd (mark_running i gpu cont now st)) = xs @ (i, Some gpu, Some cont) # ys"
proof -
  from q obtain r where r: "row_of st i = Some r" "state r = QUEUED" by (auto simp: row_sat_def split: option.splits)
  from row_of_Some [OF r(1)] obtain us vs where js: "jobs st = us @ r # vs" and i: "jid r = i" by (auto dest: split_list)
  let ?f = "\<lambda>q. q\<lparr>state := RUNNING, attempts := attempts r + 1, gpu_uuid := Some gpu, container := Some cont,
    started_at := Some now, reason := None\<rparr>"
  have "jobs (snd (mark_running i gpu cont now st)) = map (\<lambda>q. if jid q = i then ?f q else q) (jobs st)"
    using r by (simp add: mark_running_def Let_def)
  moreover have other: "\<forall>q \<in> set us \<union> set vs. jid q \<noteq> i"
  proof -
    have "i \<notin> jid ` set us" "i \<notin> jid ` set vs" using store_invD(1) [OF inv] i by (auto simp: js)
    then show ?thesis by (metis UnE image_eqI)
  qed
  moreover have "map (\<lambda>q. if jid q = i then ?f q else q) us = us" "map (\<lambda>q. if jid q = i then ?f q else q) vs = vs"
    using other by (auto intro!: map_idI)
  ultimately have "jobs (snd (mark_running i gpu cont now st)) = us @ ?f r # vs" using i by (simp add: js)
  moreover have "\<not> is_active r" using r(2) by (simp add: is_active_def)
  ultimately show ?thesis
    using i by (intro exI [where x = "map (\<lambda>r. (jid r, gpu_uuid r, container r)) (filter is_active us)"]
        exI [where x = "map (\<lambda>r. (jid r, gpu_uuid r, container r)) (filter is_active vs)"])
      (simp add: holders_def js is_active_def)
qed

lemma running_idle: "\<not> row_sat st i (\<lambda>r. state r = QUEUED) \<Longrightarrow>
    mark_running i gpu cont now st = (Inl (ValueError (''job '' @ int_str i @ '' is not queued'')), st)"
  by (auto simp: mark_running_def row_sat_def split: option.splits)

lemma started_row: "row_sat st i (\<lambda>r. state r = QUEUED) \<Longrightarrow> \<exists>n. fst (mark_running i gpu cont now st) = Inr n"
  by (auto simp: mark_running_def row_sat_def Let_def split: option.splits)

section \<open>Jobs that run\<close>

definition running_ids :: "store \<Rightarrow> int set" where
  "running_ids st = {jid r |r. r \<in> set (jobs st) \<and> state r = RUNNING}"

lemma running_active: "store_inv m st \<Longrightarrow> running_ids st \<subseteq> fst ` set (holders st)"
  by (force simp: running_ids_def holders_def is_active_def)

lemma user_running: "running_ids (user_commit e st) \<subseteq> running_ids st"
  by (cases e) (auto simp: running_ids_def submit_eq new_row_def cancel_def set_paused_def Let_def split: option.splits if_splits)

lemma users_running: "running_ids (fold user_commit es st) \<subseteq> running_ids st"
proof (induction es arbitrary: st)
  case (Cons e es)
  then show ?case using user_running [of e st] by fastforce
qed simp

lemma running_update:
  assumes "\<And>q. jid q = i \<Longrightarrow> state (f q) \<noteq> RUNNING"
  shows "running_ids (update_row i f st) \<subseteq> running_ids st - {i}"
proof
  fix k assume "k \<in> running_ids (update_row i f st)"
  then obtain q where q: "q \<in> set (jobs st)" "jid (if jid q = i then f q else q) = k"
    "state (if jid q = i then f q else q) = RUNNING" unfolding running_ids_def by auto
  then have "jid q \<noteq> i" using assms by (cases "jid q = i") auto
  then show "k \<in> running_ids st - {i}" using q unfolding running_ids_def by auto
qed

lemma preempting_running: "running_ids (mark_preempting i why st) \<subseteq> running_ids st - {i}"
  unfolding mark_preempting_def by (rule running_update) simp

lemma fail_running: "running_ids (fail_job i why now st) \<subseteq> running_ids st - {i}"
  unfolding fail_job_def by (rule running_update) simp

lemma running_started: "running_ids (snd (mark_running i gpu cont now st)) \<subseteq> insert i (running_ids st)"
proof
  fix k assume "k \<in> running_ids (snd (mark_running i gpu cont now st))"
  then obtain q where q: "q \<in> set (jobs (snd (mark_running i gpu cont now st)))" "jid q = k" "state q = RUNNING"
    unfolding running_ids_def by blast
  show "k \<in> insert i (running_ids st)"
  proof (cases "row_sat st i (\<lambda>r. state r = QUEUED)")
    case True
    then obtain r where "row_of st i = Some r" "state r = QUEUED" by (auto simp: row_sat_def split: option.splits)
    then have "q \<in> set (jobs st) \<or> jid q = i" using q(1) by (auto simp: mark_running_def Let_def)
    then show ?thesis using q unfolding running_ids_def by blast
  next
    case False
    then show ?thesis using q unfolding running_idle [OF False] running_ids_def by simp blast
  qed
qed

lemma find_prefix: "find P xs = Some x \<Longrightarrow> find P (xs @ ys) = Some x"
  by (induction xs) (auto split: if_splits)

lemma row_of_append: "row_of st i = Some r \<Longrightarrow> jobs st' = jobs st @ extra \<Longrightarrow> row_of st' i = Some r"
  unfolding row_of_def by (simp add: find_prefix)

lemma never_started_users: "store_inv m st \<Longrightarrow> row_sat st i never_started \<Longrightarrow> row_sat (fold user_commit es st) i never_started"
proof (induction es arbitrary: st)
  case (Cons e es)
  obtain r where r: "row_of st i = Some r" "never_started r"
    using Cons.prems(2) by (auto simp: row_sat_def split: option.splits)
  have inv: "row_inv m r" using store_invD(2) [OF Cons.prems(1)] row_of_Some [OF r(1)] by blast
  have "row_sat (user_commit e st) i never_started"
  proof (cases e)
    case (UserSubmit s u g now)
    have "row_of (user_commit e st) i = Some r"
      by (cases "sql_int u \<and> sql_int g \<and> sql_int (js_priority s)")
         (simp_all add: UserSubmit submit_eq r(1) row_of_append [OF r(1), where extra = "[new_row s u g now (next_id st)]"])
    then show ?thesis using r by (simp add: row_sat_def)
  next
    case (UserPause p gpu)
    then show ?thesis using r by (auto simp: set_paused_def Let_def row_sat_def row_of_def split: option.splits)
  next
    case (UserCancel k now)
    show ?thesis
    proof (cases "row_of st k")
      case None
      then show ?thesis using UserCancel Cons.prems(2) by (simp add: cancel_def)
    next
      case (Some q)
      have find: "find (\<lambda>r. jid r = i) (map (\<lambda>r. if jid r = k then f r else r) js) =
          map_option (\<lambda>r. if jid r = k then f r else r) (find (\<lambda>r. jid r = i) js)" if "\<And>r. jid (f r) = jid r" for f js
        by (induction js) (auto simp: that)
      have "never_started (if jid r = k then r\<lparr>state := CANCELLED, reason := Some ''cancelled by user'',
               finished_at := (if state q = QUEUED then Some now else finished_at r)\<rparr> else r)"
        using r(2) inv by (auto simp: never_started_def row_inv_def)
      then show ?thesis
        using UserCancel Some r Cons.prems(2) by (auto simp: cancel_def row_sat_def row_of_def find)
    qed
  qed
  then show ?case using Cons users_inv [OF Cons.prems(1), of "[e]"] by simp
qed simp

end
