(* ===== verification/Daemon.thy ===== *)
theory Daemon imports Py_State Lending Detector Planner Docker Hostinfo Nvml Observer begin

text \<open>
  \<open>labgpu/spot/daemon.py\<close>: the control loop. A controller is a record; its methods are
  state functions that may raise. What the outside answers during one tick (Docker, NVML,
  files, the clock) is a record of answers, and between any two accesses of the controller
  to the job database other processes may commit transactions of their own. The log lines
  are left out; instead the state keeps a history of what was observed and what was done to
  containers. When the rounds happen and how the loop ends is in \<open>Serve\<close>.
\<close>

section \<open>The controller and its surroundings\<close>

text \<open>The answers of one tick. \<open>others n\<close> are the transactions committed by others before the
  controller's \<open>n\<close>-th access to the database, \<open>store_clock n\<close> the time read for it.\<close>

record tick_env =
  kill_file :: "bool result"
  owners_answer :: "owner_container list result"
  spots_answer :: "spot_container list result"
  gpus_answer :: "gpu_info list result"
  snapshot_answer :: "int \<Rightarrow> gpu_snapshot result"
  pids_answer :: "int list \<Rightarrow> (int, string option) pydict result"
  cpu_reads :: cpu_files
  ram_answer :: "int result"
  hook_file :: "bool result"
  run_answer :: "pyval list \<Rightarrow> string result"
  stop_answer :: "string \<Rightarrow> unit result"
  archive_answer :: "string \<Rightarrow> unit result"
  attach_gpus :: bool
  others :: "nat \<Rightarrow> user_event list"
  store_clock :: "nat \<Rightarrow> rat"

text \<open>What was observed and judged; the containers started with their GPU and arguments; the calls of
  \<open>docker stop\<close>, with whether it could be started; and the containers archived.\<close>

datatype daemon_event =
    Saw rat gpu_observation
  | Judged gpu_verdict
  | Ran string "pyval list"
  | Stopping string bool
  | Archived string

record ctl =
  trackers :: "(string, gpu_tracker) pydict"
  stop_issued :: "string set"
  gpu_list :: "gpu_info list"
  last_verdicts :: verdicts
  cpu_last :: cpu_samples
  db :: store
  accesses :: nat
  history :: "daemon_event list"

definition new_controller :: "store \<Rightarrow> ctl" where
  "new_controller st = \<lparr>trackers = [], stop_issued = {}, gpu_list = [], last_verdicts = [], cpu_last = [],
     db = st, accesses = 0, history = []\<rparr>"

definition note_event :: "daemon_event \<Rightarrow> ctl \<Rightarrow> ctl" where
  "note_event e c = c\<lparr>history := history c @ [e]\<rparr>"

text \<open>One transaction: what others committed first, then the method of the store.\<close>

definition transact :: "tick_env \<Rightarrow> (rat \<Rightarrow> store \<Rightarrow> 'a result \<times> store) \<Rightarrow> (ctl, 'a) effect" where
  "transact te f c = (case f (store_clock te (accesses c)) (fold user_commit (others te (accesses c)) (db c)) of
     (r, st) \<Rightarrow> (r, c\<lparr>db := st, accesses := accesses c + 1\<rparr>))"

definition read_store :: "tick_env \<Rightarrow> (store \<Rightarrow> 'a result) \<Rightarrow> (ctl, 'a) effect" where
  "read_store te f = transact te (\<lambda>_ st. (f st, st))"

definition write_store :: "tick_env \<Rightarrow> (rat \<Rightarrow> store \<Rightarrow> store) \<Rightarrow> (ctl, unit) effect" where
  "write_store te f = transact te (\<lambda>now st. (Inr (), f now st))"

section \<open>Observing\<close>

text \<open>\<open>{o.id: self.cpu.sample(o.id, o.pid, now) for o in owners if o.pid}\<close>.\<close>

fun sample_owners :: "cpu_files \<Rightarrow> rat \<Rightarrow> owner_container list \<Rightarrow> (string, rat option) pydict \<Rightarrow>
    (ctl, (string, rat option) pydict) effect" where
  "sample_owners fs now [] d = ret d"
| "sample_owners fs now (oc # ocs) d = (if oc_pid oc = 0 then sample_owners fs now ocs d
     else bnd (\<lambda>c. case sample fs (oc_id oc) (oc_pid oc) now (cpu_last c) of (r, l) \<Rightarrow> (r, c\<lparr>cpu_last := l\<rparr>))
       (\<lambda>v. sample_owners fs now ocs (dict_set (oc_id oc) v d)))"

definition all_failed :: "string \<Rightarrow> gpu_info list \<Rightarrow> gpu_observation list" where
  "all_failed e = map (\<lambda>g. failed_observation (uuid g) (index g) (name g) e)"

definition observe_all :: "tick_env \<Rightarrow> rat \<Rightarrow> owner_container list \<Rightarrow> spot_container list \<Rightarrow> bool \<Rightarrow>
    (ctl, gpu_observation list) effect" where
  "observe_all te now owners spots docker_ok = (case gpus_answer te of
     Inl e \<Rightarrow> if is_nvml_error e then gets (\<lambda>c. all_failed (exc_str e) (gpu_list c)) else lift (Inl e)
   | Inr gs \<Rightarrow>
       bnd (modify (\<lambda>c. c\<lparr>gpu_list := gs\<rparr>)) (\<lambda>_.
       if \<not> docker_ok then ret (all_failed ''docker unavailable'' gs)
       else
         bnd (sample_owners (cpu_reads te) now owners []) (\<lambda>owner_cpu.
         bnd (modify (\<lambda>c. c\<lparr>cpu_last := forget_except (oc_id ` set owners) (cpu_last c)\<rparr>)) (\<lambda>_.
         lift (observe gs (snapshot_answer te) owners spots (pids_answer te) owner_cpu)))))"

section \<open>Reconciling\<close>

definition archive :: "tick_env \<Rightarrow> spot_container \<Rightarrow> (ctl, unit) effect" where
  "archive te s = bnd (modify (note_event (Archived (sc_id s)))) (\<lambda>_. lift (archive_answer te (sc_id s)))"

text \<open>The container of an active job among those that Docker reports, the last one of an
  identifier, as in a dictionary by identifier.\<close>

definition container_of :: "spot_container list \<Rightarrow> running_spot \<Rightarrow> spot_container option" where
  "container_of spots a = (if rs_container a = [] then None
     else dict_get (dict_of (map (\<lambda>s. (sc_id s, s)) spots)) (rs_container a))"

definition still_running :: "spot_container list \<Rightarrow> running_spot \<Rightarrow> bool" where
  "still_running spots a = (case container_of spots a of None \<Rightarrow> False | Some s \<Rightarrow> running s)"

definition known_ids :: "spot_container list \<Rightarrow> running_spot list \<Rightarrow> string set" where
  "known_ids spots as = sc_id ` set (List.map_filter (container_of spots) as)"

definition close_out :: "tick_env \<Rightarrow> config \<Rightarrow> spot_container list \<Rightarrow> running_spot \<Rightarrow> (ctl, unit) effect" where
  "close_out te cfg spots a =
     (let sc = container_of spots a in
      if still_running spots a then ret ()
      else
        bnd (transact te (\<lambda>now. finish (rs_job_id a) (Option.bind sc sc_exit_code)
               (max_attempts (spot cfg)) (sc = None) now)) (\<lambda>_.
        bnd (modify (\<lambda>c. c\<lparr>stop_issued := stop_issued c - {rs_container a}\<rparr>)) (\<lambda>_.
        case sc of None \<Rightarrow> ret () | Some s \<Rightarrow> archive te s)))"

definition reconcile :: "tick_env \<Rightarrow> config \<Rightarrow> spot_container list \<Rightarrow> (ctl, unit) effect" where
  "reconcile te cfg spots =
     bnd (read_store te (\<lambda>st. Inr (active st))) (\<lambda>as.
     bnd (for_each (close_out te cfg spots) as) (\<lambda>_.
     for_each (\<lambda>s. if sc_id s \<in> known_ids spots as then ret () else archive te s) spots))"

section \<open>Judging\<close>

definition blocked_by :: "bool \<Rightarrow> bool \<Rightarrow> string set \<Rightarrow> gpu_observation \<Rightarrow> string option" where
  "blocked_by kill node_paused paused_set ob =
     (if kill then Some ''kill switch present'' else if node_paused then Some ''node paused''
      else if obs_uuid ob \<in> paused_set then Some ''GPU paused'' else None)"

definition tracker_for :: "gpu_observation \<Rightarrow> rat \<Rightarrow> ctl \<Rightarrow> gpu_tracker" where
  "tracker_for ob now c = get_or (new_tracker ob now) (trackers c) (obs_uuid ob)"

text \<open>One round of the loop over the observations. The verdicts collected so far are the first
  component.\<close>

definition judge :: "config \<Rightarrow> rat \<Rightarrow> bool \<Rightarrow> bool \<times> string set \<Rightarrow> running_spot list \<Rightarrow> gpu_observation \<Rightarrow>
    verdicts \<times> ctl \<Rightarrow> verdicts \<times> ctl" where
  "judge cfg now kill ps as ob vc =
     (let c = snd vc;
          on_gpu = filter (\<lambda>a. rs_gpu_uuid a = obs_uuid ob) as;
          (v, t) = update (tracker_for ob now c) ob now (idle cfg) (reclaim cfg)
             (on_gpu \<noteq> []) (on_gpu \<noteq> [] \<and> list_all reclaiming on_gpu)
             (blocked_by kill (fst ps) (snd ps) ob)
      in (dict_set (obs_uuid ob) v (fst vc),
          note_event (Judged v) (note_event (Saw now ob) (c\<lparr>trackers := dict_set (obs_uuid ob) t (trackers c)\<rparr>))))"

definition judge_all :: "config \<Rightarrow> rat \<Rightarrow> bool \<Rightarrow> bool \<times> string set \<Rightarrow> running_spot list \<Rightarrow> gpu_observation list \<Rightarrow>
    (ctl, verdicts) effect" where
  "judge_all cfg now kill ps as obs c =
     (case fold (judge cfg now kill ps as) obs ([], c) of (vs, c') \<Rightarrow> (Inr vs, c'\<lparr>last_verdicts := vs\<rparr>))"

section \<open>Acting\<close>

text \<open>\<open>docker.stop_async\<close>: the history keeps whether the process could be started.\<close>

definition call_stop :: "tick_env \<Rightarrow> string \<Rightarrow> (ctl, unit) effect" where
  "call_stop te cont = bnd (modify (note_event (Stopping cont (is_ok (stop_answer te cont))))) (\<lambda>_. lift (stop_answer te cont))"

definition stop_container :: "tick_env \<Rightarrow> string \<Rightarrow> (ctl, unit) effect" where
  "stop_container te cont =
     bnd (modify (\<lambda>c. c\<lparr>stop_issued := insert cont (stop_issued c)\<rparr>)) (\<lambda>_. call_stop te cont)"

definition pending_stop :: "tick_env \<Rightarrow> running_spot \<Rightarrow> (ctl, unit) effect" where
  "pending_stop te a = bnd (gets stop_issued) (\<lambda>issued.
     if reclaiming a \<and> rs_container a \<noteq> [] \<and> rs_container a \<notin> issued
     then stop_container te (rs_container a) else ret ())"

definition reclaim_reason :: "string list \<Rightarrow> string" where
  "reclaim_reason rs = (if join ''; '' rs = [] then ''reclaim'' else join ''; '' rs)"

definition do_reclaim :: "tick_env \<Rightarrow> reclaim_action \<Rightarrow> (ctl, unit) effect" where
  "do_reclaim te r =
     bnd (write_store te (\<lambda>_. mark_preempting (re_job_id r) (reclaim_reason (re_reasons r)))) (\<lambda>_.
     stop_container te (re_container r))"

text \<open>\<open>docker.run\<close>: the history keeps the GPU the container was started for.\<close>

definition start_container :: "tick_env \<Rightarrow> string \<Rightarrow> pyval list \<Rightarrow> (ctl, string) effect" where
  "start_container te gpu argv = bnd (modify (note_event (Ran gpu argv))) (\<lambda>_. lift (run_answer te argv))"

definition start_job :: "tick_env \<Rightarrow> config \<Rightarrow> launch \<Rightarrow> bool \<Rightarrow> int \<Rightarrow> job_row \<times> job_spec \<Rightarrow> (ctl, string) effect" where
  "start_job te cfg la enforced attempt rec =
     bnd (lift (build_run_args (jid (fst rec)) attempt (snd rec) (uid (fst rec)) (gid (fst rec)) (la_gpu_uuid la)
            (gpu_mem_limit la) (la_ram la) (spot cfg) enforced (attach_gpus te)))
         (start_container te (la_gpu_uuid la))"

definition do_launch :: "tick_env \<Rightarrow> config \<Rightarrow> bool \<Rightarrow> launch \<Rightarrow> (ctl, unit) effect" where
  "do_launch te cfg enforced la =
     bnd (read_store te (\<lambda>st. get_job st (la_job_id la))) (\<lambda>found. case found of
       None \<Rightarrow> ret ()
     | Some rec \<Rightarrow> if state (fst rec) \<noteq> QUEUED then ret ()
       else
         bnd (read_store te (\<lambda>st. next_attempt st (la_job_id la))) (\<lambda>attempt.
         bnd (catch (bnd (start_job te cfg la enforced attempt rec) (\<lambda>cont. ret (Some cont)))
                (\<lambda>e. is_docker_error e \<or> is_value_error e)
                (\<lambda>e. bnd (write_store te (\<lambda>now. fail_job (jid (fst rec)) (''launch failed: '' @ exc_str e) now))
                       (\<lambda>_. ret None))) (\<lambda>started. case started of
           None \<Rightarrow> ret ()
         | Some cont \<Rightarrow>
             bnd (transact te (\<lambda>now. mark_running (jid (fst rec)) (la_gpu_uuid la) cont now)) (\<lambda>_. ret ()))))"

section \<open>One tick\<close>

definition docker_state :: "tick_env \<Rightarrow> (ctl, bool \<times> owner_container list \<times> spot_container list) effect" where
  "docker_state te = catch
     (bnd (lift (owners_answer te)) (\<lambda>os. bnd (lift (spots_answer te)) (\<lambda>ss. ret (True, os, ss))))
     is_docker_error (\<lambda>_. ret (False, [], []))"

definition ram_budget_of :: "tick_env \<Rightarrow> config \<Rightarrow> int result" where
  "ram_budget_of te cfg = (case ram_answer te of
     Inr m \<Rightarrow> Inr (m - host_ram_reserve (spot cfg))
   | Inl e \<Rightarrow> if is_os_error e \<or> is_value_error e then Inr 0 else Inl e)"

definition decide_phase :: "tick_env \<Rightarrow> config \<Rightarrow> rat \<Rightarrow> bool \<Rightarrow> bool \<times> string set \<Rightarrow> gpu_observation list \<Rightarrow>
    (ctl, running_spot list \<times> verdicts) effect" where
  "decide_phase te cfg now kill ps obs =
     bnd (read_store te (\<lambda>st. Inr (active st))) (\<lambda>as.
     bnd (judge_all cfg now kill ps as obs) (\<lambda>vs. ret (as, vs)))"

definition act_phase :: "tick_env \<Rightarrow> config \<Rightarrow> bool \<Rightarrow> running_spot list \<Rightarrow> verdicts \<Rightarrow> (ctl, unit) effect" where
  "act_phase te cfg docker_ok as vs =
     bnd (for_each (pending_stop te) as) (\<lambda>_.
     bnd (lift (ram_budget_of te cfg)) (\<lambda>budget.
     bnd (lift (hook_file te)) (\<lambda>enforced.
     bnd (if docker_ok then read_store te (queued (default_ram (spot cfg))) else ret []) (\<lambda>queue.
     let p = plan vs as queue budget (enforced \<or> allow_unenforced (spot cfg)) in
     bnd (for_each (do_reclaim te) (reclaims p)) (\<lambda>_.
     for_each (do_launch te cfg enforced) (launches p))))))"

definition tick :: "tick_env \<Rightarrow> config \<Rightarrow> rat \<Rightarrow> (ctl, unit) effect" where
  "tick te cfg now =
     bnd (read_store te (\<lambda>st. Inr (paused st))) (\<lambda>ps.
     bnd (lift (kill_file te)) (\<lambda>kill.
     bnd (docker_state te) (\<lambda>(docker_ok, owners, spots).
     bnd (observe_all te now owners spots docker_ok) (\<lambda>obs.
     bnd (if docker_ok then reconcile te cfg spots else ret ()) (\<lambda>_.
     bnd (decide_phase te cfg now kill ps obs) (\<lambda>(as, vs).
     act_phase te cfg docker_ok as vs))))))"

section \<open>The loop\<close>

definition reclaim_row :: "tick_env \<Rightarrow> string \<Rightarrow> job_row \<Rightarrow> (ctl, unit) effect" where
  "reclaim_row te why r = (case container r of None \<Rightarrow> ret ()
     | Some cont \<Rightarrow>
         bnd (if state r = RUNNING then write_store te (\<lambda>_. mark_preempting (jid r) why) else ret ()) (\<lambda>_.
         stop_container te cont))"

text \<open>\<open>reclaim_all\<close> runs over the rows behind \<open>active\<close>, whose container may be NULL for all it
  knows.\<close>

definition reclaim_all :: "tick_env \<Rightarrow> string \<Rightarrow> (ctl, unit) effect" where
  "reclaim_all te why =
     bnd (read_store te (\<lambda>st. Inr (filter is_active (jobs st)))) (\<lambda>rows. for_each (reclaim_row te why) rows)"

text \<open>One round of \<open>run_forever\<close>: every exception of the tick or of writing the status file leads
  to \<open>reclaim_all\<close>, whose own exceptions are swallowed.\<close>

record loop_round =
  round_time :: rat
  round_env :: tick_env
  status_written :: "unit result"
  error_env :: tick_env

definition round_body :: "config \<Rightarrow> loop_round \<Rightarrow> (ctl, unit) effect" where
  "round_body cfg rd =
     bnd (tick (round_env rd) cfg (round_time rd)) (\<lambda>_. lift (status_written rd))"

definition loop_step :: "config \<Rightarrow> loop_round \<Rightarrow> (ctl, unit) effect" where
  "loop_step cfg rd = catch (round_body cfg rd) (\<lambda>_. True)
     (\<lambda>_. catch (reclaim_all (error_env rd) ''controller error'') (\<lambda>_. True) (\<lambda>_. ret ()))"

definition run_loop :: "config \<Rightarrow> loop_round list \<Rightarrow> ctl \<Rightarrow> ctl" where
  "run_loop cfg rds c = fold (\<lambda>rd c. snd (loop_step cfg rd c)) rds c"

text \<open>The rounds until the stop signal, then the shutdown.\<close>

definition run_forever :: "config \<Rightarrow> loop_round list \<Rightarrow> tick_env \<Rightarrow> ctl \<Rightarrow> unit result \<times> ctl" where
  "run_forever cfg rds te c = reclaim_all te ''controller shutdown'' (run_loop cfg rds c)"

end
