(* ===== verification/Daemon_Db.thy ===== *)
theory Daemon_Db imports Daemon begin

text \<open>
  What the controller's methods keep of the job database, whichever way they end and
  whatever other processes commit in between: triples for the transactions, for
  reconciling, and for each action that carries out a decision.
\<close>

section \<open>Transactions under a triple\<close>

lemma hoare_transact:
  assumes "\<And>c es now r st. P c \<Longrightarrow> f now (fold user_commit es (db c)) = (r, st) \<Longrightarrow>
     (case r of Inr x \<Rightarrow> Q x (c\<lparr>db := st, accesses := accesses c + 1\<rparr>) | Inl e \<Rightarrow> E e (c\<lparr>db := st, accesses := accesses c + 1\<rparr>))"
  shows "hoare P (transact te f) Q E"
proof (rule hoareI)
  fix c x c' assume P: "P c" and r: "transact te f c = (Inr x, c')"
  obtain q st where f: "f (store_clock te (accesses c)) (fold user_commit (others te (accesses c)) (db c)) = (q, st)"
    by fastforce
  show "Q x c'" using assms [OF P f] r f by (auto simp: transact_def)
next
  fix c e c' assume P: "P c" and r: "transact te f c = (Inl e, c')"
  obtain q st where f: "f (store_clock te (accesses c)) (fold user_commit (others te (accesses c)) (db c)) = (q, st)"
    by fastforce
  show "E e c'" using assms [OF P f] r f by (auto simp: transact_def)
qed

text \<open>Reading: the assertion must survive what others commit.\<close>

lemma hoare_read:
  assumes "\<And>c es. P c \<Longrightarrow> let st = fold user_commit es (db c); c' = c\<lparr>db := st, accesses := accesses c + 1\<rparr> in
     (\<forall>x. f st = Inr x \<longrightarrow> Q x c') \<and> (\<forall>e. f st = Inl e \<longrightarrow> E e c')"
  shows "hoare P (read_store te f) Q E"
  unfolding read_store_def
  by (rule hoare_transact) (use assms in \<open>auto simp: Let_def split: sum.split\<close>)

lemma hoare_write:
  assumes "\<And>c es now. P c \<Longrightarrow> Q () (c\<lparr>db := f now (fold user_commit es (db c)), accesses := accesses c + 1\<rparr>)"
  shows "hoare P (write_store te f) Q E"
  unfolding write_store_def by (rule hoare_transact) (use assms in auto)

text \<open>Methods that leave the database alone.\<close>

definition same_db :: "(ctl, 'a) effect \<Rightarrow> bool" where
  "same_db f = (\<forall>c. db (snd (f c)) = db c)"

lemma same_dbD: "same_db f \<Longrightarrow> hoare (\<lambda>c. P (db c)) f (\<lambda>_ c. P (db c)) (\<lambda>_ c. P (db c))"
  by (rule hoareI) (metis same_db_def snd_conv)+

lemma same_db_keeps: "(\<And>d. keeps (\<lambda>c. db c = d) f) \<Longrightarrow> same_db f"
  unfolding same_db_def
proof
  fix c assume k: "\<And>d. keeps (\<lambda>c. db c = d) f"
  show "db (snd (f c)) = db c" by (rule keepsD [OF k, where s = c]) (rule refl)
qed

lemma keeps_note [step_intros]: "keeps (\<lambda>c. db c = d) (modify (note_event e))"
  by (rule keeps_modify) (simp add: note_event_def)

lemma archive_db: "same_db (archive te s)"
  unfolding archive_def by (rule same_db_keeps) (intro step_intros)

lemma stop_db: "same_db (stop_container te cont)"
  unfolding stop_container_def call_stop_def by (rule same_db_keeps) (intro step_intros keeps_modify; simp add: note_event_def)

lemma pending_db: "same_db (pending_stop te a)"
proof (rule same_db_keeps)
  fix d show "keeps (\<lambda>c. db c = d) (pending_stop te a)"
    unfolding pending_stop_def using stop_db by (intro step_intros keepsI) (simp add: same_db_def)
qed

lemma run_db: "same_db (start_job te cfg la enforced attempt rec)"
  unfolding start_job_def start_container_def by (rule same_db_keeps) (intro step_intros)

lemma docker_state_db: "same_db (docker_state te)"
  unfolding docker_state_def by (rule same_db_keeps) (intro step_intros)

lemma sample_owners_db: "keeps (\<lambda>c. db c = d) (sample_owners fs now ocs dd)"
proof (induction ocs arbitrary: dd)
  case (Cons oc ocs)
  have "keeps (\<lambda>c. db c = d) (\<lambda>c. case sample fs (oc_id oc) (oc_pid oc) now (cpu_last c) of (r, l) \<Rightarrow> (r, c\<lparr>cpu_last := l\<rparr>))"
    by (rule keepsI) (simp split: prod.split)
  then show ?case using Cons by (auto intro: step_intros)
qed (simp add: keeps_ret)

lemma observe_db: "same_db (observe_all te now owners spots docker_ok)"
proof (rule same_db_keeps)
  fix d show "keeps (\<lambda>c. db c = d) (observe_all te now owners spots docker_ok)"
  proof (cases "gpus_answer te")
    case (Inl e)
    then show ?thesis by (simp add: observe_all_def keeps_if keeps_gets keeps_lift)
  next
    case (Inr gs)
    then show ?thesis
      by (auto simp: observe_all_def intro!: step_intros keeps_modify sample_owners_db)
  qed
qed

lemma judge_db: "db (snd (fold (judge cfg now kill ps as) obs vc)) = db (snd vc)"
  by (induction obs arbitrary: vc) (simp_all add: judge_def Let_def note_event_def split: prod.split)

lemma judge_all_db: "same_db (judge_all cfg now kill ps as obs)"
  unfolding same_db_def
proof
  fix c show "db (snd (judge_all cfg now kill ps as obs c)) = db c"
    using judge_db [of cfg now kill ps as obs "([], c)"] by (auto simp: judge_all_def split: prod.split)
qed

section \<open>The invariant of the database\<close>

definition db_ok :: "int \<Rightarrow> store \<Rightarrow> store \<Rightarrow> bool" where
  "db_ok m st0 st = (store_inv m st \<and> reach m st0 st \<and> exclusive st)"

lemma db_ok_users: "db_ok m st0 st \<Longrightarrow> db_ok m st0 (fold user_commit es st)"
  using users_inv [of m st es] reach_users [of m st0 st es] users_holders [of m st es]
  by (simp add: db_ok_def exclusive_def held_gpus_def)

lemma db_ok_step: "db_ok m st0 st \<Longrightarrow> exclusive (store_step m e st) \<Longrightarrow> db_ok m st0 (store_step m e st)"
  using store_step_inv reach_step by (simp add: db_ok_def)

lemma db_okD: "db_ok m st0 st \<Longrightarrow> store_inv m st"
  by (simp add: db_ok_def)

lemma exclusive_cong: "holders st' = holders st \<Longrightarrow> exclusive st' = exclusive st"
  by (simp add: exclusive_def held_gpus_def)

lemma db_ok_preempting: "db_ok m st0 st \<Longrightarrow> db_ok m st0 (mark_preempting i why st)"
  using db_ok_step [of m st0 st "MarkPreempting i why"] exclusive_cong [OF preempting_holders, of m st i why]
  by (simp add: db_ok_def)

lemma db_ok_fail: "db_ok m st0 st \<Longrightarrow> row_sat st i never_started \<Longrightarrow> db_ok m st0 (fail_job i why now st)"
  using db_ok_step [of m st0 st "FailLaunch i why now"] exclusive_cong [OF fail_holders, of m st i why now]
  by (simp add: db_ok_def)

lemma db_ok_finish: "db_ok m st0 st \<Longrightarrow> row_sat st i is_active \<Longrightarrow> db_ok m st0 (snd (finish i ec m v now st))"
proof -
  assume ok: "db_ok m st0 st" and sat: "row_sat st i is_active"
  have "exclusive (snd (finish i ec m v now st))"
    using ok unfolding exclusive_def held_gpus_def finish_holders [OF db_okD [OF ok] sat]
    by (simp add: db_ok_def exclusive_def held_gpus_def distinct_map_filter)
  then show ?thesis using db_ok_step [OF ok, of "Finish i ec v now"] sat by simp
qed

lemma db_ok_running: "db_ok m st0 st \<Longrightarrow> Some gpu \<notin> set (held_gpus st) \<Longrightarrow>
    db_ok m st0 (snd (mark_running i gpu cont now st)) \<and>
    set (held_gpus (snd (mark_running i gpu cont now st))) \<subseteq> insert (Some gpu) (set (held_gpus st))"
proof (cases "row_sat st i (\<lambda>r. state r = QUEUED)")
  case True
  assume ok: "db_ok m st0 st" and g: "Some gpu \<notin> set (held_gpus st)"
  from running_holders [OF db_okD [OF ok] True, of gpu cont now] obtain xs ys where
    h: "holders st = xs @ ys" "holders (snd (mark_running i gpu cont now st)) = xs @ (i, Some gpu, Some cont) # ys" by blast
  have "exclusive (snd (mark_running i gpu cont now st))"
    using ok g by (auto simp: exclusive_def held_gpus_def h db_ok_def)
  then show ?thesis using db_ok_step [OF ok, of "MarkRunning i gpu cont now"]
    by (auto simp: held_gpus_def h)
qed (auto simp: running_idle)

section \<open>Reconciling\<close>

abbreviation okc :: "config \<Rightarrow> store \<Rightarrow> ctl \<Rightarrow> bool" where
  "okc cfg st0 c \<equiv> db_ok (max_attempts (spot cfg)) st0 (db c)"

lemma active_ids: "store_inv m st \<Longrightarrow> rs_job_id ` set (active st) = fst ` set (holders st) \<and> distinct (map rs_job_id (active st))"
proof -
  assume inv: "store_inv m st"
  have "map rs_job_id (active st) = map jid (filter is_active (jobs st))" by (simp add: active_def spot_of_def comp_def)
  then have "distinct (map rs_job_id (active st))"
    using store_invD(1) [OF inv] by (simp add: distinct_map_filter)
  moreover have "rs_job_id ` set (active st) = fst ` set (holders st)"
    using holders_active [OF inv] by (simp add: image_image)
  ultimately show ?thesis by simp
qed

lemma close_out_ok:
  "hoare (\<lambda>c. okc cfg st0 c \<and> insert (rs_job_id a) J \<subseteq> fst ` set (holders (db c)) \<and> rs_job_id a \<notin> J)
     (close_out te cfg spots a) (\<lambda>_ c. okc cfg st0 c \<and> J \<subseteq> fst ` set (holders (db c))) (\<lambda>_. okc cfg st0)"
proof (cases "still_running spots a")
  case True
  then show ?thesis by (simp add: close_out_def Let_def) (rule hoare_pre [OF hoare_ret], simp)
next
  case False
  let ?Q = "\<lambda>c. okc cfg st0 c \<and> J \<subseteq> fst ` set (holders (db c))"
  have fin: "hoare (\<lambda>c. okc cfg st0 c \<and> insert (rs_job_id a) J \<subseteq> fst ` set (holders (db c)) \<and> rs_job_id a \<notin> J)
     (transact te (\<lambda>now. finish (rs_job_id a) ec (max_attempts (spot cfg)) v now)) (\<lambda>_. ?Q) (\<lambda>_. okc cfg st0)" for ec v
  proof (rule hoare_transact, elim conjE)
    fix c es now r st
    assume ok: "okc cfg st0 c" and J: "insert (rs_job_id a) J \<subseteq> fst ` set (holders (db c))" "rs_job_id a \<notin> J"
      and f: "finish (rs_job_id a) ec (max_attempts (spot cfg)) v now (fold user_commit es (db c)) = (r, st)"
    let ?st = "fold user_commit es (db c)"
    have ok': "db_ok (max_attempts (spot cfg)) st0 ?st" using db_ok_users [OF ok] .
    have h: "holders ?st = holders (db c)" using users_holders [OF db_okD [OF ok]] .
    have sat: "row_sat ?st (rs_job_id a) is_active" using active_sat [OF db_okD [OF ok']] J h by auto
    have st: "st = snd (finish (rs_job_id a) ec (max_attempts (spot cfg)) v now ?st)" using f by simp
    have "db_ok (max_attempts (spot cfg)) st0 st" unfolding st by (rule db_ok_finish [OF ok' sat])
    moreover have "J \<subseteq> fst ` set (holders st)"
      unfolding st finish_holders [OF db_okD [OF ok'] sat] h using J by fastforce
    ultimately show "case r of Inl e \<Rightarrow> okc cfg st0 (c\<lparr>db := st, accesses := accesses c + 1\<rparr>)
        | Inr x \<Rightarrow> ?Q (c\<lparr>db := st, accesses := accesses c + 1\<rparr>)" by (simp split: sum.split)
  qed
  have rest: "hoare ?Q (case container_of spots a of None \<Rightarrow> ret () | Some s \<Rightarrow> archive te s) (\<lambda>_. ?Q) (\<lambda>_. okc cfg st0)"
  proof (cases "container_of spots a")
    case (Some s)
    then show ?thesis by simp (rule hoare_conseq [OF same_dbD [OF archive_db,
        where P = "\<lambda>d. db_ok (max_attempts (spot cfg)) st0 d \<and> J \<subseteq> fst ` set (holders d)"]], auto)
  next
    case None
    then show ?thesis by simp (rule hoare_pre [OF hoare_ret])
  qed
  show ?thesis
    by (simp only: close_out_def Let_def False if_False)
       (rule hoare_bnd [OF fin], rule hoare_bnd [OF _ rest], rule hoare_pre [OF hoare_modify], simp)
qed

lemma reconcile_ok: "keeps (okc cfg st0) (reconcile te cfg spots)"
  unfolding keeps_def reconcile_def
proof (rule hoare_bnd)
  let ?R = "\<lambda>as c. okc cfg st0 c \<and> rs_job_id ` set as \<subseteq> fst ` set (holders (db c)) \<and> distinct (map rs_job_id as)"
  show "hoare (okc cfg st0) (read_store te (\<lambda>st. Inr (active st))) ?R (\<lambda>_. okc cfg st0)"
  proof (rule hoare_read)
    fix c es assume "okc cfg st0 c"
    then have ok: "db_ok (max_attempts (spot cfg)) st0 (fold user_commit es (db c))" by (rule db_ok_users)
    then show "let st = fold user_commit es (db c); c' = c\<lparr>db := st, accesses := accesses c + 1\<rparr>
      in (\<forall>x. Inr (active st) = Inr x \<longrightarrow> ?R x c') \<and> (\<forall>e. Inr (active st) = Inl e \<longrightarrow> okc cfg st0 c')"
      using active_ids [OF db_okD [OF ok]] by (simp add: Let_def)
  qed
  fix as
  have "hoare (\<lambda>c. (distinct (map rs_job_id as)) \<and> (okc cfg st0 c \<and> rs_job_id ` set as \<subseteq> fst ` set (holders (db c))))
     (for_each (close_out te cfg spots) as) (\<lambda>_. okc cfg st0) (\<lambda>_. okc cfg st0)"
  proof (rule hoare_assume)
    assume d: "distinct (map rs_job_id as)"
    let ?I = "\<lambda>(xs :: running_spot list) c. okc cfg st0 c \<and> rs_job_id ` set (drop (length xs) as) \<subseteq> fst ` set (holders (db c))"
    have "hoare (?I []) (for_each (close_out te cfg spots) as) (\<lambda>_. ?I as) (\<lambda>_. okc cfg st0)"
    proof (rule hoare_for_each [where I = ?I])
      fix xs a ys assume as: "as = xs @ a # ys"
      show "hoare (?I xs) (close_out te cfg spots a) (\<lambda>_. ?I (xs @ [a])) (\<lambda>_. okc cfg st0)"
        using d by (auto simp: as intro!: hoare_conseq [OF close_out_ok [where J = "rs_job_id ` set ys"]])
    qed
    then show "hoare (\<lambda>c. okc cfg st0 c \<and> rs_job_id ` set as \<subseteq> fst ` set (holders (db c)))
        (for_each (close_out te cfg spots) as) (\<lambda>_. okc cfg st0) (\<lambda>_. okc cfg st0)"
      by (rule hoare_conseq) auto
  qed
  then have loop: "hoare (?R as) (for_each (close_out te cfg spots) as) (\<lambda>_. okc cfg st0) (\<lambda>_. okc cfg st0)"
    by (rule hoare_pre) auto
  have arch: "hoare (okc cfg st0) (for_each (\<lambda>s. if sc_id s \<in> known_ids spots as then ret () else archive te s) spots)
      (\<lambda>_. okc cfg st0) (\<lambda>_. okc cfg st0)"
    using same_dbD [OF archive_db] unfolding keeps_def [symmetric]
    by (intro step_intros) (simp add: keeps_def)
  show "hoare (?R as) (bnd (for_each (close_out te cfg spots) as)
      (\<lambda>_. for_each (\<lambda>s. if sc_id s \<in> known_ids spots as then ret () else archive te s) spots))
      (\<lambda>_. okc cfg st0) (\<lambda>_. okc cfg st0)"
    by (rule hoare_bnd [OF loop arch])
qed

section \<open>Acting on a decision\<close>

definition trip :: "running_spot \<Rightarrow> int \<times> string option \<times> string option" where
  "trip a = (rs_job_id a, Some (rs_gpu_uuid a), Some (rs_container a))"

text \<open>While a decision about the spots \<open>as\<close> is carried out: they still hold what they held,
  everyone else holds a GPU of \<open>G\<close>, no job of \<open>D\<close> runs, and the containers \<open>X\<close> are being
  stopped.\<close>

definition acting :: "int \<Rightarrow> store \<Rightarrow> running_spot list \<Rightarrow> string set \<Rightarrow> int set \<Rightarrow> string set \<Rightarrow> store \<Rightarrow> string set \<Rightarrow> bool" where
  "acting m st0 as G D X st issued = (db_ok m st0 st \<and> trip ` set as \<subseteq> set (holders st) \<and>
     (\<forall>h \<in> set (holders st). h \<in> trip ` set as \<or> fst (snd h) \<in> Some ` G) \<and>
     D \<subseteq> rs_job_id ` set as \<and> D \<inter> running_ids st = {} \<and> X \<subseteq> issued)"

lemma acting_ids: "acting m st0 as G D X st issued \<Longrightarrow> D \<subseteq> fst ` set (holders st)"
proof -
  assume a: "acting m st0 as G D X st issued"
  have "rs_job_id ` set as = fst ` trip ` set as" by (simp add: image_image trip_def)
  then show ?thesis using a unfolding acting_def by (metis image_mono subset_trans)
qed

lemma acting_users: "acting m st0 as G D X st issued \<Longrightarrow> acting m st0 as G D X (fold user_commit es st) issued"
  using db_ok_users [of m st0 st es] users_holders [OF db_okD, of m st0 st es] users_running [of es st]
  unfolding acting_def by auto

lemma acting_preempting: "acting m st0 as G D X st issued \<Longrightarrow> i \<in> rs_job_id ` set as \<Longrightarrow>
    acting m st0 as G (insert i D) X (mark_preempting i why st) issued"
  using db_ok_preempting [of m st0 st i why] preempting_holders [OF db_okD, of m st0 st i why]
    preempting_running [of i why st]
  unfolding acting_def by auto

lemma acting_fail: "acting m st0 as G D X st issued \<Longrightarrow> row_sat st i never_started \<Longrightarrow>
    acting m st0 as G D X (fail_job i why now st) issued"
  using db_ok_fail [of m st0 st i why now] fail_holders [OF db_okD, of m st0 st i why now] fail_running [of i why now st]
  unfolding acting_def by auto

lemma acting_issue: "acting m st0 as G D X st issued \<Longrightarrow> acting m st0 as G D (insert c X) st (insert c issued)"
  unfolding acting_def by auto

lemma queued_not_holding: "store_inv m st \<Longrightarrow> row_sat st i (\<lambda>r. state r = QUEUED) \<Longrightarrow> i \<notin> fst ` set (holders st)"
proof
  assume inv: "store_inv m st" and q: "row_sat st i (\<lambda>r. state r = QUEUED)" and "i \<in> fst ` set (holders st)"
  then have "row_sat st i is_active" using active_sat by blast
  with q show False by (auto simp: row_sat_def is_active_def split: option.splits)
qed

lemma acting_running:
  assumes "acting m st0 as G D X st issued" "g \<notin> G" "g \<notin> rs_gpu_uuid ` set as"
  shows "acting m st0 as (insert g G) D X (snd (mark_running i g cont now st)) issued"
proof (cases "row_sat st i (\<lambda>r. state r = QUEUED)")
  case True
  have ok: "db_ok m st0 st" and t: "trip ` set as \<subseteq> set (holders st)" and D: "D \<inter> running_ids st = {}"
    and h: "\<forall>h \<in> set (holders st). h \<in> trip ` set as \<or> fst (snd h) \<in> Some ` G"
    using assms(1) by (auto simp: acting_def)
  have "Some g \<notin> set (held_gpus st)" using h assms(2,3) by (force simp: held_gpus_def trip_def)
  with db_ok_running [OF ok, of g i cont now] have ok': "db_ok m st0 (snd (mark_running i g cont now st))" by blast
  from running_holders [OF db_okD [OF ok] True, of g cont now] obtain xs ys where
    hs: "holders st = xs @ ys" "holders (snd (mark_running i g cont now st)) = xs @ (i, Some g, Some cont) # ys" by blast
  have "i \<notin> D" using queued_not_holding [OF db_okD [OF ok] True] acting_ids [OF assms(1)] by blast
  then have "D \<inter> running_ids (snd (mark_running i g cont now st)) = {}"
    using D running_started [of i g cont now st] by blast
  then show ?thesis using assms(1) ok' t h unfolding acting_def hs by auto
next
  case False
  then show ?thesis using assms(1) by (auto simp: running_idle acting_def)
qed

abbreviation act_on :: "config \<Rightarrow> store \<Rightarrow> running_spot list \<Rightarrow> string set \<Rightarrow> int set \<Rightarrow> string set \<Rightarrow> ctl \<Rightarrow> bool" where
  "act_on cfg st0 as G D X c \<equiv> acting (max_attempts (spot cfg)) st0 as G D X (db c) (stop_issued c)"

lemma act_onD: "act_on cfg st0 as G D X c \<Longrightarrow> okc cfg st0 c"
  by (simp add: acting_def)

lemma stop_acts: "hoare (act_on cfg st0 as G D X) (stop_container te cont) (\<lambda>_. act_on cfg st0 as G D (insert cont X)) (\<lambda>_. okc cfg st0)"
  unfolding stop_container_def
proof (rule hoare_bnd)
  show "hoare (act_on cfg st0 as G D X) (modify (\<lambda>c. c\<lparr>stop_issued := insert cont (stop_issued c)\<rparr>))
      (\<lambda>_. act_on cfg st0 as G D (insert cont X)) (\<lambda>_. okc cfg st0)"
    by (rule hoare_pre [OF hoare_modify]) (simp add: acting_issue)
  have "keeps (act_on cfg st0 as G D (insert cont X)) (call_stop te cont)"
    unfolding call_stop_def by (intro step_intros keeps_modify) (simp add: note_event_def)
  then show "hoare (act_on cfg st0 as G D (insert cont X)) (call_stop te cont) (\<lambda>_. act_on cfg st0 as G D (insert cont X)) (\<lambda>_. okc cfg st0)"
    for x :: unit unfolding keeps_def by (rule hoare_conseq) (simp_all add: act_onD)
qed

definition pending :: "running_spot \<Rightarrow> string set" where
  "pending a = (if reclaiming a \<and> rs_container a \<noteq> [] then {rs_container a} else {})"

lemma pending_acts: "hoare (act_on cfg st0 as G D X) (pending_stop te a) (\<lambda>_. act_on cfg st0 as G D (X \<union> pending a)) (\<lambda>_. okc cfg st0)"
  unfolding pending_stop_def
proof (rule hoare_bnd)
  show "hoare (act_on cfg st0 as G D X) (gets stop_issued) (\<lambda>s c. act_on cfg st0 as G D X c \<and> s = stop_issued c) (\<lambda>_. okc cfg st0)"
    by (rule hoare_pre [OF hoare_gets]) simp
  fix s
  show "hoare (\<lambda>c. act_on cfg st0 as G D X c \<and> s = stop_issued c)
      (if reclaiming a \<and> rs_container a \<noteq> [] \<and> rs_container a \<notin> s then stop_container te (rs_container a) else ret ())
      (\<lambda>_. act_on cfg st0 as G D (X \<union> pending a)) (\<lambda>_. okc cfg st0)"
  proof (cases "reclaiming a \<and> rs_container a \<noteq> [] \<and> rs_container a \<notin> s")
    case True
    then show ?thesis by (simp add: pending_def) (rule hoare_pre [OF stop_acts], simp)
  next
    case False
    then show ?thesis
      by (simp only: if_False) (rule hoare_pre [OF hoare_ret], auto simp: pending_def acting_def)
  qed
qed

lemma reclaim_acts: "re_job_id r \<in> rs_job_id ` set as \<Longrightarrow> hoare (act_on cfg st0 as G D X) (do_reclaim te r)
    (\<lambda>_. act_on cfg st0 as G (insert (re_job_id r) D) (insert (re_container r) X)) (\<lambda>_. okc cfg st0)"
  unfolding do_reclaim_def
proof (rule hoare_bnd)
  assume i: "re_job_id r \<in> rs_job_id ` set as"
  show "hoare (act_on cfg st0 as G D X) (write_store te (\<lambda>_. mark_preempting (re_job_id r) (reclaim_reason (re_reasons r))))
      (\<lambda>_. act_on cfg st0 as G (insert (re_job_id r) D) X) (\<lambda>_. okc cfg st0)"
    by (rule hoare_write) (simp add: acting_preempting acting_users i)
qed (rule stop_acts)

lemma same_act: "same_db f \<Longrightarrow> (\<And>c. stop_issued (snd (f c)) = stop_issued c) \<Longrightarrow>
    hoare (\<lambda>c. P (db c) (stop_issued c)) f (\<lambda>_ c. P (db c) (stop_issued c)) (\<lambda>_ c. P (db c) (stop_issued c))"
  by (rule hoareI) (metis same_db_def snd_conv)+

lemma start_job_stops: "stop_issued (snd (start_job te cfg la enforced attempt rec c)) = stop_issued c"
proof -
  have "keeps (\<lambda>c'. stop_issued c' = stop_issued c) (start_job te cfg la enforced attempt rec)"
    unfolding start_job_def start_container_def by (intro step_intros keeps_modify) (simp add: note_event_def)
  from keepsD [OF this] show ?thesis by simp
qed

lemma get_queued:
  assumes "get_job st i = Inr (Some rec)" "state (fst rec) = QUEUED"
  shows "row_sat st i never_started \<and> jid (fst rec) = i"
proof -
  obtain r where r: "row_of st i = Some r" "fst rec = r"
    using assms(1) by (auto simp: get_job_def record_of_def rmap_Inr_iff split: option.splits)
  then show ?thesis using assms(2) by (auto simp: row_sat_def never_started_def dest: row_of_Some)
qed

lemma launch_acts:
  assumes g: "la_gpu_uuid la \<notin> G" "la_gpu_uuid la \<notin> rs_gpu_uuid ` set as"
  shows "hoare (act_on cfg st0 as G D X) (do_launch te cfg enforced la)
    (\<lambda>_. act_on cfg st0 as (insert (la_gpu_uuid la) G) D X) (\<lambda>_. okc cfg st0)"
proof -
  let ?A = "act_on cfg st0 as G D X" and ?B = "act_on cfg st0 as (insert (la_gpu_uuid la) G) D X"
  let ?N = "\<lambda>rec c. ?A c \<and> row_sat (db c) (jid (fst rec)) never_started"
  have wk: "?A c \<Longrightarrow> ?B c" for c by (auto simp: acting_def)
  have rd: "hoare ?A (read_store te (\<lambda>st. get_job st (la_job_id la)))
      (\<lambda>f c. ?A c \<and> (\<forall>rec. f = Some rec \<and> state (fst rec) = QUEUED \<longrightarrow> row_sat (db c) (jid (fst rec)) never_started)) (\<lambda>_. okc cfg st0)"
  proof (rule hoare_read)
    fix c es assume a: "?A c"
    from acting_users [OF a, of es] get_queued [of "fold user_commit es (db c)" "la_job_id la"]
    show "let st = fold user_commit es (db c); c' = c\<lparr>db := st, accesses := accesses c + 1\<rparr>
      in (\<forall>x. get_job st (la_job_id la) = Inr x \<longrightarrow> ?A c' \<and> (\<forall>rec. x = Some rec \<and> state (fst rec) = QUEUED \<longrightarrow>
           row_sat (db c') (jid (fst rec)) never_started)) \<and>
         (\<forall>e. get_job st (la_job_id la) = Inl e \<longrightarrow> okc cfg st0 c')"
      by (auto simp: Let_def acting_def)
  qed
  have att: "hoare (?N rec) (read_store te (\<lambda>st. next_attempt st (la_job_id la))) (\<lambda>_. ?N rec) (\<lambda>_. okc cfg st0)" for rec
  proof (rule hoare_read, elim conjE)
    fix c es assume a: "?A c" and n: "row_sat (db c) (jid (fst rec)) never_started"
    have "row_sat (fold user_commit es (db c)) (jid (fst rec)) never_started"
      using never_started_users [OF db_okD [OF act_onD [OF a]] n] .
    then show "let st = fold user_commit es (db c); c' = c\<lparr>db := st, accesses := accesses c + 1\<rparr>
      in (\<forall>x. next_attempt st (la_job_id la) = Inr x \<longrightarrow> ?N rec c') \<and> (\<forall>e. next_attempt st (la_job_id la) = Inl e \<longrightarrow> okc cfg st0 c')"
      using acting_users [OF a, of es] by (simp add: Let_def acting_def)
  qed
  have fl: "hoare (?N rec) (bnd (write_store te (\<lambda>now. fail_job (jid (fst rec)) why now)) (\<lambda>_. ret None)) (\<lambda>_. ?A) (\<lambda>_. okc cfg st0)"
    for rec why
  proof (rule hoare_bnd)
    show "hoare (?N rec) (write_store te (\<lambda>now. fail_job (jid (fst rec)) why now)) (\<lambda>_. ?A) (\<lambda>_. okc cfg st0)"
    proof (rule hoare_write, elim conjE)
      fix c es now assume a: "?A c" and n: "row_sat (db c) (jid (fst rec)) never_started"
      show "?A (c\<lparr>db := fail_job (jid (fst rec)) why now (fold user_commit es (db c)), accesses := accesses c + 1\<rparr>)"
        using acting_fail [OF acting_users [OF a] never_started_users [OF db_okD [OF act_onD [OF a]] n]] by simp
    qed
    show "hoare ?A (ret None) (\<lambda>_. ?A) (\<lambda>_. okc cfg st0)" for x :: unit by (rule hoare_pre [OF hoare_ret]) simp
  qed
  have run: "hoare (?N rec) (start_job te cfg la enforced n rec) (\<lambda>_. ?N rec) (\<lambda>_. ?N rec)" for rec n
    by (rule same_act [OF run_db start_job_stops])
  have tried: "hoare (?N rec) (catch (bnd (start_job te cfg la enforced n rec) (\<lambda>cont. ret (Some cont)))
      (\<lambda>e. is_docker_error e \<or> is_value_error e)
      (\<lambda>e. bnd (write_store te (\<lambda>now. fail_job (jid (fst rec)) (why e) now)) (\<lambda>_. ret None))) (\<lambda>_. ?A) (\<lambda>_. okc cfg st0)" for rec n why
  proof (rule hoare_catch [OF _ fl])
    show "hoare (?N rec) (bnd (start_job te cfg la enforced n rec) (\<lambda>cont. ret (Some cont))) (\<lambda>_. ?A)
      (\<lambda>e c. if is_docker_error e \<or> is_value_error e then ?N rec c else okc cfg st0 c)"
    proof (rule hoare_bnd)
      show "hoare (?N rec) (start_job te cfg la enforced n rec) (\<lambda>_. ?N rec)
        (\<lambda>e c. if is_docker_error e \<or> is_value_error e then ?N rec c else okc cfg st0 c)"
        by (rule hoare_conseq [OF run]) (auto simp: act_onD)
      show "hoare (?N rec) (ret (Some cont)) (\<lambda>_. ?A) (\<lambda>e c. if is_docker_error e \<or> is_value_error e then ?N rec c else okc cfg st0 c)"
        for cont by (rule hoare_pre [OF hoare_ret]) simp
    qed
  qed
  have mark: "hoare ?A (transact te (\<lambda>now. mark_running i (la_gpu_uuid la) cont now)) (\<lambda>_. ?B) (\<lambda>_. okc cfg st0)" for i cont
  proof (rule hoare_transact)
    fix c es now r st assume a: "?A c" and r: "mark_running i (la_gpu_uuid la) cont now (fold user_commit es (db c)) = (r, st)"
    from acting_running [OF acting_users [OF a, of es] g, of i cont now] r
    show "case r of Inl e \<Rightarrow> okc cfg st0 (c\<lparr>db := st, accesses := accesses c + 1\<rparr>)
        | Inr x \<Rightarrow> ?B (c\<lparr>db := st, accesses := accesses c + 1\<rparr>)"
      by (auto simp: acting_def split: sum.split)
  qed
  have fin: "hoare ?A (case started of None \<Rightarrow> ret ()
      | Some cont \<Rightarrow> bnd (transact te (\<lambda>now. mark_running i (la_gpu_uuid la) cont now)) (\<lambda>_. ret ())) (\<lambda>_. ?B) (\<lambda>_. okc cfg st0)"
    for started i
  proof (cases started)
    case None
    then show ?thesis by simp (rule hoare_pre [OF hoare_ret], rule wk)
  next
    case (Some cont)
    then show ?thesis by simp (rule hoare_bnd [OF mark], rule hoare_pre [OF hoare_ret])
  qed
  show ?thesis
    unfolding do_launch_def
  proof (rule hoare_bnd [OF rd])
    fix found
    show "hoare (\<lambda>c. ?A c \<and> (\<forall>rec. found = Some rec \<and> state (fst rec) = QUEUED \<longrightarrow> row_sat (db c) (jid (fst rec)) never_started))
       (case found of None \<Rightarrow> ret ()
        | Some rec \<Rightarrow> if state (fst rec) \<noteq> QUEUED then ret ()
          else bnd (read_store te (\<lambda>st. next_attempt st (la_job_id la))) (\<lambda>attempt.
            bnd (catch (bnd (start_job te cfg la enforced attempt rec) (\<lambda>cont. ret (Some cont)))
                (\<lambda>e. is_docker_error e \<or> is_value_error e)
                (\<lambda>e. bnd (write_store te (\<lambda>now. fail_job (jid (fst rec)) (''launch failed: '' @ exc_str e) now))
                       (\<lambda>_. ret None))) (\<lambda>started. case started of
           None \<Rightarrow> ret ()
         | Some cont \<Rightarrow>
             bnd (transact te (\<lambda>now. mark_running (jid (fst rec)) (la_gpu_uuid la) cont now)) (\<lambda>_. ret ()))))
       (\<lambda>_. ?B) (\<lambda>_. okc cfg st0)"
    proof (cases found)
      case None
      then show ?thesis by simp (rule hoare_pre [OF hoare_ret], rule wk)
    next
      case (Some rec)
      show ?thesis
      proof (cases "state (fst rec) = QUEUED")
        case True
        show ?thesis
          unfolding Some option.case using True
          by (simp only: not_True_eq_False if_False simp_thms)
             (rule hoare_pre [OF hoare_bnd [OF att hoare_bnd [OF tried fin]]], blast)
      qed (use Some in \<open>simp, intro hoare_pre [OF hoare_ret] wk, simp\<close>)
    qed
  qed
qed

end
