(* ===== verification/Daemon_Keeps.thy ===== *)
theory Daemon_Keeps imports Daemon begin

text \<open>
  What the controller's methods keep whatever is answered and committed: interfaces of the
  few ways in which they change the controller, and the methods over them. Assertions on the
  history or on the stops that were issued have only those changes to survive. An assertion
  that only a stop that could be started keeps survives every tick that returns.
\<close>

locale ctl_base =
  fixes I :: "ctl \<Rightarrow> bool"
  assumes db_step: "I c \<Longrightarrow> I (c\<lparr>db := st, accesses := n\<rparr>)"
    and gpus_step: "I c \<Longrightarrow> I (c\<lparr>gpu_list := gs\<rparr>)"
    and cpu_step: "I c \<Longrightarrow> I (c\<lparr>cpu_last := l\<rparr>)"
    and forget_step: "I c \<Longrightarrow> I (c\<lparr>stop_issued := stop_issued c - {s}\<rparr>)"
    and archive_step: "I c \<Longrightarrow> I (note_event (Archived s) c)"
begin

lemma keep_transact: "keeps I (transact te f)"
  by (rule keepsI) (simp add: transact_def db_step split: prod.split)

lemma keep_read: "keeps I (read_store te f)" and keep_write: "keeps I (write_store te g)"
  unfolding read_store_def write_store_def by (rule keep_transact)+

lemma keep_archive: "keeps I (archive te s)"
  unfolding archive_def by (intro step_intros keeps_modify archive_step)

lemma keep_sample_owners: "keeps I (sample_owners fs now ocs d)"
proof (induction ocs arbitrary: d)
  case (Cons oc ocs)
  have "keeps I (\<lambda>c. case sample fs (oc_id oc) (oc_pid oc) now (cpu_last c) of (r, l) \<Rightarrow> (r, c\<lparr>cpu_last := l\<rparr>))"
    by (rule keepsI) (simp add: cpu_step split: prod.split)
  then show ?case using Cons by (auto intro: step_intros)
qed (simp add: keeps_ret)

lemma keep_observe_all: "keeps I (observe_all te now os ss ok)"
proof (cases "gpus_answer te")
  case (Inl e)
  then show ?thesis by (simp add: observe_all_def keeps_if keeps_gets keeps_lift)
next
  case (Inr gs)
  show ?thesis
    unfolding observe_all_def Inr sum.case by (intro step_intros keeps_modify keep_sample_owners gpus_step cpu_step)
qed

lemma keep_close_out: "keeps I (close_out te cfg spots a)"
  unfolding close_out_def Let_def by (intro step_intros keeps_modify keep_transact keep_archive forget_step)

lemma keep_reconcile: "keeps I (reconcile te cfg spots)"
  unfolding reconcile_def by (intro step_intros keep_read keep_close_out keep_archive)

lemma keep_docker_state: "keeps I (docker_state te)"
  unfolding docker_state_def by (intro step_intros)

end

lemma stop_container_run: "stop_container te cont c =
    (stop_answer te cont, note_event (Stopping cont (is_ok (stop_answer te cont))) (c\<lparr>stop_issued := insert cont (stop_issued c)\<rparr>))"
  by (simp add: stop_container_def call_stop_def bnd_def modify_def lift_def)

text \<open>When a call of \<open>docker stop\<close> keeps it, whether it can be started or not, so do the methods
  that stop.\<close>

locale ctl_still = ctl_base +
  assumes stop_step: "I c \<Longrightarrow> I (note_event (Stopping s ok) (c\<lparr>stop_issued := insert s (stop_issued c)\<rparr>))"
begin

lemma keep_stop: "keeps I (stop_container te cont)"
  by (rule keepsI) (simp add: stop_container_run stop_step)

lemma keep_pending_stop: "keeps I (pending_stop te a)"
  unfolding pending_stop_def by (intro step_intros keep_stop)

lemma keep_do_reclaim: "keeps I (do_reclaim te r)"
  unfolding do_reclaim_def by (intro step_intros keep_write keep_stop)

lemma keep_reclaim_all: "keeps I (reclaim_all te why)"
  unfolding reclaim_all_def reclaim_row_def by (intro step_intros keep_read keep_write keep_stop)

text \<open>The acts of a tick, when every planned launch keeps the assertion.\<close>

lemma keep_act_phase_if:
  assumes "\<And>q b hook la. la \<in> set (launches (plan vs as q b (hook \<or> allow_unenforced (spot cfg)))) \<Longrightarrow> keeps I (do_launch te cfg hook la)"
  shows "keeps I (act_phase te cfg ok as vs)"
  unfolding act_phase_def Let_def by (intro step_intros keep_pending_stop keep_read keep_do_reclaim assms)

end

text \<open>When starting a container keeps it, too, all of a tick's acts do.\<close>

locale ctl_running = ctl_base +
  assumes run_step: "I c \<Longrightarrow> I (note_event (Ran g argv) c)"
begin

lemma keep_do_launch: "keeps I (do_launch te cfg hook la)"
  unfolding do_launch_def start_job_def start_container_def
  by (intro step_intros keeps_modify keep_read keep_write keep_transact run_step)

end

locale ctl_still_run = ctl_still + ctl_running
begin

lemma keep_act_phase: "keeps I (act_phase te cfg ok as vs)"
  by (rule keep_act_phase_if) (rule keep_do_launch)

end

text \<open>When judging a GPU keeps it, so does deciding, and, if the launches do, a round.\<close>

locale ctl_judging = ctl_base +
  assumes verdicts_step: "I c \<Longrightarrow> I (c\<lparr>last_verdicts := vs\<rparr>)"
    and judge_step: "I c \<Longrightarrow> I (note_event (Judged v) (note_event (Saw t ob) (c\<lparr>trackers := ts\<rparr>)))"
begin

lemma keep_judge: "I (snd vc) \<Longrightarrow> I (snd (judge cfg now kill ps as ob vc))"
  by (simp add: judge_def Let_def judge_step split: prod.split)

lemma keep_judge_all: "keeps I (judge_all cfg now kill ps as obs)"
proof (rule keepsI)
  fix c assume "I c"
  then have "I (snd (fold (judge cfg now kill ps as) obs (vs, c)))" for vs
  proof (induction obs arbitrary: vs c)
    case (Cons ob obs)
    obtain vs' c' where j: "judge cfg now kill ps as ob (vs, c) = (vs', c')" by fastforce
    then have "I c'" using keep_judge [of "(vs, c)" cfg now kill ps as ob] Cons.prems by simp
    from Cons.IH [OF this] j show ?case by simp
  qed simp
  from this [of "[]"] show "I (snd (judge_all cfg now kill ps as obs c))"
    by (cases "fold (judge cfg now kill ps as) obs ([], c)") (simp add: judge_all_def verdicts_step)
qed

lemma keep_decide_phase: "keeps I (decide_phase te cfg now kill ps obs)"
  unfolding decide_phase_def by (intro step_intros keep_read keep_judge_all)

end

locale ctl_invariant = ctl_still + ctl_judging
begin

lemma keep_round_body_if:
  assumes "\<And>vs as q b hook la. la \<in> set (launches (plan vs as q b (hook \<or> allow_unenforced (spot cfg)))) \<Longrightarrow>
    keeps I (do_launch (round_env rd) cfg hook la)"
  shows "keeps I (round_body cfg rd)"
proof -
  have "keeps I (tick (round_env rd) cfg (round_time rd))"
    unfolding tick_def split_beta
    by (intro step_intros keep_read keep_docker_state keep_observe_all keep_reconcile keep_decide_phase keep_act_phase_if assms)
  then show ?thesis unfolding round_body_def by (intro step_intros)
qed

lemma keep_round_if:
  assumes "\<And>vs as q b hook la. la \<in> set (launches (plan vs as q b (hook \<or> allow_unenforced (spot cfg)))) \<Longrightarrow>
    keeps I (do_launch (round_env rd) cfg hook la)"
  shows "keeps I (loop_step cfg rd)"
  unfolding loop_step_def by (intro step_intros keep_reclaim_all keep_round_body_if assms)

lemma keep_run_loop_if:
  assumes "\<And>rd. rd \<in> set rds \<Longrightarrow> keeps I (loop_step cfg rd)" "I c"
  shows "I (run_loop cfg rds c)"
  using assms
proof (induction rds arbitrary: c)
  case (Cons rd rds)
  have "I (snd (loop_step cfg rd c))" using keepsD [OF Cons.prems(1) Cons.prems(2)] by simp
  from Cons.IH [OF _ this] Cons.prems(1) show ?case by (simp add: run_loop_def)
qed (simp add: run_loop_def)

end

locale ctl_run_invariant = ctl_invariant + ctl_still_run
begin

lemma keep_loop_step: "keeps I (loop_step cfg rd)"
  by (rule keep_round_if) (rule keep_do_launch)

lemma keep_round_body: "keeps I (round_body cfg rd)"
  by (rule keep_round_body_if) (rule keep_do_launch)

lemma keep_run_loop: "I c \<Longrightarrow> I (run_loop cfg rds c)"
  by (rule keep_run_loop_if) (rule keep_loop_step)

end

text \<open>A tick that returns started every stop it called.\<close>

locale ctl_returning = ctl_judging + ctl_running +
  assumes started_step: "I c \<Longrightarrow> I (note_event (Stopping s True) (c\<lparr>stop_issued := insert s (stop_issued c)\<rparr>))"
begin

abbreviation returns :: "(ctl, 'a) effect \<Rightarrow> bool" where
  "returns f \<equiv> hoare I f (\<lambda>_. I) (\<lambda>_ _. True)"

lemma returns_keeps: "keeps I f \<Longrightarrow> returns f"
  unfolding keeps_def by (erule hoare_conseq) simp_all

lemma returns_bnd: "returns f \<Longrightarrow> (\<And>x. returns (g x)) \<Longrightarrow> returns (bnd f g)"
  by (rule hoare_bnd)

lemma returns_each: "(\<And>x. returns (f x)) \<Longrightarrow> returns (for_each f xs)"
  by (rule hoare_for_each [where I = "\<lambda>_. I"])

lemma returns_stop: "returns (stop_container te cont)"
proof (rule hoareI)
  fix c x c' assume "I c" "stop_container te cont c = (Inr x, c')"
  then show "I c'" using started_step [of c cont] by (cases "stop_answer te cont") (auto simp: stop_container_run)
qed simp

lemma returns_ret: "returns (ret x)"
  by (rule returns_keeps) (rule keeps_ret)

lemma returns_pending: "returns (pending_stop te a)"
  unfolding pending_stop_def
  by (rule returns_bnd) (rule returns_keeps, rule keeps_gets, simp add: returns_stop returns_ret)

lemma returns_reclaim: "returns (do_reclaim te r)"
  unfolding do_reclaim_def by (rule returns_bnd) (rule returns_keeps, rule keep_write, rule returns_stop)

lemma returns_acts: "returns (act_phase te cfg ok as vs)"
proof -
  have q: "returns (if ok then read_store te f else ret [])" for f :: "store \<Rightarrow> queued_job list result"
    by (rule returns_keeps) (intro step_intros keep_read)
  show ?thesis
    unfolding act_phase_def Let_def
    by (intro returns_bnd returns_each returns_pending returns_reclaim returns_keeps [OF keep_do_launch] q returns_keeps [OF keeps_lift])
qed

lemma returns_tick: "returns (tick te cfg now)"
proof -
  have r: "keeps I (if ok then reconcile te cfg ss else ret ())" for ok ss by (intro step_intros keep_reconcile)
  show ?thesis
    unfolding tick_def split_beta
    by (intro returns_bnd returns_acts returns_keeps [OF keep_read] returns_keeps [OF keeps_lift]
        returns_keeps [OF keep_docker_state] returns_keeps [OF keep_observe_all] returns_keeps [OF r] returns_keeps [OF keep_decide_phase])
qed

end

end
