(* ===== verification/Daemon_Stops.thy ===== *)
theory Daemon_Stops imports Daemon_Keeps begin

text \<open>
  Which stops the controller called, and which of them could be started: what \<open>stop_issued\<close>
  remembers against what the history shows.
\<close>

text \<open>What a method added to the history.\<close>

definition new_events :: "ctl \<Rightarrow> ctl \<Rightarrow> daemon_event list" where
  "new_events c c' = drop (length (history c)) (history c')"

text \<open>\<open>docker stop\<close> was started for a container between the two states; or, when the controller
  had noted a stop before, it was called before.\<close>

definition stop_given :: "ctl \<Rightarrow> ctl \<Rightarrow> string \<Rightarrow> bool" where
  "stop_given c c' s = (if s \<in> stop_issued c then Stopping s True \<in> set (history c) \<or> Stopping s False \<in> set (history c)
     else Stopping s True \<in> set (new_events c c'))"

text \<open>Whatever is noted in \<open>stop_issued\<close> was called; the history only grows.\<close>

abbreviation called :: "ctl \<Rightarrow> bool" where
  "called c \<equiv> \<forall>s \<in> stop_issued c. Stopping s True \<in> set (history c) \<or> Stopping s False \<in> set (history c)"

interpretation stops: ctl_run_invariant called
proof unfold_locales
  show "called c \<Longrightarrow> called (note_event (Stopping s ok) (c\<lparr>stop_issued := insert s (stop_issued c)\<rparr>))" for c s ok
    by (cases ok) (auto simp: note_event_def)
qed (auto simp: note_event_def)

interpretation grows: ctl_run_invariant "\<lambda>c. \<exists>new. history c = h @ new" for h
  by unfold_locales (auto simp: note_event_def)

lemma grown: "(\<And>h. keeps (\<lambda>c. \<exists>new. history c = h @ new) f) \<Longrightarrow> f c = (r, c') \<Longrightarrow> history c' = history c @ new_events c c'"
  using keepsD [of "\<lambda>c'. \<exists>new. history c' = history c @ new" f c] by (auto simp: new_events_def)

text \<open>The stops of a tick that returns have started.\<close>

abbreviation fresh_stops :: "daemon_event list \<Rightarrow> string set \<Rightarrow> ctl \<Rightarrow> bool" where
  "fresh_stops h X c \<equiv> \<exists>new. history c = h @ new \<and> (\<forall>s \<in> stop_issued c. s \<in> X \<or> Stopping s True \<in> set new)"

lemma fresh_stops_add:
  assumes "fresh_stops h X c" "history c' = history c @ es" "\<forall>s \<in> stop_issued c'. s \<in> stop_issued c \<or> Stopping s True \<in> set es"
  shows "fresh_stops h X c'"
proof -
  from assms(1) obtain new where new: "history c = h @ new" "\<forall>s \<in> stop_issued c. s \<in> X \<or> Stopping s True \<in> set new" by blast
  have "history c' = h @ (new @ es)" using assms(2) new(1) by simp
  moreover have "\<forall>s \<in> stop_issued c'. s \<in> X \<or> Stopping s True \<in> set (new @ es)" using assms(3) new(2) by auto
  ultimately show ?thesis by blast
qed

interpretation fresh: ctl_returning "fresh_stops h X" for h X
  by unfold_locales (erule fresh_stops_add, simp add: note_event_def, simp add: note_event_def)+

lemma tick_gives:
  assumes t: "tick te cfg now c = (Inr (), c')" and "called c" "s \<in> stop_issued c'"
  shows "stop_given c c' s"
proof -
  have "\<exists>new. history c' = history c @ new \<and> (\<forall>s \<in> stop_issued c'. s \<in> stop_issued c \<or> Stopping s True \<in> set new)"
    by (rule hoareD(1) [OF fresh.returns_tick _ t]) simp
  then show ?thesis using assms(2,3) by (auto simp: stop_given_def new_events_def)
qed

lemma run_called: "called (run_loop cfg rds (new_controller st))"
  by (rule stops.keep_run_loop) (simp add: new_controller_def)

text \<open>\<open>reclaim_all\<close> starts a stop for every row it has read, or raises.\<close>

lemma reclaim_rows_stop: "\<forall>r \<in> set rows. container r \<noteq> None \<Longrightarrow>
    hoare (\<lambda>c. history c = h) (for_each (reclaim_row te why) rows)
      (\<lambda>_ c. \<forall>r \<in> set rows. Stopping (or_empty (container r)) True \<in> set (drop (length h) (history c))) (\<lambda>_ _. True)"
proof -
  assume nn: "\<forall>r \<in> set rows. container r \<noteq> None"
  let ?I = "\<lambda>(rs :: job_row list) c. \<exists>new. history c = h @ new \<and> (\<forall>r \<in> set rs. Stopping (or_empty (container r)) True \<in> set new)"
  have "hoare (?I []) (for_each (reclaim_row te why) rows) (\<lambda>_. ?I rows) (\<lambda>_ _. True)"
  proof (rule hoare_for_each [where I = ?I])
    fix xs r ys assume "rows = xs @ r # ys"
    then obtain cont where cont: "container r = Some cont" using nn by fastforce
    have w: "hoare (?I xs) (if state r = RUNNING then write_store te (\<lambda>_. mark_preempting (jid r) why) else ret ())
        (\<lambda>_. ?I xs) (\<lambda>_ _. True)"
      by (simp add: hoare_def write_store_def transact_def ret_def)
    have "hoare (?I xs) (stop_container te cont) (\<lambda>_. ?I (xs @ [r])) (\<lambda>_ _. True)"
    proof (rule hoareI)
      fix c x c' assume I: "?I xs c" and s: "stop_container te cont c = (Inr x, c')"
      from s have "history c' = history c @ [Stopping cont True]"
        by (cases "stop_answer te cont") (auto simp: stop_container_run note_event_def)
      then show "?I (xs @ [r]) c'" using I cont by (auto simp: or_empty_def)
    qed simp
    from hoare_bnd [OF w this] show "hoare (?I xs) (reclaim_row te why r) (\<lambda>_. ?I (xs @ [r])) (\<lambda>_ _. True)"
      by (simp add: reclaim_row_def cont)
  qed
  then show ?thesis by (rule hoare_conseq) auto
qed

end
