(* ===== verification/Daemon_Safety.thy ===== *)
theory Daemon_Safety imports Daemon_Db Daemon_Stops begin

text \<open>
  The control loop as a whole: every change of the job database is a transaction of the job
  store's machine, no two active jobs have the same GPU, spots run only where the tick found
  them lent, and every failure gives all GPUs back.
\<close>

section \<open>The whole decision\<close>

definition due :: "running_spot list \<Rightarrow> verdicts \<Rightarrow> int set" where
  "due as vs = rs_job_id ` {a \<in> set as. reclaiming a} \<union> re_job_id ` (\<Union>a \<in> set as. set (reclaim_of vs a))"

definition stopping :: "running_spot list \<Rightarrow> verdicts \<Rightarrow> string set" where
  "stopping as vs = (\<Union>a \<in> set as. pending a) \<union> re_container ` (\<Union>a \<in> set as. set (reclaim_of vs a))"

definition lent_to :: "running_spot list \<Rightarrow> verdicts \<Rightarrow> string set \<Rightarrow> bool" where
  "lent_to as vs G = (\<forall>g \<in> G. g \<notin> rs_gpu_uuid ` set as \<and> (\<exists>v. dict_get vs g = Some v \<and> lendable v))"

lemma act_phase_ok:
  assumes vs: "distinct (dict_keys vs)"
  shows "hoare (act_on cfg st0 as {} (rs_job_id ` {a \<in> set as. reclaiming a}) {}) (act_phase te cfg docker_ok as vs)
    (\<lambda>_ c. \<exists>G. lent_to as vs G \<and> act_on cfg st0 as G (due as vs) (stopping as vs) c) (\<lambda>_. okc cfg st0)"
proof -
  let ?D = "rs_job_id ` {a \<in> set as. reclaiming a}" and ?X = "\<Union>a \<in> set as. pending a" and ?E = "\<lambda>_ :: py_exc. okc cfg st0"
  let ?Rs = "\<Union>a \<in> set as. set (reclaim_of vs a)"
  have pend: "hoare (act_on cfg st0 as {} ?D {}) (for_each (pending_stop te) as) (\<lambda>_. act_on cfg st0 as {} ?D ?X) ?E"
  proof -
    let ?I = "\<lambda>xs. act_on cfg st0 as {} ?D (\<Union>a \<in> set xs. pending a)"
    have "hoare (?I []) (for_each (pending_stop te) as) (\<lambda>_. ?I as) ?E"
    proof (rule hoare_for_each [where I = ?I])
      fix xs a ys
      have "(\<Union>x \<in> set (xs @ [a]). pending x) = (\<Union>x \<in> set xs. pending x) \<union> pending a" by auto
      then show "hoare (?I xs) (pending_stop te a) (\<lambda>_. ?I (xs @ [a])) ?E"
        using pending_acts [of cfg st0 as "{}" ?D "\<Union>x \<in> set xs. pending x" te a] by simp
    qed
    then show ?thesis by simp
  qed
  have rec: "hoare (act_on cfg st0 as {} ?D ?X) (for_each (do_reclaim te) (reclaims (plan vs as queue budget enf)))
      (\<lambda>_. act_on cfg st0 as {} (due as vs) (stopping as vs)) ?E" for queue budget enf
  proof -
    let ?rs = "reclaims (plan vs as queue budget enf)"
    have rs: "?rs = concat (map (reclaim_of vs) as)" by (simp add: plan_def)
    let ?I = "\<lambda>xs :: reclaim_action list. act_on cfg st0 as {} (?D \<union> re_job_id ` set xs) (?X \<union> re_container ` set xs)"
    have "hoare (?I []) (for_each (do_reclaim te) ?rs) (\<lambda>_. ?I ?rs) ?E"
    proof (rule hoare_for_each [where I = ?I])
      fix xs r ys assume "?rs = xs @ r # ys"
      then have "r \<in> set (concat (map (reclaim_of vs) as))" using rs by simp
      then have "re_job_id r \<in> rs_job_id ` set as" by (auto simp: reclaim_of_iff reclaim_for_def split: option.splits)
      from reclaim_acts [OF this, of cfg st0 "{}" "?D \<union> re_job_id ` set xs" "?X \<union> re_container ` set xs" te]
      show "hoare (?I xs) (do_reclaim te r) (\<lambda>_. ?I (xs @ [r])) ?E" by simp
    qed
    then show ?thesis by (simp add: rs due_def stopping_def)
  qed
  have launch: "hoare (act_on cfg st0 as {} D X) (for_each (do_launch te cfg hook) (launches (plan vs as queue budget enf)))
      (\<lambda>_ c. \<exists>G. lent_to as vs G \<and> act_on cfg st0 as G D X c) ?E" for queue budget enf hook D X
  proof -
    let ?ls = "launches (plan vs as queue budget enf)"
    let ?I = "\<lambda>xs :: launch list. act_on cfg st0 as (la_gpu_uuid ` set xs) D X"
    have each: "la_gpu_uuid l \<notin> rs_gpu_uuid ` set as \<and> (\<exists>v. dict_get vs (la_gpu_uuid l) = Some v \<and> lendable v)"
      if "l \<in> set ?ls" for l using plan_launch [OF that] by blast
    have loop: "hoare (?I []) (for_each (do_launch te cfg hook) ?ls) (\<lambda>_. ?I ?ls) ?E"
    proof (rule hoare_for_each [where I = ?I])
      fix xs l ys assume ls: "?ls = xs @ l # ys"
      have "la_gpu_uuid l \<notin> la_gpu_uuid ` set xs" using plan_gpus [OF vs, of as queue budget enf] by (simp add: ls)
      moreover have "la_gpu_uuid l \<notin> rs_gpu_uuid ` set as" using each [of l] by (simp add: ls)
      ultimately show "hoare (?I xs) (do_launch te cfg hook l) (\<lambda>_. ?I (xs @ [l])) ?E"
        using launch_acts [of l "la_gpu_uuid ` set xs" as cfg st0 D X te hook] by simp
    qed
    have lent: "lent_to as vs (la_gpu_uuid ` set ?ls)" using each by (auto simp: lent_to_def)
    show ?thesis
    proof (rule hoare_conseq [OF loop])
      fix x :: unit and c assume "?I ?ls c"
      with lent show "\<exists>G. lent_to as vs G \<and> act_on cfg st0 as G D X c" by blast
    qed simp_all
  qed
  have queue: "hoare (act_on cfg st0 as {} D X) (if docker_ok then read_store te f else ret q)
      (\<lambda>_. act_on cfg st0 as {} D X) ?E" for f q D X
  proof (cases docker_ok)
    case True
    have "hoare (act_on cfg st0 as {} D X) (read_store te f) (\<lambda>_. act_on cfg st0 as {} D X) ?E"
    proof (rule hoare_read)
      fix c es assume "act_on cfg st0 as {} D X c"
      from acting_users [OF this, of es]
      show "let st = fold user_commit es (db c); c' = c\<lparr>db := st, accesses := accesses c + 1\<rparr>
        in (\<forall>x. f st = Inr x \<longrightarrow> act_on cfg st0 as {} D X c') \<and> (\<forall>e. f st = Inl e \<longrightarrow> okc cfg st0 c')"
        by (simp add: Let_def acting_def)
    qed
    with True show ?thesis by simp
  qed (simp, rule hoare_pre [OF hoare_ret])
  have lifts: "hoare (act_on cfg st0 as {} D X) (lift r) (\<lambda>_. act_on cfg st0 as {} D X) ?E" for r D X
    by (rule hoare_pre [OF hoare_lift]) (simp add: act_onD)
  show ?thesis
    unfolding act_phase_def Let_def
    by (intro hoare_bnd [OF pend] hoare_bnd [OF lifts] hoare_bnd [OF queue] hoare_bnd [OF rec] launch)
qed

section \<open>Judging\<close>

definition judgement :: "config \<Rightarrow> rat \<Rightarrow> bool \<Rightarrow> bool \<times> string set \<Rightarrow> running_spot list \<Rightarrow> gpu_observation \<Rightarrow> gpu_tracker \<Rightarrow> gpu_verdict" where
  "judgement cfg now kill ps as ob t = fst (update t ob now (idle cfg) (reclaim cfg)
     (\<exists>a \<in> set as. rs_gpu_uuid a = obs_uuid ob)
     ((\<exists>a \<in> set as. rs_gpu_uuid a = obs_uuid ob) \<and> (\<forall>a \<in> set as. rs_gpu_uuid a = obs_uuid ob \<longrightarrow> reclaiming a))
     (blocked_by kill (fst ps) (snd ps) ob))"

definition judged :: "config \<Rightarrow> rat \<Rightarrow> bool \<Rightarrow> bool \<times> string set \<Rightarrow> running_spot list \<Rightarrow> gpu_observation list \<Rightarrow> verdicts \<Rightarrow> bool" where
  "judged cfg now kill ps as obs vs = (distinct (dict_keys vs) \<and>
     (\<forall>u v. dict_get vs u = Some v \<longrightarrow> (\<exists>ob \<in> set obs. \<exists>t. obs_uuid ob = u \<and> v = judgement cfg now kill ps as ob t)))"

lemma judgedD: "judged cfg now kill ps as obs vs \<Longrightarrow> dict_get vs u = Some v \<Longrightarrow>
    \<exists>ob \<in> set obs. \<exists>t. obs_uuid ob = u \<and> v = judgement cfg now kill ps as ob t"
  unfolding judged_def by blast

lemma judge_fst: "fst (judge cfg now kill ps as ob vc) =
    dict_set (obs_uuid ob) (judgement cfg now kill ps as ob (tracker_for ob now (snd vc))) (fst vc)"
proof -
  have "filter (\<lambda>a. rs_gpu_uuid a = obs_uuid ob) as \<noteq> [] \<longleftrightarrow> (\<exists>a \<in> set as. rs_gpu_uuid a = obs_uuid ob)"
    by (auto simp: filter_empty_conv)
  moreover have "list_all reclaiming (filter (\<lambda>a. rs_gpu_uuid a = obs_uuid ob) as) \<longleftrightarrow>
      (\<forall>a \<in> set as. rs_gpu_uuid a = obs_uuid ob \<longrightarrow> reclaiming a)" by (auto simp: list_all_iff)
  ultimately show ?thesis by (simp add: judge_def judgement_def Let_def split: prod.split)
qed

lemma judge_all_judged: "judge_all cfg now kill ps as obs c = (Inr vs, c') \<Longrightarrow> judged cfg now kill ps as obs vs \<and> last_verdicts c' = vs"
proof -
  assume r: "judge_all cfg now kill ps as obs c = (Inr vs, c')"
  have "judged cfg now kill ps as obs (fst (fold (judge cfg now kill ps as) obs ([], c)))"
  proof (induction obs rule: rev_induct)
    case (snoc ob obs)
    then show ?case by (auto simp: judge_fst judged_def distinct_update update_conv')
  qed (simp add: judged_def)
  then show ?thesis using r by (auto simp: judge_all_def split: prod.splits)
qed

lemma judge_stops: "stop_issued (snd (fold (judge cfg now kill ps as) obs vc)) = stop_issued (snd vc)"
proof (induction obs arbitrary: vc)
  case (Cons ob obs)
  have "stop_issued (snd (judge cfg now kill ps as ob vc)) = stop_issued (snd vc)"
    by (simp add: judge_def Let_def note_event_def split: prod.split)
  then show ?case using Cons by simp
qed simp

lemma judge_all_stops: "stop_issued (snd (judge_all cfg now kill ps as obs c)) = stop_issued c"
  using judge_stops [of cfg now kill ps as obs "([], c)"]
  by (cases "fold (judge cfg now kill ps as) obs ([], c)") (simp add: judge_all_def)

lemma active_acting:
  assumes ok: "db_ok m st0 st"
  shows "acting m st0 (active st) {} (rs_job_id ` {a \<in> set (active st). reclaiming a}) {} st issued"
    "distinct (map rs_gpu_uuid (active st))"
proof -
  note inv = db_okD [OF ok]
  have h: "holders st = map trip (active st)" using holders_active [OF inv] by (simp add: trip_def [abs_def])
  have "jid r \<notin> running_ids st" if "r \<in> set (jobs st)" "state r \<noteq> RUNNING" for r
  proof
    assume "jid r \<in> running_ids st"
    then obtain q where q: "q \<in> set (jobs st)" "jid q = jid r" "state q = RUNNING" by (auto simp: running_ids_def)
    then have "q = r" using row_of_unique [OF store_invD(1) [OF inv]] that(1) by (metis option.inject)
    then show False using q(3) that(2) by simp
  qed
  then have "rs_job_id ` {a \<in> set (active st). reclaiming a} \<inter> running_ids st = {}"
    by (auto simp: active_def spot_of_def)
  then show "acting m st0 (active st) {} (rs_job_id ` {a \<in> set (active st). reclaiming a}) {} st issued"
    using ok by (auto simp: acting_def h)
  have "distinct (map (Some \<circ> rs_gpu_uuid) (active st))" using ok held_gpus_active [OF inv] by (simp add: db_ok_def exclusive_def)
  then show "distinct (map rs_gpu_uuid (active st))" by (simp add: distinct_map inj_on_def) 
qed

definition decided :: "config \<Rightarrow> store \<Rightarrow> rat \<Rightarrow> bool \<Rightarrow> bool \<times> string set \<Rightarrow> gpu_observation list \<Rightarrow> running_spot list \<Rightarrow> verdicts \<Rightarrow> ctl \<Rightarrow> bool" where
  "decided cfg st0 now kill ps obs as vs c = (judged cfg now kill ps as obs vs \<and> distinct (map rs_gpu_uuid as) \<and> last_verdicts c = vs)"

lemma decide_ok: "hoare (okc cfg st0) (decide_phase te cfg now kill ps obs)
    (\<lambda>(as, vs) c. decided cfg st0 now kill ps obs as vs c \<and> act_on cfg st0 as {} (rs_job_id ` {a \<in> set as. reclaiming a}) {} c)
    (\<lambda>_. okc cfg st0)"
  unfolding decide_phase_def
proof (rule hoare_bnd)
  let ?R = "\<lambda>as c. act_on cfg st0 as {} (rs_job_id ` {a \<in> set as. reclaiming a}) {} c \<and> distinct (map rs_gpu_uuid as)"
  show "hoare (okc cfg st0) (read_store te (\<lambda>st. Inr (active st))) ?R (\<lambda>_. okc cfg st0)"
  proof (rule hoare_read)
    fix c es assume "okc cfg st0 c"
    from active_acting [OF db_ok_users [OF this]] db_ok_users [OF this, of es]
    show "let st = fold user_commit es (db c); c' = c\<lparr>db := st, accesses := accesses c + 1\<rparr>
      in (\<forall>x. Inr (active st) = Inr x \<longrightarrow> ?R x c') \<and> (\<forall>e. Inr (active st) = Inl e \<longrightarrow> okc cfg st0 c')"
      by (simp add: Let_def)
  qed
  fix as
  have "hoare (?R as) (judge_all cfg now kill ps as obs)
     (\<lambda>vs c. decided cfg st0 now kill ps obs as vs c \<and> act_on cfg st0 as {} (rs_job_id ` {a \<in> set as. reclaiming a}) {} c) (\<lambda>_. okc cfg st0)"
  proof (rule hoareI)
    fix c vs c' assume R: "?R as c" and r: "judge_all cfg now kill ps as obs c = (Inr vs, c')"
    have "db c' = db c" using judge_all_db r by (metis same_db_def snd_conv)
    moreover have "stop_issued c' = stop_issued c" using judge_all_stops [of cfg now kill ps as obs c] r by simp
    ultimately show "decided cfg st0 now kill ps obs as vs c' \<and> act_on cfg st0 as {} (rs_job_id ` {a \<in> set as. reclaiming a}) {} c'"
      using R judge_all_judged [OF r] by (simp add: decided_def)
  next
    fix c e c' assume "judge_all cfg now kill ps as obs c = (Inl e, c')"
    then show "okc cfg st0 c'" by (simp add: judge_all_def split: prod.splits)
  qed
  then show "hoare (?R as) (bnd (judge_all cfg now kill ps as obs) (\<lambda>vs. ret (as, vs)))
     (\<lambda>(as, vs) c. decided cfg st0 now kill ps obs as vs c \<and> act_on cfg st0 as {} (rs_job_id ` {a \<in> set as. reclaiming a}) {} c)
     (\<lambda>_. okc cfg st0)"
    by (rule hoare_bnd) (rule hoare_pre [OF hoare_ret], simp)
qed

section \<open>A whole tick\<close>

definition docker_down :: "tick_env \<Rightarrow> bool" where
  "docker_down te = (case owners_answer te of Inl e \<Rightarrow> is_docker_error e
     | Inr _ \<Rightarrow> (case spots_answer te of Inl e \<Rightarrow> is_docker_error e | Inr _ \<Rightarrow> False))"

definition nvml_down :: "tick_env \<Rightarrow> bool" where
  "nvml_down te = (case gpus_answer te of Inl e \<Rightarrow> is_nvml_error e | Inr _ \<Rightarrow> False)"

lemma docker_state_ok: "docker_state te c = (Inr (ok, os, ss), c') \<Longrightarrow> ok = (\<not> docker_down te)"
  by (auto simp: docker_state_def docker_down_def catch_def bnd_def lift_def ret_def split: sum.splits if_splits)

lemma all_failed_not_ok: "ob \<in> set (all_failed e gs) \<Longrightarrow> \<not> obs_ok ob"
  by (auto simp: all_failed_def failed_observation_def)

lemma observe_blind:
  "observe_all te now os ss ok c = (Inr obs, c') \<Longrightarrow> nvml_down te \<or> \<not> ok \<Longrightarrow> \<forall>ob \<in> set obs. \<not> obs_ok ob"
  by (auto simp: observe_all_def nvml_down_def gets_def lift_def bnd_def modify_def ret_def
      split: sum.splits if_splits dest: all_failed_not_ok)

text \<open>What a tick that returns leaves behind: the spots and verdicts it decided on, and the state
  after carrying the decision out.\<close>

definition after_tick :: "tick_env \<Rightarrow> config \<Rightarrow> rat \<Rightarrow> store \<Rightarrow> ctl \<Rightarrow> bool" where
  "after_tick te cfg now st0 c = (\<exists>as ps obs kill G.
     kill_file te = Inr kill \<and> (docker_down te \<or> nvml_down te \<longrightarrow> (\<forall>ob \<in> set obs. \<not> obs_ok ob)) \<and>
     decided cfg st0 now kill ps obs as (last_verdicts c) c \<and> lent_to as (last_verdicts c) G \<and>
     act_on cfg st0 as G (due as (last_verdicts c)) (stopping as (last_verdicts c)) c)"

lemma keeps_transact: "(\<And>c st n. I c \<Longrightarrow> I (c\<lparr>db := st, accesses := n\<rparr>)) \<Longrightarrow> keeps I (transact te f)"
  by (rule keepsI) (simp add: transact_def split: prod.split)

lemma act_phase_verdicts: "keeps (\<lambda>c. last_verdicts c = vs') (act_phase te cfg docker_ok as vs)"
  unfolding act_phase_def pending_stop_def stop_container_def call_stop_def do_reclaim_def do_launch_def start_job_def start_container_def
    Let_def read_store_def write_store_def
  by (intro step_intros keeps_modify keeps_transact) (simp_all add: note_event_def)

lemma tick_ok: "hoare (okc cfg st0) (tick te cfg now) (\<lambda>_. after_tick te cfg now st0) (\<lambda>_. okc cfg st0)"
proof -
  let ?E = "\<lambda>_ :: py_exc. okc cfg st0"
  have rd: "hoare (okc cfg st0) (read_store te f) (\<lambda>_. okc cfg st0) ?E" for f :: "store \<Rightarrow> 'a result"
    by (rule hoare_read) (simp add: Let_def db_ok_users)
  have kill: "hoare (okc cfg st0) (lift (kill_file te)) (\<lambda>k c. okc cfg st0 c \<and> kill_file te = Inr k) ?E"
    by (rule hoare_pre [OF hoare_lift]) simp
  have dock: "hoare (\<lambda>c. okc cfg st0 c \<and> kill_file te = Inr k) (docker_state te)
      (\<lambda>x c. okc cfg st0 c \<and> kill_file te = Inr k \<and> fst x = (\<not> docker_down te)) ?E" for k
  proof (rule hoareI)
    fix c x c' assume "okc cfg st0 c \<and> kill_file te = Inr k" "docker_state te c = (Inr x, c')"
    then show "okc cfg st0 c' \<and> kill_file te = Inr k \<and> fst x = (\<not> docker_down te)"
      using docker_state_ok [of te c "fst x" "fst (snd x)" "snd (snd x)" c'] docker_state_db
      by (simp add: same_db_def) (metis snd_conv)
  next
    fix c e c' assume "okc cfg st0 c \<and> kill_file te = Inr k" "docker_state te c = (Inl e, c')"
    then show "okc cfg st0 c'" using docker_state_db by (metis same_db_def snd_conv)
  qed
  have obs: "hoare (\<lambda>c. okc cfg st0 c \<and> kill_file te = Inr k \<and> ok = (\<not> docker_down te)) (observe_all te now os ss ok)
      (\<lambda>obs c. okc cfg st0 c \<and> kill_file te = Inr k \<and> (docker_down te \<or> nvml_down te \<longrightarrow> (\<forall>ob \<in> set obs. \<not> obs_ok ob))) ?E" for k ok os ss
  proof (rule hoareI)
    fix c obs c' assume "okc cfg st0 c \<and> kill_file te = Inr k \<and> ok = (\<not> docker_down te)" "observe_all te now os ss ok c = (Inr obs, c')"
    then show "okc cfg st0 c' \<and> kill_file te = Inr k \<and> (docker_down te \<or> nvml_down te \<longrightarrow> (\<forall>ob \<in> set obs. \<not> obs_ok ob))"
      using observe_blind [of te now os ss ok c obs c'] observe_db [of te now os ss ok] by (metis same_db_def snd_conv)
  next
    fix c e c' assume "okc cfg st0 c \<and> kill_file te = Inr k \<and> ok = (\<not> docker_down te)" "observe_all te now os ss ok c = (Inl e, c')"
    then show "okc cfg st0 c'" using observe_db by (metis same_db_def snd_conv)
  qed
  let ?F = "\<lambda>k obs. kill_file te = Inr k \<and> (docker_down te \<or> nvml_down te \<longrightarrow> (\<forall>ob \<in> set obs. \<not> obs_ok ob))"
  have recon: "hoare (\<lambda>c. okc cfg st0 c \<and> ?F k obs) (if ok then reconcile te cfg ss else ret ()) (\<lambda>_ c. ?F k obs \<and> okc cfg st0 c) ?E"
    for k obs ok ss
  proof (cases ok)
    case True
    then show ?thesis using reconcile_ok [of cfg st0 te ss]
      by (auto simp: keeps_def intro: hoare_conseq [where f = "reconcile te cfg ss"] hoareI dest: hoareD)
  qed (simp, rule hoare_pre [OF hoare_ret], simp)
  have act: "hoare (\<lambda>c. ?F k obs \<and> decided cfg st0 now k ps obs as vs c \<and>
        act_on cfg st0 as {} (rs_job_id ` {a \<in> set as. reclaiming a}) {} c)
      (act_phase te cfg ok as vs) (\<lambda>_. after_tick te cfg now st0) ?E" for k ps obs as vs ok
  proof (rule hoareI)
    fix c x c'
    assume a: "?F k obs \<and> decided cfg st0 now k ps obs as vs c \<and> act_on cfg st0 as {} (rs_job_id ` {a \<in> set as. reclaiming a}) {} c"
      and r: "act_phase te cfg ok as vs c = (Inr x, c')"
    have v: "last_verdicts c' = vs" using keepsD [OF act_phase_verdicts, of c vs te cfg ok as vs] a r by (simp add: decided_def)
    from a have "distinct (dict_keys vs)" by (simp add: decided_def judged_def)
    from hoareD(1) [OF act_phase_ok [OF this] _ r] a obtain G where
      "lent_to as vs G" "act_on cfg st0 as G (due as vs) (stopping as vs) c'" by blast
    then show "after_tick te cfg now st0 c'"
      using a v unfolding after_tick_def by (intro exI conjI) (auto simp: decided_def)
  next
    fix c e c'
    assume a: "?F k obs \<and> decided cfg st0 now k ps obs as vs c \<and> act_on cfg st0 as {} (rs_job_id ` {a \<in> set as. reclaiming a}) {} c"
      and r: "act_phase te cfg ok as vs c = (Inl e, c')"
    from a have "distinct (dict_keys vs)" by (simp add: decided_def judged_def)
    from hoareD(2) [OF act_phase_ok [OF this] _ r] a show "okc cfg st0 c'" by blast
  qed
  have dec: "hoare (\<lambda>c. ?F k obs \<and> okc cfg st0 c) (decide_phase te cfg now k ps obs)
      (\<lambda>x c. ?F k obs \<and> decided cfg st0 now k ps obs (fst x) (snd x) c \<and>
        act_on cfg st0 (fst x) {} (rs_job_id ` {a \<in> set (fst x). reclaiming a}) {} c) ?E" for k ps obs
  proof (rule hoare_assume)
    assume F: "?F k obs"
    show "hoare (okc cfg st0) (decide_phase te cfg now k ps obs)
      (\<lambda>x c. ?F k obs \<and> decided cfg st0 now k ps obs (fst x) (snd x) c \<and>
        act_on cfg st0 (fst x) {} (rs_job_id ` {a \<in> set (fst x). reclaiming a}) {} c) ?E"
      by (rule hoare_conseq [OF decide_ok]) (use F in auto)
  qed
  show ?thesis
    unfolding tick_def
    apply (rule hoare_bnd [OF rd])
    apply (rule hoare_bnd [OF kill])
    apply (rule hoare_bnd [OF dock])
    apply (simp only: split_beta)
    apply (rule hoare_bnd [OF obs])
    apply (rule hoare_bnd [OF recon])
    apply (rule hoare_bnd [OF dec])
    apply (simp only: split_beta)
    apply (rule act)
    done
qed

section \<open>The loop\<close>

lemma reclaim_row_acts:
  assumes "r \<in> set rows" "spot_of ` set rows = set as" "\<forall>r \<in> set rows. container r \<noteq> None"
    "rs_job_id ` {a \<in> set as. reclaiming a} \<subseteq> D"
  shows "hoare (act_on cfg st0 as {} D X) (reclaim_row te why r)
    (\<lambda>_. act_on cfg st0 as {} (insert (jid r) D) (insert (or_empty (container r)) X)) (\<lambda>_. okc cfg st0)"
proof -
  from assms(1,3) obtain cont where c: "container r = Some cont" by blast
  have as: "spot_of r \<in> set as" using assms(1,2) by blast
  have i: "jid r \<in> rs_job_id ` set as" using as by (force simp: spot_of_def)
  have first: "hoare (act_on cfg st0 as {} D X)
      (if state r = RUNNING then write_store te (\<lambda>_. mark_preempting (jid r) why) else ret ())
      (\<lambda>_. act_on cfg st0 as {} (insert (jid r) D) X) (\<lambda>_. okc cfg st0)"
  proof (cases "state r = RUNNING")
    case True
    have "hoare (act_on cfg st0 as {} D X) (write_store te (\<lambda>_. mark_preempting (jid r) why))
      (\<lambda>_. act_on cfg st0 as {} (insert (jid r) D) X) (\<lambda>_. okc cfg st0)"
      by (rule hoare_write) (simp add: acting_preempting acting_users i)
    with True show ?thesis by simp
  next
    case False
    then have "jid r \<in> D" using as assms(4) by (force simp: spot_of_def)
    then have "insert (jid r) D = D" by blast
    then show ?thesis using False by simp (rule hoare_pre [OF hoare_ret])
  qed
  show ?thesis
    unfolding reclaim_row_def c option.case or_empty_def by (rule hoare_bnd [OF first stop_acts])
qed

text \<open>When \<open>reclaim_all\<close> returns, nothing runs any more and \<open>docker stop\<close> has been started since for
  every container.\<close>

definition all_stopped :: "daemon_event list \<Rightarrow> ctl \<Rightarrow> bool" where
  "all_stopped h c = (running_ids (db c) = {} \<and>
     (\<forall>(i, g, ct) \<in> set (holders (db c)). ct \<noteq> None \<and> Stopping (the ct) True \<in> set (drop (length h) (history c))))"

lemma reclaim_all_ok: "hoare (\<lambda>c. okc cfg st0 c \<and> history c = h) (reclaim_all te why) (\<lambda>_ c. okc cfg st0 c \<and> all_stopped h c) (\<lambda>_. okc cfg st0)"
  unfolding reclaim_all_def
proof (rule hoare_bnd)
  let ?as = "map spot_of" and ?D = "\<lambda>as. rs_job_id ` {a \<in> set as. reclaiming a}"
  let ?R = "\<lambda>rows c. (act_on cfg st0 (?as rows) {} (?D (?as rows)) {} c \<and> history c = h) \<and> (\<forall>r \<in> set rows. container r \<noteq> None)"
  show "hoare (\<lambda>c. okc cfg st0 c \<and> history c = h) (read_store te (\<lambda>st. Inr (filter is_active (jobs st)))) ?R (\<lambda>_. okc cfg st0)"
  proof (rule hoare_read)
    fix c es assume c: "okc cfg st0 c \<and> history c = h"
    then have ok: "db_ok (max_attempts (spot cfg)) st0 (fold user_commit es (db c))" using db_ok_users by blast
    have "\<forall>r \<in> set (filter is_active (jobs (fold user_commit es (db c)))). container r \<noteq> None"
      using store_invD(2) [OF db_okD [OF ok]] by (auto simp: row_inv_def)
    then show "let st = fold user_commit es (db c); c' = c\<lparr>db := st, accesses := accesses c + 1\<rparr>
      in (\<forall>x. Inr (filter is_active (jobs st)) = Inr x \<longrightarrow> ?R x c') \<and>
         (\<forall>e. Inr (filter is_active (jobs st)) = Inl e \<longrightarrow> okc cfg st0 c')"
      using active_acting(1) [OF ok] c by (simp add: Let_def active_def)
  qed
  fix rows
  show "hoare (?R rows) (for_each (reclaim_row te why) rows) (\<lambda>_ c. okc cfg st0 c \<and> all_stopped h c) (\<lambda>_. okc cfg st0)"
  proof (rule hoare_pre [OF hoare_assume, where A1 = "\<forall>r \<in> set rows. container r \<noteq> None"
        and P1 = "\<lambda>c. act_on cfg st0 (?as rows) {} (?D (?as rows)) {} c \<and> history c = h"])
    assume nn: "\<forall>r \<in> set rows. container r \<noteq> None"
    let ?I = "\<lambda>rs :: job_row list. act_on cfg st0 (?as rows) {} (?D (?as rows) \<union> jid ` set rs) ((or_empty \<circ> container) ` set rs)"
    have loop: "hoare (?I []) (for_each (reclaim_row te why) rows) (\<lambda>_. ?I rows) (\<lambda>_. okc cfg st0)"
    proof (rule hoare_for_each [where I = ?I])
      fix xs r ys assume rows: "rows = xs @ r # ys"
      then have mem: "r \<in> set rows" by simp
      have eq: "insert (jid r) (?D (?as rows) \<union> jid ` set xs) = ?D (?as rows) \<union> jid ` set (xs @ [r])"
        "insert (or_empty (container r)) ((or_empty \<circ> container) ` set xs) = (or_empty \<circ> container) ` set (xs @ [r])" by auto
      have "hoare (?I xs) (reclaim_row te why r) (\<lambda>_. act_on cfg st0 (?as rows) {} (insert (jid r) (?D (?as rows) \<union> jid ` set xs))
          (insert (or_empty (container r)) ((or_empty \<circ> container) ` set xs))) (\<lambda>_. okc cfg st0)"
        by (rule reclaim_row_acts [OF mem _ nn]) (simp, rule Un_upper1)
      then show "hoare (?I xs) (reclaim_row te why r) (\<lambda>_. ?I (xs @ [r])) (\<lambda>_. okc cfg st0)" unfolding eq .
    qed
    show "hoare (\<lambda>c. act_on cfg st0 (?as rows) {} (?D (?as rows)) {} c \<and> history c = h) (for_each (reclaim_row te why) rows)
        (\<lambda>_ c. okc cfg st0 c \<and> all_stopped h c) (\<lambda>_. okc cfg st0)"
    proof (rule hoare_conseq [OF hoare_conj [OF loop reclaim_rows_stop [OF nn, of h te why]]])
      fix x :: unit and c
      assume IS: "?I rows c \<and> (\<forall>r \<in> set rows. Stopping (or_empty (container r)) True \<in> set (drop (length h) (history c)))"
      then have I: "?I rows c" ..
      note ok = act_onD [OF I]
      note parts = I [unfolded acting_def]
      have h: "set (holders (db c)) \<subseteq> trip ` spot_of ` set rows"
        using parts [THEN conjunct2, THEN conjunct2, THEN conjunct1] by (simp add: subset_iff)
      have D: "jid ` set rows \<inter> running_ids (db c) = {}" using parts by blast
      have each: "\<exists>r \<in> set rows. x = (jid r, Some (or_empty (gpu_uuid r)), Some (or_empty (container r)))"
        if x: "x \<in> set (holders (db c))" for x
      proof -
        from subsetD [OF h x] obtain r where "r \<in> set rows" "x = trip (spot_of r)" by blast
        then show ?thesis by (intro bexI [of _ r]) (simp_all add: trip_def spot_of_def)
      qed
      have "fst x \<in> jid ` set rows" if "x \<in> set (holders (db c))" for x using each [OF that] by auto
      then have "fst ` set (holders (db c)) \<subseteq> jid ` set rows" by (rule image_subsetI)
      from subset_trans [OF running_active [OF db_okD [OF ok]] this] D have "running_ids (db c) = {}"
        by (simp add: Int_absorb1)
      moreover have "ct \<noteq> None \<and> Stopping (the ct) True \<in> set (drop (length h) (history c))"
        if x: "(i, g, ct) \<in> set (holders (db c))" for i g ct
      proof -
        from each [OF x] obtain r where "r \<in> set rows" "ct = Some (or_empty (container r))" by blast
        with IS show ?thesis by simp
      qed
      ultimately show "okc cfg st0 c \<and> all_stopped h c" using ok by (auto simp: all_stopped_def)
    qed simp_all
  qed simp
qed

lemma round_body_ok: "hoare (okc cfg st0) (round_body cfg rd) (\<lambda>_. okc cfg st0) (\<lambda>_. okc cfg st0)"
  unfolding round_body_def
proof (rule hoare_bnd)
  show "hoare (okc cfg st0) (tick (round_env rd) cfg (round_time rd)) (\<lambda>_. okc cfg st0) (\<lambda>_. okc cfg st0)"
    by (rule hoare_conseq [OF tick_ok]) (auto simp: after_tick_def acting_def)
  show "hoare (okc cfg st0) (lift (status_written rd)) (\<lambda>_. okc cfg st0) (\<lambda>_. okc cfg st0)" for x :: unit
    by (rule hoare_pre [OF hoare_lift]) simp
qed

lemma reclaim_all_keeps_ok: "keeps (okc cfg st0) (reclaim_all te why)"
  unfolding keeps_def
proof (rule hoareI)
  fix c x c' assume "okc cfg st0 c" "reclaim_all te why c = (Inr x, c')"
  then show "okc cfg st0 c'" using hoareD(1) [OF reclaim_all_ok [of cfg st0 "history c"]] by blast
next
  fix c e c' assume "okc cfg st0 c" "reclaim_all te why c = (Inl e, c')"
  then show "okc cfg st0 c'" using hoareD(2) [OF reclaim_all_ok [of cfg st0 "history c"]] by blast
qed

lemma loop_step_ok: "keeps (okc cfg st0) (loop_step cfg rd)"
  unfolding loop_step_def using round_body_ok [of cfg st0 rd] reclaim_all_keeps_ok
  by (intro step_intros) (simp_all add: keeps_def)

interpretation loop: invariant_machine "\<lambda>c. okc cfg st0 c" "\<lambda>rd c. snd (loop_step cfg rd c)" "okc cfg st0" for cfg st0
  by unfold_locales (auto intro: keepsD [OF loop_step_ok])

lemma run_loop_ok: "okc cfg st0 c \<Longrightarrow> okc cfg st0 (run_loop cfg rds c)"
  unfolding run_loop_def by (rule loop.inv_run)

lemma run_forever_ok: "okc cfg st0 c \<Longrightarrow> okc cfg st0 (snd (run_forever cfg rds te c))"
  unfolding run_forever_def by (rule keepsD [OF reclaim_all_keeps_ok]) (rule run_loop_ok)

lemma new_ok: "store_inv (max_attempts (spot cfg)) st \<Longrightarrow> distinct (map rs_gpu_uuid (active st)) \<Longrightarrow>
    db_ok (max_attempts (spot cfg)) st st"
proof -
  assume inv: "store_inv (max_attempts (spot cfg)) st" and d: "distinct (map rs_gpu_uuid (active st))"
  have "distinct (map (Some \<circ> rs_gpu_uuid) (active st))" using d by (simp add: distinct_map inj_on_def)
  with inv show ?thesis by (auto simp: db_ok_def exclusive_def held_gpus_active)
qed

section \<open>Properties\<close>

text \<open>C1: the controller never lends a GPU twice, and never leaves the job machine. Start it on
  any database that satisfies the store's invariant and in which the active jobs hold
  different GPUs. Then, after any rounds of the loop, whatever Docker, NVML and the files
  answer, whichever exceptions are raised, and whatever other processes submit, cancel and
  pause between any two of its transactions, the active jobs hold different GPUs, the
  invariant holds, and the database is one that the transactions of the job store lead to.\<close>

theorem exclusive_lending:
  assumes "store_inv (max_attempts (spot cfg)) st" "distinct (map rs_gpu_uuid (active st))"
    and "c = run_loop cfg rds (new_controller st)"
  shows "distinct (map rs_gpu_uuid (active (db c))) \<and> store_inv (max_attempts (spot cfg)) (db c) \<and>
    (\<exists>es. db c = fold (store_step (max_attempts (spot cfg))) es st)"
proof -
  have "okc cfg st (new_controller st)" using new_ok [OF assms(1,2)] by (simp add: new_controller_def)
  from run_loop_ok [OF this] have ok: "okc cfg st c" unfolding assms(3) .
  have "distinct (map (Some \<circ> rs_gpu_uuid) (active (db c)))"
    using ok held_gpus_active [OF db_okD [OF ok]] by (simp add: db_ok_def exclusive_def)
  then have "distinct (map rs_gpu_uuid (active (db c)))" by (simp add: distinct_map inj_on_def)
  with ok show ?thesis by (simp add: db_ok_def reach_def)
qed

text \<open>The owners of a spot that must go, in terms of the decision.\<close>

lemma due_or_lent:
  assumes j: "judged cfg now kill ps as obs vs" and d: "distinct (map rs_gpu_uuid as)" and a: "a \<in> set as"
    and bad: "\<And>v. dict_get vs (rs_gpu_uuid a) = Some v \<Longrightarrow> v_state v \<noteq> LENT"
  shows "rs_job_id a \<in> due as vs \<and> (rs_container a \<noteq> [] \<longrightarrow> rs_container a \<in> stopping as vs)"
proof (cases "reclaiming a")
  case True
  have "rs_container a \<in> pending a" if "rs_container a \<noteq> []" using that True by (simp add: pending_def)
  with True a show ?thesis unfolding due_def stopping_def by blast
next
  case False
  have only: "b = a" if "b \<in> set as" "rs_gpu_uuid b = rs_gpu_uuid a" for b
    using d a that by (auto simp: distinct_map dest: inj_onD)
  have "\<exists>r \<in> set (reclaim_of vs a). re_job_id r = rs_job_id a \<and> re_container r = rs_container a"
  proof (cases "dict_get vs (rs_gpu_uuid a)")
    case None
    then show ?thesis using False by (simp add: reclaim_of_def reclaim_for_def)
  next
    case (Some v)
    then obtain ob t where v: "obs_uuid ob = rs_gpu_uuid a" "v = judgement cfg now kill ps as ob t"
      using judgedD [OF j Some] by blast
    have lent: "(\<exists>b \<in> set as. rs_gpu_uuid b = obs_uuid ob) = True" using a v(1) by auto
    have "must_reclaim v"
      using update_lent_state [of t ob now "idle cfg" "reclaim cfg" "\<forall>b \<in> set as. rs_gpu_uuid b = obs_uuid ob \<longrightarrow> reclaiming b"
        "blocked_by kill (fst ps) (snd ps) ob"] bad [OF Some] False a v
      unfolding v(2) judgement_def lent by auto
    then show ?thesis using Some False by (simp add: reclaim_of_def reclaim_for_def)
  qed
  then show ?thesis using a unfolding due_def stopping_def by (metis (no_types, lifting) UN_I UnI2 image_eqI)
qed

lemma blind_not_lent:
  assumes j: "judged cfg now kill ps as obs vs" and v: "dict_get vs u = Some v"
    and b: "kill \<or> (\<forall>ob \<in> set obs. \<not> obs_ok ob)"
  shows "v_state v \<notin> {LENT, LENDABLE}"
proof -
  from judgedD [OF j v] obtain ob t where "ob \<in> set obs" "v = judgement cfg now kill ps as ob t" by blast
  then show ?thesis
    using b update_blocked_state [of ob "blocked_by kill (fst ps) (snd ps) ob" "''kill switch present''"]
    unfolding judgement_def by (auto simp: blocked_by_def)
qed

lemma not_running_reclaiming: "store_inv m st \<Longrightarrow> a \<in> set (active st) \<Longrightarrow> rs_job_id a \<notin> running_ids st \<longleftrightarrow> reclaiming a"
proof -
  assume inv: "store_inv m st" and "a \<in> set (active st)"
  then obtain r where r: "r \<in> set (jobs st)" "a = spot_of r" by (auto simp: active_def)
  have "q = r" if "q \<in> set (jobs st)" "jid q = jid r" for q
    using that row_of_unique [OF store_invD(1) [OF inv]] r(1) by (metis option.inject)
  then have "rs_job_id a \<in> running_ids st \<longleftrightarrow> state r = RUNNING"
    using r unfolding running_ids_def by (auto simp: spot_of_def)
  then show ?thesis by (simp add: r(2) spot_of_def)
qed

lemma same_db_run: "same_db f \<Longrightarrow> f c = (r, c') \<Longrightarrow> db c' = db c"
  unfolding same_db_def by (metis snd_conv)

text \<open>What is active after a tick is on a GPU found lent or lendable, or on its way out.\<close>

lemma lent_or_stopped:
  assumes t: "after_tick te cfg now st0 c" and a: "a \<in> set (active (db c))"
  shows "(\<exists>v. dict_get (last_verdicts c) (rs_gpu_uuid a) = Some v \<and> v_state v \<in> {LENT, LENDABLE}) \<or>
    reclaiming a \<and> (rs_container a \<noteq> [] \<longrightarrow> rs_container a \<in> stop_issued c)"
proof -
  let ?vs = "last_verdicts c"
  from t obtain as ps obs kill G where
    dec: "judged cfg now kill ps as obs ?vs" "distinct (map rs_gpu_uuid as)" and lent: "lent_to as ?vs G"
    and act: "act_on cfg st0 as G (due as ?vs) (stopping as ?vs) c"
    unfolding after_tick_def decided_def by blast
  note inv = db_okD [OF act_onD [OF act]]
  have "trip a \<in> set (holders (db c))" using a holders_active [OF inv] by (simp add: trip_def)
  then consider b where "b \<in> set as" "trip a = trip b" | "rs_gpu_uuid a \<in> G"
    using act unfolding acting_def trip_def by fastforce
  then have "(\<exists>v. dict_get ?vs (rs_gpu_uuid a) = Some v \<and> v_state v \<in> {LENT, LENDABLE}) \<or>
      rs_job_id a \<in> due as ?vs \<and> (rs_container a \<noteq> [] \<longrightarrow> rs_container a \<in> stopping as ?vs)"
  proof cases
    case 1
    then have b: "b \<in> set as" "rs_job_id a = rs_job_id b" "rs_gpu_uuid a = rs_gpu_uuid b" "rs_container a = rs_container b"
      by (simp_all add: trip_def)
    show ?thesis using due_or_lent [OF dec b(1)] unfolding b(2,3,4) by blast
  next
    case 2
    then obtain v where v: "dict_get ?vs (rs_gpu_uuid a) = Some v" "lendable v" using lent by (auto simp: lent_to_def)
    then obtain ob t where "v = judgement cfg now kill ps as ob t" using judgedD [OF dec(1) v(1)] by blast
    then have "v_state v = LENDABLE" using v(2) unfolding judgement_def by (simp add: update_lendable_state)
    with v(1) show ?thesis by blast
  qed
  moreover have "rs_job_id a \<in> due as ?vs \<Longrightarrow> reclaiming a"
    using act not_running_reclaiming [OF inv a] unfolding acting_def by blast
  moreover have "stopping as ?vs \<subseteq> stop_issued c" using act by (simp add: acting_def)
  ultimately show ?thesis by blast
qed

text \<open>The phases of a tick that returns, when Docker answers.\<close>

lemma tick_phases:
  assumes ok: "okc cfg st0 c" and t: "tick te cfg now c = (Inr (), c')"
    and docker: "owners_answer te = Inr os" "spots_answer te = Inr ss"
  obtains ps kill obs as c1 c2 c3 c4 where
    "read_store te (\<lambda>st. Inr (paused st)) c = (Inr ps, c1)"
    "observe_all te now os ss True c1 = (Inr obs, c2)"
    "reconcile te cfg ss c2 = (Inr (), c3)"
    "decide_phase te cfg now kill ps obs c3 = (Inr (as, last_verdicts c'), c4)"
    "act_phase te cfg True as (last_verdicts c') c4 = (Inr (), c')"
    "decided cfg st0 now kill ps obs as (last_verdicts c') c4"
    "act_on cfg st0 as {} (rs_job_id ` {a \<in> set as. reclaiming a}) {} c4"
    "kill_file te = Inr kill"
proof -
  have ds: "docker_state te x = (Inr (True, os, ss), x)" for x
    by (simp add: docker_state_def catch_def bnd_def lift_def ret_def docker)
  from t [unfolded tick_def] obtain ps c1 kill obs c2 c3 as vs c4 where
    c1: "read_store te (\<lambda>st. Inr (paused st)) c = (Inr ps, c1)"
    and c2: "observe_all te now os ss True c1 = (Inr obs, c2)"
    and c3: "reconcile te cfg ss c2 = (Inr (), c3)"
    and c4: "decide_phase te cfg now kill ps obs c3 = (Inr (as, vs), c4)"
    and act: "act_phase te cfg True as vs c4 = (Inr (), c')" and kill: "kill_file te = Inr kill"
    by (auto simp: bnd_Inr lift_Inr ds)
  have "hoare (okc cfg st0) (read_store te (\<lambda>st. Inr (paused st))) (\<lambda>_. okc cfg st0) (\<lambda>_. okc cfg st0)"
    by (rule hoare_read) (simp add: Let_def db_ok_users)
  from hoareD(1) [OF this ok c1] have "okc cfg st0 c2" using same_db_run [OF observe_db c2] by simp
  with reconcile_ok [of cfg st0 te ss, unfolded keeps_def] c3 have "okc cfg st0 c3" by (blast dest: hoareD(1))
  from hoareD(1) [OF decide_ok this c4] have
    dec: "decided cfg st0 now kill ps obs as vs c4"
    and on: "act_on cfg st0 as {} (rs_job_id ` {a \<in> set as. reclaiming a}) {} c4" by simp_all
  have "last_verdicts c' = vs"
    using keepsD [OF act_phase_verdicts, of c4 vs te cfg True as vs] act dec by (simp add: decided_def)
  with c1 c2 c3 c4 act dec on kill show thesis using that by blast
qed

lemma controller_ok: "store_inv (max_attempts (spot cfg)) st \<Longrightarrow> distinct (map rs_gpu_uuid (active st)) \<Longrightarrow>
    okc cfg st (run_loop cfg rds (new_controller st))"
  using new_ok by (intro run_loop_ok) (simp add: new_controller_def)

text \<open>C4: after a tick that returns, spots run only on GPUs that the tick found lent or lendable.
  Every other active job, on a GPU that has vanished, that its owners use, that could not be
  observed, or whose lending is blocked, no longer counts as running, and \<open>docker stop\<close> was
  started for its container: in this tick, or, where an earlier round had called it already,
  in an earlier one, unless that earlier call could not be started (see C35). With the kill
  switch present, or with Docker or NVML unavailable, this holds of every active job.\<close>

theorem spots_run_only_where_lent:
  assumes "store_inv (max_attempts (spot cfg)) st" "distinct (map rs_gpu_uuid (active st))"
    and "c = run_loop cfg rds (new_controller st)"
    and "tick te cfg now c = (Inr (), c')" "a \<in> set (active (db c'))"
  shows "((\<exists>v. dict_get (last_verdicts c') (rs_gpu_uuid a) = Some v \<and> v_state v \<in> {LENT, LENDABLE}) \<or>
      reclaiming a \<and> (rs_container a \<noteq> [] \<longrightarrow> stop_given c c' (rs_container a))) \<and>
    (kill_file te = Inr True \<or> docker_down te \<or> nvml_down te \<longrightarrow>
      reclaiming a \<and> (rs_container a \<noteq> [] \<longrightarrow> stop_given c c' (rs_container a)))"
proof -
  have "okc cfg st c" unfolding assms(3) by (rule controller_ok [OF assms(1,2)])
  note after = hoareD(1) [OF tick_ok this assms(4)]
  from after obtain as ps obs kill where
    k: "kill_file te = Inr kill" and blind: "docker_down te \<or> nvml_down te \<longrightarrow> (\<forall>ob \<in> set obs. \<not> obs_ok ob)"
    and dec: "judged cfg now kill ps as obs (last_verdicts c')"
    unfolding after_tick_def decided_def by blast
  have "v_state v \<notin> {LENT, LENDABLE}"
    if "kill_file te = Inr True \<or> docker_down te \<or> nvml_down te" "dict_get (last_verdicts c') (rs_gpu_uuid a) = Some v" for v
    using blind_not_lent [OF dec that(2)] that(1) k blind by auto
  moreover have "stop_given c c' s" if "s \<in> stop_issued c'" for s
    using tick_gives [OF assms(4) _ that] run_called unfolding assms(3) by blast
  ultimately show ?thesis using lent_or_stopped [OF after assms(5)] by blast
qed

text \<open>When every stop can be started, \<open>reclaim_all\<close> cannot fail.\<close>

lemma reclaim_all_total:
  assumes "\<And>s. is_ok (stop_answer te s)"
  shows "\<exists>c'. reclaim_all te why c = (Inr (), c')"
proof -
  have stop: "hoare (\<lambda>_. True) (stop_container te cont) (\<lambda>_ _. True) (\<lambda>_ _. False)" for cont
    using assms [of cont] by (auto simp: hoare_def stop_container_run elim: is_okE)
  have row: "hoare (\<lambda>_. True) (reclaim_row te why r) (\<lambda>_ _. True) (\<lambda>_ _. False)" for r
  proof (cases "container r")
    case (Some cont)
    have "hoare (\<lambda>_. True) (if state r = RUNNING then write_store te (\<lambda>_. mark_preempting (jid r) why) else ret ())
        (\<lambda>_ _. True) (\<lambda>_ _. False)"
      by (simp add: hoare_def write_store_def transact_def ret_def)
    then show ?thesis unfolding reclaim_row_def Some option.case by (rule hoare_bnd [OF _ stop])
  qed (simp add: reclaim_row_def hoare_def ret_def)
  have "hoare (\<lambda>_. True) (reclaim_all te why) (\<lambda>_ _. True) (\<lambda>_ _. False)"
    unfolding reclaim_all_def
  proof (rule hoare_bnd)
    show "hoare (\<lambda>_. True) (read_store te (\<lambda>st. Inr (filter is_active (jobs st)))) (\<lambda>_ _. True) (\<lambda>_ _. False)"
      by (simp add: hoare_def read_store_def transact_def)
    show "hoare (\<lambda>_. True) (for_each (reclaim_row te why) rows) (\<lambda>_ _. True) (\<lambda>_ _. False)" for rows
      by (rule hoare_for_each [where I = "\<lambda>_ _. True"]) (rule row)
  qed
  then show ?thesis by (cases "reclaim_all te why c"; cases "fst (reclaim_all te why c)") (auto dest: hoareD)
qed

lemma all_stopped_active: "store_inv m (db c) \<Longrightarrow> all_stopped h c \<Longrightarrow> a \<in> set (active (db c)) \<Longrightarrow>
    reclaiming a \<and> Stopping (rs_container a) True \<in> set (drop (length h) (history c))"
proof -
  assume inv: "store_inv m (db c)" and s: "all_stopped h c" and a: "a \<in> set (active (db c))"
  have "trip a \<in> set (holders (db c))" using a holders_active [OF inv] by (simp add: trip_def)
  then show ?thesis using s not_running_reclaiming [OF inv a] by (fastforce simp: all_stopped_def trip_def)
qed

text \<open>C5: the controller gives everything back when it cannot go on. When a tick, or writing the
  status file, raises any exception, the round ends with no job running and with \<open>docker stop\<close>
  started in this round for the container of every active job; and so does the controller
  when it shuts down after any rounds, without an exception of its own. This needs that
  \<open>docker stop\<close> can be started: \<open>reclaim_all\<close> is left at the first one that cannot.\<close>

theorem failure_and_shutdown_reclaim:
  assumes "store_inv (max_attempts (spot cfg)) st" "distinct (map rs_gpu_uuid (active st))"
    and "c = run_loop cfg rds (new_controller st)"
    and "\<forall>s. is_ok (stop_answer (error_env rd) s)" "\<forall>s. is_ok (stop_answer te s)"
    and "fst (round_body cfg rd c) = Inl e"
  shows "(\<forall>a \<in> set (active (db (snd (loop_step cfg rd c)))).
      reclaiming a \<and> Stopping (rs_container a) True \<in> set (new_events c (snd (loop_step cfg rd c)))) \<and>
    fst (run_forever cfg rds te (new_controller st)) = Inr () \<and>
    (\<forall>a \<in> set (active (db (snd (run_forever cfg rds te (new_controller st))))).
       reclaiming a \<and> Stopping (rs_container a) True \<in> set (new_events c (snd (run_forever cfg rds te (new_controller st)))))"
proof -
  have ok: "okc cfg st c" unfolding assms(3) by (rule controller_ok [OF assms(1,2)])
  obtain c1 where c1: "round_body cfg rd c = (Inl e, c1)" using assms(6) by (cases "round_body cfg rd c") auto
  have ok1: "okc cfg st c1" using hoareD(2) [OF round_body_ok ok c1] .
  obtain c2 where c2: "reclaim_all (error_env rd) ''controller error'' c1 = (Inr (), c2)"
    using reclaim_all_total assms(4) by blast
  have l: "snd (loop_step cfg rd c) = c2" using c1 c2 by (simp add: loop_step_def catch_def)
  have ok1': "okc cfg st c1 \<and> history c1 = history c1" using ok1 by simp
  note r2 = hoareD(1) [OF reclaim_all_ok ok1' c2]
  have "history c1 = history c @ new_events c c1" by (rule grown [OF grows.keep_round_body c1])
  then have new: "set (drop (length (history c1)) (history c2)) \<subseteq> set (new_events c c2)"
    unfolding new_events_def by (intro set_drop_subset_set_drop) (metis le_add1 length_append)
  obtain c3 where c3: "reclaim_all te ''controller shutdown'' c = (Inr (), c3)"
    using reclaim_all_total assms(5) by blast
  have f: "run_forever cfg rds te (new_controller st) = (Inr (), c3)" using c3 by (simp add: run_forever_def assms(3))
  have ok': "okc cfg st c \<and> history c = history c" using ok by simp
  note r3 = hoareD(1) [OF reclaim_all_ok ok' c3]
  have "reclaiming a \<and> Stopping (rs_container a) True \<in> set (new_events c c2)" if "a \<in> set (active (db c2))" for a
    using all_stopped_active [OF db_okD, OF conjunct1 [OF r2] conjunct2 [OF r2] that] new by blast
  moreover have "reclaiming a \<and> Stopping (rs_container a) True \<in> set (new_events c c3)" if "a \<in> set (active (db c3))" for a
    using all_stopped_active [OF db_okD, OF conjunct1 [OF r3] conjunct2 [OF r3] that] by (simp add: new_events_def)
  ultimately show ?thesis unfolding l f fst_conv snd_conv by blast
qed

section \<open>A controller in the dark\<close>

text \<open>The default configuration; a database with one running job; and surroundings in which Docker
  does not answer, no GPU is left and the kill switch is set.\<close>

definition demo_cfg :: config where
  "demo_cfg = \<lparr>controller = \<lparr>poll_interval = 5, state_dir = path_of ''/var/lib/labgpu'',
       kill_switch_file = path_of ''/etc/labgpu/spot.disabled''\<rparr>,
     idle = idle_defaults, reclaim = reclaim_defaults, spot = demo_spot_config\<rparr>"

definition demo_db :: store where
  "demo_db = fold (store_step 20) demo_events empty_store"

definition dark_env :: tick_env where
  "dark_env = \<lparr>kill_file = Inr True, owners_answer = Inl (DockerError ''down''), spots_answer = Inr [],
     gpus_answer = Inr [], snapshot_answer = \<lambda>_. Inl (NvmlError ''gone''), pids_answer = \<lambda>_. Inr [],
     cpu_reads = \<lparr>cgroup_of = \<lambda>_. Inr [], cpu_stat_of = \<lambda>_. Inr []\<rparr>, ram_answer = Inr 0, hook_file = Inr True,
     run_answer = \<lambda>_. Inl (DockerError ''down''), stop_answer = \<lambda>_. Inr (), archive_answer = \<lambda>_. Inr (),
     attach_gpus = True, others = \<lambda>_. [], store_clock = \<lambda>_. 0\<rparr>"

definition dark_round :: loop_round where
  "dark_round = \<lparr>round_time = 10, round_env = dark_env, status_written = Inl (OSError ''disk full''), error_env = dark_env\<rparr>"

lemma demo_db_ok: "store_inv (max_attempts (spot demo_cfg)) demo_db" "distinct (map rs_gpu_uuid (active demo_db))"
proof -
  have "max_attempts (spot demo_cfg) = 20" by code_simp
  then show "store_inv (max_attempts (spot demo_cfg)) demo_db"
    unfolding demo_db_def using sm.inv_reachable [OF refl, of 20 demo_events] by simp
  show "distinct (map rs_gpu_uuid (active demo_db))" by code_simp
qed

lemma dark_tick: "(case tick dark_env demo_cfg 10 (new_controller demo_db) of (r, c) \<Rightarrow>
    is_ok r \<and> map rs_container (active (db c)) = [''c1''])"
  by code_simp

theorem exclusive_lending_witness:
  "distinct (map rs_gpu_uuid (active (db (run_loop demo_cfg [dark_round, dark_round] (new_controller demo_db)))))"
  using exclusive_lending [OF demo_db_ok refl, of "[dark_round, dark_round]"] by blast

theorem spots_run_only_where_lent_witness:
  "\<exists>c' a. tick dark_env demo_cfg 10 (new_controller demo_db) = (Inr (), c') \<and> a \<in> set (active (db c')) \<and>
     reclaiming a \<and> rs_container a = ''c1'' \<and> Stopping ''c1'' True \<in> set (history c')"
proof -
  obtain r c' where t: "tick dark_env demo_cfg 10 (new_controller demo_db) = (r, c')" by fastforce
  from dark_tick have c: "is_ok r" "map rs_container (active (db c')) = [''c1'']" by (simp_all add: t)
  from c(1) have t': "tick dark_env demo_cfg 10 (new_controller demo_db) = (Inr (), c')" using t by (auto elim: is_okE)
  from c(2) obtain a where a: "a \<in> set (active (db c'))" "rs_container a = ''c1''" by auto
  have n: "new_controller demo_db = run_loop demo_cfg [] (new_controller demo_db)" by (simp add: run_loop_def)
  have "reclaiming a \<and> stop_given (new_controller demo_db) c' ''c1''"
    using spots_run_only_where_lent [OF demo_db_ok n t' a(1)] a(2) by (simp add: dark_env_def)
  then have "reclaiming a \<and> Stopping ''c1'' True \<in> set (history c')"
    by (simp add: stop_given_def new_events_def new_controller_def)
  with t' a show ?thesis by blast
qed

theorem failure_and_shutdown_reclaim_witness:
  "(let c = snd (loop_step demo_cfg dark_round (new_controller demo_db))
    in map (\<lambda>a. (rs_container a, reclaiming a \<and> Stopping (rs_container a) True \<in> set (history c))) (active (db c)) = [(''c1'', True)])"
proof -
  have c: "new_controller demo_db = run_loop demo_cfg [] (new_controller demo_db)" by (simp add: run_loop_def)
  have f: "fst (round_body demo_cfg dark_round (new_controller demo_db)) = Inl (OSError ''disk full'')"
    by code_simp
  have s: "\<forall>s. is_ok (stop_answer (error_env dark_round) s)" "\<forall>s. is_ok (stop_answer dark_env s)"
    by (simp_all add: dark_round_def dark_env_def)
  let ?c = "snd (loop_step demo_cfg dark_round (new_controller demo_db))"
  have "map rs_container (active (db ?c)) = [''c1'']" by code_simp
  then obtain a where a: "active (db ?c) = [a]" "rs_container a = ''c1''" by (cases "active (db ?c)") auto
  have "set (new_events (new_controller demo_db) ?c) \<subseteq> set (history ?c)" by (simp add: new_events_def set_drop_subset)
  then have "reclaiming a \<and> Stopping (rs_container a) True \<in> set (history ?c)"
    using failure_and_shutdown_reclaim [OF demo_db_ok c s f] a(1) by auto
  then show ?thesis by (simp add: Let_def a)
qed

end
