(* ===== verification/Daemon_Quiet.thy ===== *)
theory Daemon_Quiet imports Daemon_Safety Daemon_Keeps begin

text \<open>
  What the controller's history shows of the owners: each tracker is what the sightings of
  its GPU make of it, and a container is only started on a GPU whose last judgement found it
  lendable, after a window without activity.
\<close>

section \<open>Sightings\<close>

text \<open>The observations of one GPU in a history, with their times.\<close>

fun sightings :: "string \<Rightarrow> daemon_event list \<Rightarrow> tick_input list" where
  "sightings u [] = []"
| "sightings u (Saw now ob # h) = (if obs_uuid ob = u
     then \<lparr>ti_obs = ob, ti_time = now, ti_lent = False, ti_reclaiming = False, ti_blocked = None\<rparr> # sightings u h
     else sightings u h)"
| "sightings u (e # h) = sightings u h"

fun saw_time :: "daemon_event \<Rightarrow> rat list" where
  "saw_time (Saw now ob) = [now]"
| "saw_time e = []"

definition saw_times :: "daemon_event list \<Rightarrow> rat list" where
  "saw_times h = concat (map saw_time h)"

fun is_saw :: "daemon_event \<Rightarrow> bool" where
  "is_saw (Saw now ob) = True"
| "is_saw e = False"

lemma sightings_append [simp]: "sightings u (h @ h') = sightings u h @ sightings u h'"
  by (induction h rule: sightings.induct [of "\<lambda>_ h. P h" for P]) auto

lemma sightings_other: "\<not> is_saw e \<Longrightarrow> sightings u [e] = []"
  by (cases e) auto

lemma saw_times_append [simp]: "saw_times (h @ h') = saw_times h @ saw_times h'"
  by (simp add: saw_times_def)

lemma saw_times_other: "\<not> is_saw e \<Longrightarrow> saw_times [e] = []"
  by (cases e) (auto simp: saw_times_def)

lemma sightings_times: "set (map ti_time (sightings u h)) \<subseteq> set (saw_times h)"
  by (induction h rule: sightings.induct [of "\<lambda>_ h. P h" for P]) (auto simp: saw_times_def)

lemma sightings_sorted: "sorted (saw_times h) \<Longrightarrow> sorted (map ti_time (sightings u h))"
proof (induction h rule: rev_induct)
  case (snoc e h)
  show ?case
  proof (cases e)
    case (Saw now ob)
    have "x \<le> now" if "x \<in> set (map ti_time (sightings u h))" for x
      using snoc.prems sightings_times that by (fastforce simp: Saw saw_times_def sorted_append)
    moreover have "sorted (map ti_time (sightings u h))" using snoc by (simp add: sorted_append)
    ultimately show ?thesis by (auto simp: Saw sorted_append)
  qed (use snoc in \<open>simp_all add: saw_times_def\<close>)
qed simp

text \<open>The tracker that some sightings make.\<close>

definition tracker_of :: "config \<Rightarrow> tick_input list \<Rightarrow> gpu_tracker option" where
  "tracker_of cfg ks = (case ks of [] \<Rightarrow> None
     | k # _ \<Rightarrow> Some (fold (tracker_step (idle cfg) (reclaim cfg)) ks (new_tracker (ti_obs k) (ti_time k))))"

text \<open>What must have been seen of a GPU when it is found lendable: no sign of its owners within
  the window.\<close>

definition quiet_since :: "config \<Rightarrow> tick_input list \<Rightarrow> gpu_observation \<Rightarrow> rat \<Rightarrow> bool" where
  "quiet_since cfg ks ob now = (quiet_obs (idle cfg) ob \<and>
     wait_seconds ob (idle cfg) \<le> fsub now (case ks of [] \<Rightarrow> now | k # _ \<Rightarrow> ti_time k) \<and>
     (\<forall>i < length ks. fsub now (ti_time (ks ! i)) < wait_seconds ob (idle cfg) \<longrightarrow>
        quiet_obs (idle cfg) (ti_obs (ks ! i)) \<and>
        (\<forall>j < i. fsub now (ti_time (ks ! j)) < wait_seconds ob (idle cfg) \<longrightarrow>
           owner_memory (ti_obs (ks ! i)) \<le> owner_memory (ti_obs (ks ! j)) + owner_mem_delta (idle cfg) \<and>
           owner_containers (ti_obs (ks ! i)) \<subseteq> owner_containers (ti_obs (ks ! j)))))"

lemma lendable_quiet:
  assumes "sorted (map ti_time ks)" and t: "t = (case tracker_of cfg ks of None \<Rightarrow> new_tracker ob now | Some t \<Rightarrow> t)"
    and l: "lendable (fst (update t ob now (idle cfg) (reclaim cfg) lent recl blocked))"
  shows "quiet_since cfg ks ob now"
proof -
  have q: "quiet_obs (idle cfg) ob" using l by (simp add: update_lendable activity_Nil_iff quiet_obs_def)
  show ?thesis
  proof (cases ks)
    case Nil
    then have "wait_seconds ob (idle cfg) \<le> fsub now now" using l t by (simp add: update_lendable tracker_of_def new_tracker_def)
    then show ?thesis using Nil q by (simp add: quiet_since_def)
  next
    case (Cons k ks')
    have "sorted (ti_time k # map ti_time ks)" using assms(1) Cons by simp
    from history_inv_run [OF this, of "idle cfg" "reclaim cfg" "ti_obs k"]
    have inv: "history_inv (idle cfg) (ti_time k) ks t" using t Cons by (simp add: tracker_of_def)
    have hd: "(case ks of [] \<Rightarrow> now | k # _ \<Rightarrow> ti_time k) = ti_time k" by (simp add: Cons)
    show ?thesis unfolding quiet_since_def hd using quiet_window [OF inv l] q by blast
  qed
qed

section \<open>Justified starts\<close>

text \<open>The last judgement of a GPU in a history, with the observation it rests on.\<close>

definition last_judged :: "daemon_event list \<Rightarrow> string \<Rightarrow> daemon_event list \<Rightarrow> rat \<Rightarrow> gpu_observation \<Rightarrow> gpu_verdict \<Rightarrow> bool" where
  "last_judged h u h1 now ob v = (\<exists>mid. h = h1 @ [Saw now ob, Judged v] @ mid \<and> obs_uuid ob = u \<and> sightings u mid = [])"

definition justified :: "config \<Rightarrow> daemon_event list \<Rightarrow> string \<Rightarrow> gpu_verdict \<Rightarrow> bool" where
  "justified cfg h u v = (\<exists>h1 now ob. last_judged h u h1 now ob v \<and> quiet_since cfg (sightings u h1) ob now \<and>
     lendable_memory v = free_memory ob - mem_reserve (reclaim cfg) \<and> 0 < lendable_memory v)"

text \<open>A start is justified by what stands before it, and by an argument vector for this GPU whose
  memory limit is what the verdict offers.\<close>

definition ran_ok :: "config \<Rightarrow> daemon_event list \<Rightarrow> string \<Rightarrow> pyval list \<Rightarrow> bool" where
  "ran_ok cfg h u argv = (\<exists>v. justified cfg h u v \<and>
     (\<exists>i n s us gs ram enforced attach. build_run_args i n s us gs u (lendable_memory v) ram (spot cfg) enforced attach = Inr argv \<and>
        (enforced \<or> allow_unenforced (spot cfg))))"

definition hist_ok :: "config \<Rightarrow> (string, gpu_tracker) pydict \<Rightarrow> daemon_event list \<Rightarrow> bool" where
  "hist_ok cfg ts h = ((\<forall>u. dict_get ts u = tracker_of cfg (sightings u h)) \<and> sorted (saw_times h) \<and>
     (\<forall>pre u argv post. h = pre @ Ran u argv # post \<longrightarrow> ran_ok cfg pre u argv))"

lemma justified_append: "justified cfg h u v \<Longrightarrow> sightings u [e] = [] \<Longrightarrow> justified cfg (h @ [e]) u v"
  unfolding justified_def last_judged_def
proof (elim exE conjE)
  fix h1 now ob mid
  assume "sightings u [e] = []" "h = h1 @ [Saw now ob, Judged v] @ mid" "obs_uuid ob = u" "sightings u mid = []"
    "quiet_since cfg (sightings u h1) ob now" "lendable_memory v = free_memory ob - mem_reserve (reclaim cfg)" "0 < lendable_memory v"
  then show "\<exists>h1 now ob. (\<exists>mid. h @ [e] = h1 @ [Saw now ob, Judged v] @ mid \<and> obs_uuid ob = u \<and> sightings u mid = []) \<and>
      quiet_since cfg (sightings u h1) ob now \<and> lendable_memory v = free_memory ob - mem_reserve (reclaim cfg) \<and> 0 < lendable_memory v"
    by (intro exI [of _ h1] exI [of _ now] exI [of _ ob] conjI exI [of _ "mid @ [e]"]) (simp_all del: sightings.simps)
qed

lemma ran_append:
  assumes "\<forall>pre u argv post. h = pre @ Ran u argv # post \<longrightarrow> ran_ok cfg pre u argv"
    and "\<And>u argv. e = Ran u argv \<Longrightarrow> ran_ok cfg h u argv"
  shows "h @ [e] = pre @ Ran u argv # post \<Longrightarrow> ran_ok cfg pre u argv"
  using assms by (cases post rule: rev_cases) auto

lemma hist_ok_other: "hist_ok cfg ts h \<Longrightarrow> \<not> is_saw e \<Longrightarrow> (\<And>u argv. e = Ran u argv \<Longrightarrow> ran_ok cfg h u argv) \<Longrightarrow>
    hist_ok cfg ts (h @ [e])"
  unfolding hist_ok_def
  by (simp add: sightings_other saw_times_other del: append_assoc) (blast intro: ran_append)

lemma hist_ok_saw:
  assumes "hist_ok cfg ts h" "\<forall>x \<in> set (saw_times h). x \<le> now"
    and "t = (case dict_get ts (obs_uuid ob) of None \<Rightarrow> new_tracker ob now | Some t \<Rightarrow> t)"
  shows "hist_ok cfg (dict_set (obs_uuid ob) (track t ob now (idle cfg)) ts) (h @ [Saw now ob])"
proof -
  let ?u = "obs_uuid ob"
  let ?k = "\<lparr>ti_obs = ob, ti_time = now, ti_lent = False, ti_reclaiming = False, ti_blocked = None\<rparr> :: tick_input"
  have step: "tracker_step ic rc ?k t' = track t' ob now ic" for ic rc t' by (simp add: tracker_step_def)
  have "tracker_of cfg (sightings ?u h @ [?k]) = Some (track t ob now (idle cfg))"
    using assms(1,3) by (cases "sightings ?u h") (auto simp: hist_ok_def tracker_of_def step)
  then have "dict_get (dict_set ?u (track t ob now (idle cfg)) ts) u = tracker_of cfg (sightings u (h @ [Saw now ob]))" for u
    using assms(1) by (simp add: hist_ok_def update_conv')
  moreover have "sorted (saw_times (h @ [Saw now ob]))"
    using assms(1,2) by (simp add: hist_ok_def sorted_append) (simp add: saw_times_def)
  moreover have "ran_ok cfg pre u argv" if "h @ [Saw now ob] = pre @ Ran u argv # post" for pre u argv post
    by (rule ran_append [OF _ _ that]) (use assms(1) in \<open>auto simp: hist_ok_def\<close>)
  ultimately show ?thesis unfolding hist_ok_def by blast
qed

section \<open>The controller's history\<close>

abbreviation histc :: "config \<Rightarrow> ctl \<Rightarrow> bool" where
  "histc cfg c \<equiv> hist_ok cfg (trackers c) (history c)"

definition seen_by :: "rat \<Rightarrow> ctl \<Rightarrow> bool" where
  "seen_by now c = (\<forall>x \<in> set (saw_times (history c)). x \<le> now)"

text \<open>The lendable verdicts of a decision are justified.\<close>

definition founded :: "config \<Rightarrow> verdicts \<Rightarrow> daemon_event list \<Rightarrow> bool" where
  "founded cfg vs h = (\<forall>u v. dict_get vs u = Some v \<longrightarrow> lendable v \<longrightarrow> justified cfg h u v)"

lemma founded_append: "founded cfg vs h \<Longrightarrow> \<not> is_saw e \<Longrightarrow> founded cfg vs (h @ [e])"
  unfolding founded_def using justified_append sightings_other by blast

lemma judge_hist:
  assumes h: "histc cfg (snd vc)" "seen_by now (snd vc)" "founded cfg (fst vc) (history (snd vc))"
  shows "histc cfg (snd (judge cfg now kill ps as ob vc)) \<and> seen_by now (snd (judge cfg now kill ps as ob vc)) \<and>
    founded cfg (fst (judge cfg now kill ps as ob vc)) (history (snd (judge cfg now kill ps as ob vc)))"
proof -
  let ?c = "snd vc" and ?u = "obs_uuid ob" and ?r = "judge cfg now kill ps as ob vc"
  let ?t = "tracker_for ob now ?c"
  let ?v = "judgement cfg now kill ps as ob ?t" and ?h = "history ?c @ [Saw now ob]"
  have f: "fst ?r = dict_set ?u ?v (fst vc)" by (rule judge_fst)
  have hist: "history (snd ?r) = ?h @ [Judged ?v]"
    using judge_fst [of cfg now kill ps as ob "([], ?c)"]
    by (auto simp: judge_def Let_def note_event_def split: prod.splits)
  have tr: "trackers (snd ?r) = dict_set ?u (track ?t ob now (idle cfg)) (trackers ?c)"
    by (auto simp: judge_def Let_def note_event_def split: prod.splits dest: arg_cong [where f = snd])
  have t: "?t = (case dict_get (trackers ?c) ?u of None \<Rightarrow> new_tracker ob now | Some t \<Rightarrow> t)"
    by (simp add: tracker_for_def get_or_def)
  have "hist_ok cfg (trackers (snd ?r)) ?h"
    unfolding tr by (rule hist_ok_saw [OF h(1) _ t]) (use h(2) in \<open>simp add: seen_by_def\<close>)
  then have "histc cfg (snd ?r)" unfolding hist by (rule hist_ok_other) simp_all
  moreover have "seen_by now (snd ?r)" using h(2) by (auto simp: seen_by_def hist saw_times_def)
  moreover have "justified cfg (history (snd ?r)) u v" if u: "dict_get (fst ?r) u = Some v" "lendable v" for u v
  proof (cases "u = ?u")
    case True
    then have v: "v = ?v" using u(1) by (simp add: f update_conv')
    have srt: "sorted (map ti_time (sightings ?u (history ?c)))"
      using h(1) by (intro sightings_sorted) (simp add: hist_ok_def)
    have "?t = (case tracker_of cfg (sightings ?u (history ?c)) of None \<Rightarrow> new_tracker ob now | Some t \<Rightarrow> t)"
      using t h(1) by (simp add: hist_ok_def)
    from lendable_quiet [OF srt this] u(2) have "quiet_since cfg (sightings ?u (history ?c)) ob now"
      unfolding v judgement_def by blast
    moreover have "lendable_memory v = free_memory ob - mem_reserve (reclaim cfg)" "0 < lendable_memory v"
      using u(2) unfolding v judgement_def by (simp_all add: update_lendable_memory) (simp add: update_lendable)
    moreover have "last_judged (history (snd ?r)) u (history ?c) now ob v"
      unfolding last_judged_def hist v True by (rule exI [of _ "[]"]) simp
    ultimately show ?thesis unfolding justified_def True by blast
  next
    case False
    then have "dict_get (fst vc) u = Some v" using u(1) by (simp add: f update_conv')
    then have "justified cfg (history ?c) u v" using h(3) u(2) by (simp add: founded_def)
    then have "justified cfg ?h u v" by (rule justified_append) (use False in simp)
    then show ?thesis unfolding hist by (rule justified_append) simp
  qed
  ultimately show ?thesis by (simp add: founded_def)
qed

lemma judge_all_hist: "hoare (\<lambda>c. histc cfg c \<and> seen_by now c) (judge_all cfg now kill ps as obs)
    (\<lambda>vs c. histc cfg c \<and> seen_by now c \<and> founded cfg vs (history c)) (\<lambda>_ c. histc cfg c \<and> seen_by now c)"
proof -
  have "histc cfg (snd (fold (judge cfg now kill ps as) obs vc)) \<and> seen_by now (snd (fold (judge cfg now kill ps as) obs vc)) \<and>
      founded cfg (fst (fold (judge cfg now kill ps as) obs vc)) (history (snd (fold (judge cfg now kill ps as) obs vc)))"
    if "histc cfg (snd vc)" "seen_by now (snd vc)" "founded cfg (fst vc) (history (snd vc))" for vc
    using that
  proof (induction obs arbitrary: vc)
    case (Cons ob obs)
    from judge_hist [OF Cons.prems, of kill ps as ob] show ?case by (simp add: Cons.IH)
  qed simp
  note run = this
  show ?thesis
  proof (rule hoareI)
    fix c vs c' assume c: "histc cfg c \<and> seen_by now c" and r: "judge_all cfg now kill ps as obs c = (Inr vs, c')"
    obtain c1 where f: "fold (judge cfg now kill ps as) obs ([], c) = (vs, c1)" and c': "c' = c1\<lparr>last_verdicts := vs\<rparr>"
      using r by (auto simp: judge_all_def split: prod.splits)
    have "founded cfg [] (history c)" by (simp add: founded_def)
    with run [of "([], c)"] c have "histc cfg c1 \<and> seen_by now c1 \<and> founded cfg vs (history c1)" by (simp add: f)
    then show "histc cfg c' \<and> seen_by now c' \<and> founded cfg vs (history c')" by (simp add: c' seen_by_def)
  next
    fix c e c' assume "judge_all cfg now kill ps as obs c = (Inl e, c')"
    then show "histc cfg c' \<and> seen_by now c'" by (simp add: judge_all_def split: prod.splits)
  qed
qed

section \<open>Everything else\<close>

text \<open>All other methods add nothing but acts on containers to the history.\<close>

abbreviation settled :: "config \<Rightarrow> rat \<Rightarrow> verdicts \<Rightarrow> ctl \<Rightarrow> bool" where
  "settled cfg now vs c \<equiv> histc cfg c \<and> seen_by now c \<and> founded cfg vs (history c)"

lemma seen_other: "seen_by now c \<Longrightarrow> \<not> is_saw e \<Longrightarrow> seen_by now (note_event e c)"
  by (simp add: seen_by_def note_event_def saw_times_other)

lemma settled_note: "settled cfg now vs c \<Longrightarrow> \<not> is_saw e \<Longrightarrow> (\<And>u argv. e = Ran u argv \<Longrightarrow> ran_ok cfg (history c) u argv) \<Longrightarrow>
    settled cfg now vs (note_event e c)"
  using seen_other [of now c e] hist_ok_other [of cfg "trackers c" "history c" e] founded_append [of cfg vs "history c" e]
  by (simp add: note_event_def)

lemma settled_cong: "settled cfg now vs c \<Longrightarrow> trackers c' = trackers c \<Longrightarrow> history c' = history c \<Longrightarrow> settled cfg now vs c'"
  by (simp add: seen_by_def)

interpretation settled: ctl_still "settled cfg now vs" for cfg now vs
proof unfold_locales
  fix c s ok assume "settled cfg now vs c"
  then have "settled cfg now vs (c\<lparr>stop_issued := insert s (stop_issued c)\<rparr>)" by (rule settled_cong) simp_all
  then show "settled cfg now vs (note_event (Stopping s ok) (c\<lparr>stop_issued := insert s (stop_issued c)\<rparr>))"
    by (rule settled_note) simp_all
next
  show "settled cfg now vs c \<Longrightarrow> settled cfg now vs (note_event (Archived s) c)" for c s by (rule settled_note) simp_all
qed (erule settled_cong; simp)+

lemma start_job_hist:
  assumes v: "dict_get vs (la_gpu_uuid la) = Some v" "lendable v" "gpu_mem_limit la = lendable_memory v"
    and e: "hook \<or> allow_unenforced (spot cfg)"
  shows "keeps (settled cfg now vs) (start_job te cfg la hook n rec)"
proof (cases "build_run_args (jid (fst rec)) n (snd rec) (uid (fst rec)) (gid (fst rec)) (la_gpu_uuid la)
     (gpu_mem_limit la) (la_ram la) (spot cfg) hook (attach_gpus te)")
  case (Inl e)
  then show ?thesis by (auto simp: start_job_def bnd_def lift_def intro: keepsI)
next
  case (Inr argv)
  have "keeps (settled cfg now vs) (start_container te (la_gpu_uuid la) argv)"
    unfolding start_container_def
  proof (intro step_intros keeps_modify settled_note)
    fix c u argv' assume s: "settled cfg now vs c" and "Ran (la_gpu_uuid la) argv = Ran u argv'"
    then have eq: "u = la_gpu_uuid la" "argv' = argv" by simp_all
    have "justified cfg (history c) (la_gpu_uuid la) v" using s v(1,2) unfolding founded_def by blast
    then show "ran_ok cfg (history c) u argv'" unfolding ran_ok_def eq using Inr e v(3) by metis
  qed simp_all
  moreover have "start_job te cfg la hook n rec = start_container te (la_gpu_uuid la) argv"
    by (simp add: start_job_def Inr bnd_def lift_def fun_eq_iff)
  ultimately show ?thesis by simp
qed

lemma keeps_settled_launch:
  assumes "la \<in> set (launches (plan vs as queue budget (hook \<or> allow_unenforced (spot cfg))))"
  shows "keeps (settled cfg now vs) (do_launch te cfg hook la)"
proof -
  from plan_launch [OF assms] obtain v where v: "dict_get vs (la_gpu_uuid la) = Some v" "lendable v"
    "gpu_mem_limit la = lendable_memory v" and e: "hook \<or> allow_unenforced (spot cfg)" by blast
  show ?thesis
    unfolding do_launch_def by (intro step_intros settled.keep_read settled.keep_write settled.keep_transact start_job_hist [OF v e])
qed

section \<open>Ticks and rounds\<close>

lemma decide_hist: "hoare (settled cfg now []) (decide_phase te cfg now kill ps obs)
    (\<lambda>x. settled cfg now (snd x)) (\<lambda>_. settled cfg now [])"
  unfolding decide_phase_def
proof (rule hoare_bnd)
  show "hoare (settled cfg now []) (read_store te (\<lambda>st. Inr (active st))) (\<lambda>_. settled cfg now []) (\<lambda>_. settled cfg now [])"
    using settled.keep_read unfolding keeps_def .
  fix as
  show "hoare (settled cfg now []) (bnd (judge_all cfg now kill ps as obs) (\<lambda>vs. ret (as, vs)))
      (\<lambda>x. settled cfg now (snd x)) (\<lambda>_. settled cfg now [])"
  proof (rule hoare_bnd)
    show "hoare (settled cfg now []) (judge_all cfg now kill ps as obs) (\<lambda>vs. settled cfg now vs) (\<lambda>_. settled cfg now [])"
      by (rule hoare_conseq [OF judge_all_hist]) (auto simp: founded_def)
    show "hoare (settled cfg now vs) (ret (as, vs)) (\<lambda>x. settled cfg now (snd x)) (\<lambda>_. settled cfg now [])" for vs
      by (rule hoare_pre [OF hoare_ret]) simp
  qed
qed

lemma tick_hist: "keeps (settled cfg now []) (tick te cfg now)"
proof -
  let ?I = "settled cfg now []"
  have act: "hoare (settled cfg now vs) (act_phase te cfg ok as vs) (\<lambda>_. ?I) (\<lambda>_. ?I)" for ok as vs
    by (rule hoare_conseq [OF settled.keep_act_phase_if [OF keeps_settled_launch, unfolded keeps_def]]) (auto simp: founded_def)
  have last: "keeps ?I (bnd (decide_phase te cfg now kill ps obs) (\<lambda>(as, vs). act_phase te cfg ok as vs))" for kill ps obs ok
    unfolding keeps_def split_beta by (rule hoare_bnd [OF decide_hist act])
  have rec: "keeps ?I (if ok then reconcile te cfg ss else ret ())" for ok ss
    using settled.keep_reconcile by (intro step_intros)
  show ?thesis
    unfolding tick_def split_beta
    by (intro keeps_bnd settled.keep_read keeps_lift settled.keep_docker_state settled.keep_observe_all rec last [unfolded split_beta])
qed

lemma loop_step_hist: "keeps (settled cfg (round_time rd) []) (loop_step cfg rd)"
  unfolding loop_step_def round_body_def
  by (intro step_intros tick_hist settled.keep_reclaim_all)

lemma run_loop_hist: "sorted (map round_time rds) \<Longrightarrow> histc cfg c \<Longrightarrow> (\<And>rd. rd \<in> set rds \<Longrightarrow> seen_by (round_time rd) c) \<Longrightarrow>
    histc cfg (run_loop cfg rds c)"
proof (induction rds arbitrary: c)
  case (Cons rd rds)
  let ?c = "snd (loop_step cfg rd c)"
  have "settled cfg (round_time rd) [] c" using Cons.prems(2) Cons.prems(3) [of rd] by (simp add: founded_def)
  then have s: "settled cfg (round_time rd) [] ?c" by (rule keepsD [OF loop_step_hist])
  have "seen_by (round_time r) ?c" if "r \<in> set rds" for r
    using s Cons.prems(1) that unfolding seen_by_def by (auto intro: order_trans)
  then have "histc cfg (run_loop cfg rds ?c)" using Cons.IH Cons.prems(1) s by simp
  then show ?case by (simp add: run_loop_def)
qed (simp add: run_loop_def)

section \<open>Properties\<close>

text \<open>C2: a container is only started on a GPU its owners have left alone. Whenever, in any
  rounds at non-decreasing times, the controller starts a container for a GPU, the last
  thing it saw of that GPU before is an observation \<open>ob\<close> at a time \<open>now\<close> of the same tick that
  succeeded and shows no sign of activity; the controller has known the GPU for a whole idle
  window (the short one only if no owner container is attached); every earlier observation
  of that window succeeded, too, and showed the owners' utilisation and CPU at most at the
  thresholds and no unidentified process, and between any two of them neither did the
  owners' memory rise by more than the delta nor did an owner container appear. The argument
  vector is one for this GPU whose memory limit is all its free memory but the reserve, which
  is positive, and limits are enforced unless the configuration waives that.\<close>

theorem lent_only_when_quiet:
  assumes "sorted (map round_time rds)"
    and "history (run_loop cfg rds (new_controller st)) = pre @ Ran gpu argv # post"
  shows "\<exists>h now ob v mid. pre = h @ [Saw now ob, Judged v] @ mid \<and> obs_uuid ob = gpu \<and> sightings gpu mid = [] \<and>
    quiet_since cfg (sightings gpu h) ob now \<and>
    lendable_memory v = free_memory ob - mem_reserve (reclaim cfg) \<and> 0 < lendable_memory v \<and>
    (\<exists>i n s us gs ram enforced attach.
       build_run_args i n s us gs gpu (lendable_memory v) ram (spot cfg) enforced attach = Inr argv \<and>
       (enforced \<or> allow_unenforced (spot cfg)))"
proof -
  have "histc cfg (new_controller st)" by (simp add: hist_ok_def new_controller_def tracker_of_def saw_times_def)
  from run_loop_hist [OF assms(1) this] have "histc cfg (run_loop cfg rds (new_controller st))"
    by (simp add: seen_by_def new_controller_def saw_times_def)
  then have "ran_ok cfg pre gpu argv" using assms(2) unfolding hist_ok_def by blast
  then show ?thesis unfolding ran_ok_def justified_def last_judged_def by blast
qed

text \<open>A GPU of 96 GiB that nobody uses is seen twice, a minute and forty seconds apart, with one
  job in the queue: the second round starts its container.\<close>

definition idle_gpu :: gpu_info where
  "idle_gpu = \<lparr>index = 0, uuid = ''GPU-a'', name = ''NVIDIA'', memory = 96 * GiB, pci_bus_id = ''0''\<rparr>"

definition idle_env :: "rat \<Rightarrow> tick_env" where
  "idle_env t = dark_env\<lparr>kill_file := Inr False, owners_answer := Inr [], gpus_answer := Inr [idle_gpu],
     snapshot_answer := \<lambda>_. Inr \<lparr>info = idle_gpu, snap_used = 0, gpu_util = 0, snap_processes = []\<rparr>,
     ram_answer := Inr (64 * GiB), run_answer := \<lambda>_. Inr ''c1'', store_clock := \<lambda>_. t\<rparr>"

definition idle_round :: "rat \<Rightarrow> loop_round" where
  "idle_round t = \<lparr>round_time = t, round_env = idle_env t, status_written = Inr (), error_env = idle_env t\<rparr>"

fun ran_gpus :: "daemon_event list \<Rightarrow> string list" where
  "ran_gpus [] = []"
| "ran_gpus (Ran g argv # h) = g # ran_gpus h"
| "ran_gpus (e # h) = ran_gpus h"

lemma ran_gpus_split: "g \<in> set (ran_gpus h) \<Longrightarrow> \<exists>pre argv post. h = pre @ Ran g argv # post"
proof (induction h rule: ran_gpus.induct)
  case (2 g' argv h)
  show ?case
  proof (cases "g = g'")
    case True
    then have "Ran g' argv # h = [] @ Ran g argv # h" by simp
    then show ?thesis by blast
  next
    case False
    then obtain pre argv' post where "h = pre @ Ran g argv' # post" using 2 by auto
    then show ?thesis by (intro exI [of _ "Ran g' argv # pre"] exI [of _ argv'] exI [of _ post]) simp
  qed
qed (auto, (metis append_Cons)+)

lemma demo_launch: "ran_gpus (history (run_loop demo_cfg [idle_round 0, idle_round 100]
    (new_controller (store_step 20 (Submit demo_spec 1000 1000 0) empty_store)))) = [''GPU-a'']"
  by code_simp

theorem lent_only_when_quiet_witness:
  "\<exists>h now ob. obs_uuid ob = ''GPU-a'' \<and> quiet_since demo_cfg (sightings ''GPU-a'' h) ob now"
proof -
  obtain pre argv post where h: "history (run_loop demo_cfg [idle_round 0, idle_round 100]
      (new_controller (store_step 20 (Submit demo_spec 1000 1000 0) empty_store))) = pre @ Ran ''GPU-a'' argv # post"
    using ran_gpus_split [of "''GPU-a''"] demo_launch by (metis list.set_intros(1))
  have "sorted (map round_time [idle_round 0, idle_round 100])" by (simp add: idle_round_def)
  from lent_only_when_quiet [OF this h] show ?thesis by blast
qed

end
