(* ===== verification/Reader.thy ===== *)
theory Reader imports Nvml begin

text \<open>
  The reader objects of \<open>labgpu/nvml.py\<close>: opening one, the driver version, and its calls
  as a client makes them. A reader of the library remembers the time stamp of the newest
  sample of each GPU; a fake one remembers its file, which it parses again on every call.
\<close>

text \<open>The surroundings of a reader: whether \<open>pynvml\<close> can be imported, the error of
  \<open>nvmlInit\<close> if there is one, the answers of the library, the parsed text of a fake file,
  the cgroup file of a process.\<close>

record nvml_host =
  environ :: "(string, string) pydict"
  lib_present :: bool
  lib_init :: "string option"
  lib_driver :: "string + string"
  lib_devices :: "string + nvml_device list"
  lib_device :: "int \<Rightarrow> string + nvml_device"
  fake_text :: "string \<Rightarrow> pyval result"
  cgroup_text :: "int \<Rightarrow> string result"

datatype nvml_reader =
    RealReader "(int, int) pydict"
  | FakeReader string

definition fake_doc :: "nvml_host \<Rightarrow> string \<Rightarrow> pyval result" where
  "fake_doc h file = as_nvml_error file (fake_text h file)"

definition new_fake_reader :: "nvml_host \<Rightarrow> string \<Rightarrow> nvml_reader result" where
  "new_fake_reader h file = rbind (fake_doc h file) (\<lambda>_. Inr (FakeReader file))"

definition new_real_reader :: "nvml_host \<Rightarrow> nvml_reader result" where
  "new_real_reader h = (if \<not> lib_present h then Inl (NvmlError ''nvidia-ml-py is not installed'')
     else case lib_init h of
       Some e \<Rightarrow> Inl (NvmlError (''nvmlInit failed: '' @ e))
     | None \<Rightarrow> Inr (RealReader []))"

definition open_reader :: "nvml_host \<Rightarrow> nvml_reader result" where
  "open_reader h = (case fake_wanted (environ h) of
     Some file \<Rightarrow> new_fake_reader h file
   | None \<Rightarrow> new_real_reader h)"

fun reader_is_fake :: "nvml_reader \<Rightarrow> bool" where
  "reader_is_fake (FakeReader _) = True"
| "reader_is_fake (RealReader _) = False"

text \<open>The library's own exception leaves \<open>NvmlReader.driver_version\<close> as it is.\<close>

fun driver_version :: "nvml_host \<Rightarrow> nvml_reader \<Rightarrow> string result" where
  "driver_version h (RealReader _) = (case lib_driver h of Inl e \<Rightarrow> Inl (PynvmlError e) | Inr v \<Rightarrow> Inr v)"
| "driver_version h (FakeReader file) =
     rbind (fake_doc h file) (\<lambda>d. rbind (get_item d ''driver'' (PStr ''fake'')) (\<lambda>v. Inr (py_str v)))"

fun reader_list :: "nvml_host \<Rightarrow> nvml_reader \<Rightarrow> gpu_info list result" where
  "reader_list h (RealReader _) = list_gpus (lib_devices h)"
| "reader_list h (FakeReader file) = fake_list_gpus (fake_doc h file)"

fun reader_snapshot :: "nvml_host \<Rightarrow> int \<Rightarrow> nvml_reader \<Rightarrow> gpu_snapshot result \<times> nvml_reader" where
  "reader_snapshot h i (RealReader ts) = (let (r, ts') = nvml_snapshot (lib_device h) i ts in (r, RealReader ts'))"
| "reader_snapshot h i (FakeReader file) = (fake_snapshot (fake_doc h file) i, FakeReader file)"

fun reader_pids :: "nvml_host \<Rightarrow> nvml_reader \<Rightarrow> int list \<Rightarrow> (int, string option) pydict result" where
  "reader_pids h (RealReader _) pids = map_pids (cgroup_text h) pids"
| "reader_pids h (FakeReader file) pids = fake_container_of_pids (fake_doc h file) pids"

text \<open>\<open>close\<close>, where \<open>shut\<close> is what the library's shutdown comes to: its own errors are ignored.\<close>

fun close_reader :: "unit result \<Rightarrow> nvml_reader \<Rightarrow> unit result" where
  "close_reader shut (RealReader _) = (case shut of Inl (PynvmlError _) \<Rightarrow> Inr () | r \<Rightarrow> r)"
| "close_reader shut (FakeReader _) = Inr ()"

section \<open>Facts\<close>

text \<open>An open reader is fake exactly when the variable asks for it.\<close>

lemma new_fake_reader_kind: "new_fake_reader h f = Inr r \<Longrightarrow> reader_is_fake r"
  unfolding new_fake_reader_def by (cases "fake_doc h f") auto

lemma new_real_reader_kind: "new_real_reader h = Inr r \<Longrightarrow> \<not> reader_is_fake r"
  unfolding new_real_reader_def by (cases "lib_init h"; cases "lib_present h") auto

lemma open_reader_kind: "open_reader h = Inr r \<Longrightarrow> reader_is_fake r \<longleftrightarrow> fake_wanted (environ h) \<noteq> None"
  unfolding open_reader_def using new_fake_reader_kind new_real_reader_kind
  by (cases "fake_wanted (environ h)") force+

lemma reader_snapshot_kind: "reader_is_fake (snd (reader_snapshot h i r)) = reader_is_fake r"
  by (cases r) (simp_all add: case_prod_unfold Let_def)

lemma reader_list_index:
  assumes "reader_list h r = Inr gs" "i < length gs"
  shows "index (gs ! i) = int i"
proof (cases r)
  case (RealReader ts)
  then show ?thesis using assms by (auto simp: list_gpus_def info_of_def nth_enumerate_eq split: sum.splits)
next
  case (FakeReader f)
  then have "fake_list_gpus (fake_doc h f) = Inr gs" using assms(1) by simp
  from this assms(2) show ?thesis by (rule fake.numbered)
qed

lemma map_pids_get:
  assumes "map_pids rc pids = Inr m" "p \<in> set pids"
  shows "\<exists>c. container_of_pid rc p = Inr c \<and> dict_get m p = Some c"
proof -
  obtain cs where cs: "traverse (container_of_pid rc) pids = Inr cs" and m: "m = dict_of (zip pids cs)"
    using assms(1) unfolding map_pids_def rmap_Inr_iff by blast
  have l2: "list_all2 (\<lambda>x y. container_of_pid rc x = Inr y) pids cs" using cs by (simp only: traverse_Inr_iff)
  have len: "length cs = length pids" using l2 by (simp only: list_all2_lengthD)
  have "p \<in> fst ` set (zip pids cs)" using assms(2) len by (simp flip: set_map)
  then have "p \<in> fst ` set m" unfolding m dict_of_keys .
  then obtain c where c: "dict_get m p = Some c" by (metis list.set_map map_of_eq_None_iff not_Some_eq)
  then have "(p, c) \<in> set (zip pids cs)" unfolding m dict_get_of by (auto dest: map_of_SomeD)
  then have "container_of_pid rc p = Inr c" using l2 by (auto simp: list_all2_iff)
  with c show ?thesis by blast
qed

end
