(* ===== verification/Plugin.thy ===== *)
theory Plugin imports Py_State Reader Fraction Selection Py_Path begin

text \<open>
  \<open>labgpu/accelerator/plugin.py\<close>: the accelerator plugins of a Backend.AI agent. A plugin is
  a record; its operations are state functions that may raise. The agent's own classes
  (allocation maps, measurements, mounts) appear as the arguments they are built from, and
  what the host answers is a record. Log lines are left out.
\<close>

definition PROCESSING_UNITS :: int where "PROCESSING_UNITS = 100"

definition DEVICE_CAPABILITIES :: pyval where
  "DEVICE_CAPABILITIES = PList [PList (map PStr [''utility'', ''compute'', ''video'', ''graphics'', ''display''])]"

datatype alloc_mode = FRACTIONAL | DISCRETE
datatype slot_kind = COUNT

fun mode_str :: "alloc_mode \<Rightarrow> string" where
  "mode_str FRACTIONAL = ''fractional''"
| "mode_str DISCRETE = ''discrete''"

record cuda_device =
  cd_model :: string
  cd_uuid :: string
  cd_id :: string
  cd_hw_location :: string
  cd_numa :: "int option"
  cd_memory :: int
  cd_units :: int
  cd_name :: "string option"

record plugin =
  entry_name :: string
  default_key :: "string option"
  key :: string
  slot_types :: "(string \<times> slot_kind) list"
  exclusive_slot_types :: "string set"
  display_name :: pyval
  display_unit :: pyval
  selector :: gpu_selector
  enabled :: bool
  mode :: alloc_mode
  fraction_enforced :: bool
  shares_per_device :: rat
  quantum_size :: rat
  allocation_strategy :: string
  hook_path :: path
  reserved_memory :: int
  sm_limit :: bool
  nvml :: "nvml_reader option"
  devices :: "cuda_device list option"

text \<open>An instance with the defaults of the class, and the five entry points.\<close>

definition new_plugin :: "string \<Rightarrow> string option \<Rightarrow> plugin" where
  "new_plugin entry dkey = \<lparr>entry_name = entry, default_key = dkey, key = ''cuda'', slot_types = [],
     exclusive_slot_types = {}, display_name = PNone, display_unit = PNone,
     selector = \<lparr>sel_patterns = [''*''], min_memory = None, max_memory = None, excluded_uuids = []\<rparr>,
     enabled = True, mode = FRACTIONAL, fraction_enforced = False, shares_per_device = 1,
     quantum_size = 5 / 100, allocation_strategy = ''fill'', hook_path = path_of ''/opt/labgpu/lib/libvgpu.so'',
     reserved_memory = 0, sm_limit = True, nvml = None, devices = None\<rparr>"

definition CUDAFracPlugin :: plugin where
  "CUDAFracPlugin = new_plugin ''cuda_frac'' (Some ''cuda'')"

definition GpuSlotPlugin :: "nat \<Rightarrow> plugin" where
  "GpuSlotPlugin n = new_plugin (''gpu_slot_'' @ nat_str n) None"

definition entry_points :: "plugin list" where
  "entry_points = CUDAFracPlugin # map GpuSlotPlugin [1, 2, 3, 4]"

text \<open>The host of the agent: its GPUs, the answer of Docker's system information (or aiodocker's
  \<open>DockerError\<close>), its files, whether the agent's device class takes a \<open>device_name\<close>, and
  the claim directory.\<close>

record agent_host =
  gpu_host :: nvml_host
  docker_info :: "pyval result"
  is_file :: "path \<Rightarrow> bool result"
  read_text :: "path \<Rightarrow> string result"
  takes_device_name :: bool
  claim_mkdir :: bool
  claim_writable :: "string \<Rightarrow> bool"
  agent_pid :: int

text \<open>\<open>cleanup\<close> closes the reader, if \<open>init\<close> has opened one; \<open>get_version\<close> is the package's.\<close>

definition cleanup :: "unit result \<Rightarrow> plugin \<Rightarrow> unit result" where
  "cleanup shut p = (case nvml p of None \<Rightarrow> Inr () | Some r \<Rightarrow> close_reader shut r)"

definition get_version :: string where
  "get_version = ''0.1.0''"

section \<open>Slots\<close>

definition slot_shares :: "plugin \<Rightarrow> string" where
  "slot_shares p = key p @ ''.shares''"

definition slot_device :: "plugin \<Rightarrow> string" where
  "slot_device p = key p @ ''.device''"

definition slot :: "plugin \<Rightarrow> string" where
  "slot p = (if mode p = FRACTIONAL then slot_shares p else slot_device p)"

definition is_fake :: "plugin \<Rightarrow> bool" where
  "is_fake p = (case nvml p of None \<Rightarrow> False | Some r \<Rightarrow> reader_is_fake r)"

definition set_slot_types :: "plugin \<Rightarrow> plugin" where
  "set_slot_types p = p\<lparr>slot_types := [(slot p, COUNT)], exclusive_slot_types := {slot_device p, slot_shares p}\<rparr>"

section \<open>Configuration\<close>

type_synonym settings = "(string, pyval) pydict"

definition allocation_mode :: "pyval \<Rightarrow> alloc_mode result" where
  "allocation_mode v = (if v = PStr ''fractional'' then Inr FRACTIONAL
     else if v = PStr ''discrete'' then Inr DISCRETE
     else Inl (ValueError (py_repr v @ '' is not a valid AllocationMode'')))"

text \<open>\<open>Decimal(v)\<close>. A setting is a text or a nested mapping; the literals for infinities and
  not-a-number are outside the model and refused like malformed ones.\<close>

definition to_decimal :: "pyval \<Rightarrow> rat result" where
  "to_decimal v = (case v of
     PStr s \<Rightarrow> (case py_decimal s of Some d \<Rightarrow> Inr d | None \<Rightarrow> Inl InvalidOperation)
   | PInt i \<Rightarrow> Inr (of_int i)
   | PBool b \<Rightarrow> Inr (if b then 1 else 0)
   | PFloat x \<Rightarrow> Inr x
   | PList _ \<Rightarrow> Inl (ValueError ''argument must be a sequence of length 3'')
   | _ \<Rightarrow> Inl (TypeError (''conversion from '' @ type_name v @ '' to Decimal is not supported'')))"

definition set_attr :: "'a result \<Rightarrow> ('a \<Rightarrow> 's \<Rightarrow> 's) \<Rightarrow> ('s, unit) effect" where
  "set_attr r f = bnd (lift r) (\<lambda>v. modify (f v))"

definition require :: "bool \<Rightarrow> string \<Rightarrow> ('s, unit) effect" where
  "require b text = (if b then ret () else lift (Inl (ValueError text)))"

definition read_key :: "settings \<Rightarrow> plugin \<Rightarrow> string result" where
  "read_key cfg p = (let raw_key = get_or (case default_key p of None \<Rightarrow> PNone | Some k \<Rightarrow> PStr k) cfg ''key'' in
     if \<not> truthy raw_key
     then Inl (PluginNotConfigured (entry_name p @ '': set config/plugins/accelerator/'' @ entry_name p @ ''/key to use it''))
     else validate_key (py_str raw_key))"

definition read_config :: "settings \<Rightarrow> (plugin, unit) effect" where
  "read_config cfg =
     bnd (gets (read_key cfg)) (\<lambda>k.
     bnd (set_attr k (\<lambda>v p. p\<lparr>key := v\<rparr>)) (\<lambda>_.
     bnd (set_attr (from_config cfg) (\<lambda>v p. p\<lparr>selector := v\<rparr>)) (\<lambda>_.
     bnd (modify (\<lambda>p. p\<lparr>display_name := get_or PNone cfg ''display_name''\<rparr>)) (\<lambda>_.
     bnd (modify (\<lambda>p. p\<lparr>display_unit := get_or PNone cfg ''display_unit''\<rparr>)) (\<lambda>_.
     bnd (set_attr (allocation_mode (get_or (PStr ''fractional'') cfg ''allocation_mode'')) (\<lambda>v p. p\<lparr>mode := v\<rparr>)) (\<lambda>_.
     bnd (set_attr (to_decimal (get_or (PStr ''1'') cfg ''shares_per_device'')) (\<lambda>v p. p\<lparr>shares_per_device := v\<rparr>)) (\<lambda>_.
     bnd (set_attr (to_decimal (get_or (PStr ''0.05'') cfg ''quantum_size'')) (\<lambda>v p. p\<lparr>quantum_size := v\<rparr>)) (\<lambda>_.
     bnd (modify (\<lambda>p. p\<lparr>allocation_strategy := lower (py_str (get_or (PStr ''fill'') cfg ''allocation_strategy''))\<rparr>)) (\<lambda>_.
     bnd (gets allocation_strategy) (\<lambda>strategy.
     bnd (require (strategy \<in> {''fill'', ''evenly''}) (''invalid allocation_strategy: '' @ strategy)) (\<lambda>_.
     bnd (set_attr (to_path (get_or (PStr ''/opt/labgpu/lib/libvgpu.so'') cfg ''hook_path'')) (\<lambda>v p. p\<lparr>hook_path := v\<rparr>)) (\<lambda>_.
     bnd (set_attr (int_value (get_or (PStr ''0'') cfg ''reserved_memory'')) (\<lambda>v p. p\<lparr>reserved_memory := v\<rparr>)) (\<lambda>_.
     bnd (modify (\<lambda>p. p\<lparr>sm_limit := lower (py_str (get_or (PStr ''true'') cfg ''sm_limit'')) \<in> {''1'', ''true'', ''yes''}\<rparr>)) (\<lambda>_.
     bnd (gets (\<lambda>p. 0 < shares_per_device p \<and> 0 < quantum_size p)) (\<lambda>positive.
       require positive ''shares_per_device and quantum_size must be positive'')))))))))))))))"

section \<open>Devices\<close>

definition sysfs_bus_id :: "string \<Rightarrow> string result" where
  "sysfs_bus_id nvml_bus_id = (case split_max (CHR '':'') 1 nvml_bus_id of
     [domain, rest] \<Rightarrow> Inr (lower (drop (length domain - 4) domain @ '':'' @ rest))
   | _ \<Rightarrow> Inl (ValueError ''not enough values to unpack (expected 2, got 1)''))"

definition numa_node :: "agent_host \<Rightarrow> string \<Rightarrow> int option result" where
  "numa_node h bus =
     (let r = rbind (sysfs_bus_id bus) (\<lambda>b.
        rbind (read_text h (path_of (''/sys/bus/pci/devices/'' @ b @ ''/numa_node''))) (\<lambda>numa_raw.
        int_value (PStr (strip numa_raw))))
      in case r of Inr n \<Rightarrow> Inr (if n < 0 then None else Some n)
         | Inl e \<Rightarrow> if is_os_error e \<or> is_value_error e then Inr None else Inl e)"

definition device_name_kwarg :: "agent_host \<Rightarrow> string \<Rightarrow> string option" where
  "device_name_kwarg h k = (if takes_device_name h then Some k else None)"

definition to_device :: "agent_host \<Rightarrow> string \<Rightarrow> gpu_info \<Rightarrow> cuda_device result" where
  "to_device h k g = rbind (numa_node h (pci_bus_id g)) (\<lambda>numa.
     Inr \<lparr>cd_model = name g, cd_uuid = uuid g, cd_id = int_str (index g), cd_hw_location = pci_bus_id g,
       cd_numa = numa, cd_memory = memory g, cd_units = PROCESSING_UNITS, cd_name = device_name_kwarg h k\<rparr>)"

definition list_devices :: "agent_host \<Rightarrow> (plugin, cuda_device list) effect" where
  "list_devices h = bnd (gets (\<lambda>p. p)) (\<lambda>p.
     if \<not> enabled p then ret [] else case nvml p of None \<Rightarrow> ret [] | Some r \<Rightarrow>
     (case devices p of Some ds \<Rightarrow> ret ds | None \<Rightarrow>
        bnd (lift (reader_list (gpu_host h) r)) (\<lambda>gpus.
        bnd (lift (traverse (to_device h (key p))
               (filter (\<lambda>g. matches (selector p) (name g) (memory g) (uuid g)) gpus))) (\<lambda>ds.
        bnd (modify (\<lambda>p. p\<lparr>devices := Some ds\<rparr>)) (\<lambda>_. ret ds)))))"

definition device_list :: "plugin \<Rightarrow> cuda_device list" where
  "device_list p = (case devices p of None \<Rightarrow> [] | Some ds \<Rightarrow> ds)"

definition device_map :: "plugin \<Rightarrow> (string, cuda_device) pydict" where
  "device_map p = dict_of (map (\<lambda>d. (cd_id d, d)) (device_list p))"

section \<open>Starting a plugin\<close>

definition contains_str :: "pyval \<Rightarrow> string \<Rightarrow> bool result" where
  "contains_str v s = (case v of
     PDict d \<Rightarrow> Inr (s \<in> set (dict_keys d))
   | PList xs \<Rightarrow> Inr (PStr s \<in> set xs)
   | PStr t \<Rightarrow> Inr (list_ex (\<lambda>n. startswith (drop n t) s) [0..<Suc (length t)])
   | _ \<Rightarrow> Inl (TypeError (''argument of type '' @ repr_str (type_name v) @ '' is not iterable'')))"

definition has_nvidia_runtime :: "agent_host \<Rightarrow> bool result" where
  "has_nvidia_runtime h = (case docker_info h of
     Inl e \<Rightarrow> if is_docker_error e then Inr False else Inl e
   | Inr i \<Rightarrow> rbind (get_item i ''Runtimes'' (PDict [])) (\<lambda>rs. contains_str rs ''nvidia''))"

text \<open>The agent process: one plugin at work and the claim directory all plugins share.\<close>

type_synonym agent = "plugin \<times> claims"

definition on_plugin :: "(plugin, 'a) effect \<Rightarrow> (agent, 'a) effect" where
  "on_plugin f s = (let (r, p) = f (fst s) in (r, (p, snd s)))"

definition claim :: "agent_host \<Rightarrow> string list \<Rightarrow> (agent, unit) effect" where
  "claim h uuids s = (let (r, cl) = claim_gpus (claim_mkdir h) (claim_writable h) (agent_pid h)
     (entry_name (fst s)) uuids (snd s) in (r, (fst s, cl)))"

definition disable :: "(agent, unit) effect" where
  "disable = on_plugin (modify (\<lambda>p. set_slot_types (p\<lparr>enabled := False\<rparr>)))"

definition check_hook :: "agent_host \<Rightarrow> (plugin, unit) effect" where
  "check_hook h = bnd (gets (\<lambda>p. p)) (\<lambda>p.
     if mode p = FRACTIONAL
     then bnd (lift (is_file h (hook_path p))) (\<lambda>found.
       if found then modify (\<lambda>p. p\<lparr>fraction_enforced := True\<rparr>)
       else modify (\<lambda>p. p\<lparr>mode := DISCRETE\<rparr>))
     else ret ())"

text \<open>What follows once the reader is open and usable.\<close>

definition init_devices :: "agent_host \<Rightarrow> (agent, unit) effect" where
  "init_devices h =
     bnd (catch (bnd (on_plugin (list_devices h)) (\<lambda>ds. ret (Some ds))) is_nvml_error
            (\<lambda>_. bnd disable (\<lambda>_. ret None))) (\<lambda>found. case found of
       None \<Rightarrow> ret ()
     | Some ds \<Rightarrow>
         bnd (claim h (map cd_uuid ds)) (\<lambda>_.
         bnd (on_plugin (check_hook h)) (\<lambda>_.
           on_plugin (modify set_slot_types))))"

definition init :: "agent_host \<Rightarrow> settings \<Rightarrow> (agent, unit) effect" where
  "init h plugin_config =
     bnd (on_plugin (read_config plugin_config)) (\<lambda>_.
     case open_reader (gpu_host h) of
       Inl e \<Rightarrow> if is_nvml_error e then disable else lift (Inl e)
     | Inr r \<Rightarrow>
         bnd (on_plugin (modify (\<lambda>p. p\<lparr>nvml := Some r\<rparr>))) (\<lambda>_.
         if reader_is_fake r then init_devices h
         else bnd (lift (has_nvidia_runtime h)) (\<lambda>runtime.
           if runtime then init_devices h else disable)))"

text \<open>Settings are read at \<open>init\<close> only.\<close>

definition update_plugin_config :: "settings \<Rightarrow> (plugin, unit) effect" where
  "update_plugin_config new_plugin_config = ret ()"

section \<open>Slots and allocation maps\<close>

definition available_slots :: "agent_host \<Rightarrow> (plugin, (string, rat) pydict) effect" where
  "available_slots h = bnd (list_devices h) (\<lambda>ds. bnd (gets (\<lambda>p. p)) (\<lambda>p.
     ret [(slot p, dec_mul (if mode p = FRACTIONAL then shares_per_device p else 1) (of_nat (length ds)))]))"

text \<open>The arguments of the agent's allocation maps: per device the kind of slot, its name and its
  amount, the mutually exclusive slots, and the strategy and quantum of a fractional map.\<close>

type_synonym device_slots = "(string, slot_kind \<times> string \<times> rat) pydict"

datatype alloc_strategy = FILL | EVENLY

datatype alloc_map =
    DiscretePropertyAllocMap (map_slots: device_slots) (map_exclusive: "string set")
  | FractionAllocMap (map_slots: device_slots) (map_exclusive: "string set") alloc_strategy rat

definition slots_of :: "string \<Rightarrow> rat \<Rightarrow> cuda_device list \<Rightarrow> device_slots" where
  "slots_of s amount ds = dict_of (map (\<lambda>d. (cd_id d, (COUNT, s, amount))) ds)"

definition create_alloc_map :: "agent_host \<Rightarrow> (plugin, alloc_map) effect" where
  "create_alloc_map h = bnd (list_devices h) (\<lambda>ds. bnd (gets (\<lambda>p. p)) (\<lambda>p.
     ret (if mode p = DISCRETE
       then DiscretePropertyAllocMap (slots_of (slot_device p) 1 ds) (exclusive_slot_types p)
       else FractionAllocMap (slots_of (slot_shares p) (shares_per_device p) ds) (exclusive_slot_types p)
              (if allocation_strategy p = ''fill'' then FILL else EVENLY) (quantum_size p))))"

text \<open>A discrete allocation is of whole devices, whatever its amount.\<close>

definition per_device :: "plugin \<Rightarrow> rat" where
  "per_device p = (if mode p = DISCRETE then 1 else shares_per_device p)"

definition granted :: "plugin \<Rightarrow> device_amounts \<Rightarrow> device_amounts" where
  "granted p amounts = filter (\<lambda>(d, _). d \<in> set (dict_keys (device_map p)))
     (if mode p = DISCRETE then map (\<lambda>(dev, _). (dev, 1)) (filter (\<lambda>(_, amt). 0 < amt) amounts) else amounts)"

definition limits :: "plugin \<Rightarrow> device_alloc \<Rightarrow> device_limit list result" where
  "limits p device_alloc =
     rbind (amounts_for_slot device_alloc (slot p)) (\<lambda>amounts.
       compute_limits (granted p amounts) (per_device p) (map (\<lambda>(d, dev). (d, cd_memory dev)) (device_map p))
         (map (\<lambda>(d, dev). (d, cd_uuid dev)) (device_map p)) (reserved_memory p))"

section \<open>Containers\<close>

definition docker_env :: "plugin \<Rightarrow> device_limit list \<Rightarrow> (string, string) pydict" where
  "docker_env p ls = (let e = [(''LABGPU_DEVICE_UUIDS'', join '','' (map lim_uuid ls))]
     in if fraction_enforced p then dict_update e (build_hami_environ ls (sm_limit p)) else e)"

definition docker_args :: "plugin \<Rightarrow> device_limit list \<Rightarrow> settings" where
  "docker_args p ls =
     (''Env'', PList (map (\<lambda>(k, v). PStr (k @ ''='' @ v)) (docker_env p ls))) #
     (if is_fake p then [] else
       [(''HostConfig'', PDict [(''DeviceRequests'', PList [PDict
          [(''Driver'', PStr ''nvidia''), (''DeviceIDs'', PList (map (PStr \<circ> lim_uuid) ls)),
           (''Capabilities'', DEVICE_CAPABILITIES)]])])])"

definition generate_docker_args :: "plugin \<Rightarrow> device_alloc \<Rightarrow> settings result" where
  "generate_docker_args p device_alloc = (if \<not> enabled p then Inr []
     else rbind (limits p device_alloc) (\<lambda>ls. if ls = [] then Inr [] else Inr (docker_args p ls)))"

definition get_hooks :: "plugin \<Rightarrow> path list" where
  "get_hooks p = (if enabled p \<and> fraction_enforced p then [hook_path p] else [])"

definition generate_resource_data :: "plugin \<Rightarrow> device_alloc \<Rightarrow> (string, string) pydict result" where
  "generate_resource_data p device_alloc = (if \<not> enabled p then Inr []
     else rbind (limits p device_alloc) (\<lambda>ls. Inr
       [(''CUDA_GLOBAL_DEVICE_IDS'', join '','' (map (\<lambda>l. int_str (local_index l) @ '':'' @ lim_device_id l) ls)),
        (''CUDA_RESOURCE_VIRTUALIZED'', if list_ex (\<lambda>l. \<not> is_whole l) ls then ''1'' else ''0'')]))"

record attached_device =
  at_device_id :: string
  at_model_name :: string
  at_smp :: int
  at_mem :: int

definition attached_of :: "(string, cuda_device) pydict \<Rightarrow> device_limit \<Rightarrow> attached_device result" where
  "attached_of devs l = rbind (lookup devs (lim_device_id l)) (\<lambda>dev. Inr
     \<lparr>at_device_id = cd_id dev, at_model_name = cd_model dev, at_smp = or_100 (sm_limit_percent l),
      at_mem = (case memory_limit_bytes l of None \<Rightarrow> cd_memory dev | Some m \<Rightarrow> if m = 0 then cd_memory dev else m)\<rparr>)"

definition get_attached_devices :: "plugin \<Rightarrow> device_alloc \<Rightarrow> attached_device list result" where
  "get_attached_devices p device_alloc =
     rbind (limits p device_alloc) (traverse (attached_of (device_map p)))"

text \<open>The allocation a restarted agent applies to the new map for a running container, whose
  recorded allocations are by key.\<close>

definition restore_from_container :: "plugin \<Rightarrow> (string, device_alloc) pydict option result \<Rightarrow>
    (string, device_amounts) pydict option result" where
  "restore_from_container p resource_spec = (if \<not> enabled p then Inr None
     else rbind resource_spec (\<lambda>spec. case spec of None \<Rightarrow> Inr None | Some allocations \<Rightarrow>
       rbind (amounts_for_slot (get_or (SlotMap []) allocations (key p)) (slot p)) (\<lambda>allocated.
         Inr (Some [(slot p, dict_of allocated)]))))"

definition get_docker_networks :: "plugin \<Rightarrow> device_alloc \<Rightarrow> string list" where
  "get_docker_networks p device_alloc = []"

definition generate_mounts :: "plugin \<Rightarrow> path \<Rightarrow> device_alloc \<Rightarrow> path list" where
  "generate_mounts p source_path device_alloc = []"

section \<open>Metadata\<close>

definition model_names :: "plugin \<Rightarrow> string list" where
  "model_names p = sort (remdups (map cd_model (device_list p)))"

definition bool_str :: "bool \<Rightarrow> string" where
  "bool_str b = (if b then ''true'' else ''false'')"

definition extra_info :: "agent_host \<Rightarrow> plugin \<Rightarrow> settings result" where
  "extra_info h p = (if \<not> enabled p then Inr [(''cuda_support'', PBool False)]
     else case nvml p of None \<Rightarrow> Inr [(''cuda_support'', PBool False)]
     | Some r \<Rightarrow>
       rbind (case driver_version (gpu_host h) r of
           Inl e \<Rightarrow> if is_nvml_error e then Inr ''unknown'' else Inl e | Inr v \<Rightarrow> Inr v) (\<lambda>driver. Inr
         [(''cuda_support'', PBool True), (''nvidia_version'', PStr driver), (''labgpu_mode'', PStr (mode_str (mode p))),
          (''labgpu_models'', PStr (join '','' (model_names p))), (''labgpu_fake'', PStr (bool_str (is_fake p))),
          (''fraction_enforced'', PStr (bool_str (fraction_enforced p)))]))"

fun keep_words :: "string list \<Rightarrow> string list" where
  "keep_words [] = []"
| "keep_words (w # ws) = (if list_ex is_digit w then [w] else w # keep_words ws)"

definition drop_rtx :: "string list \<Rightarrow> string list" where
  "drop_rtx ws = (case ws of w # v # vs \<Rightarrow> if w = ''RTX'' \<and> (v = ''PRO'' \<or> is_alpha (hd v)) then v # vs else ws | _ \<Rightarrow> ws)"

definition short_model_name :: "string \<Rightarrow> string" where
  "short_model_name model = concat (keep_words (drop_rtx (words (removeprefix (removeprefix model ''NVIDIA '') ''GeForce ''))))"

definition display_unit_of :: "plugin \<Rightarrow> string list \<Rightarrow> bool \<Rightarrow> pyval" where
  "display_unit_of p models fractional = (if truthy (display_unit p) then display_unit p
     else if key p = ''cuda'' then PStr (if fractional then ''fGPU'' else ''GPU'')
     else if length models = 1 then PStr (short_model_name (hd models)) else PStr (upper (key p)))"

definition human_readable_name :: "plugin \<Rightarrow> string list \<Rightarrow> bool \<Rightarrow> pyval" where
  "human_readable_name p models fractional = (if truthy (display_name p) then display_name p
     else if key p = ''cuda'' then PStr (if fractional then ''fGPU'' else ''GPU'')
     else if length models = 1 then PStr (removeprefix (hd models) ''NVIDIA '') else PStr (key p))"

definition get_metadata :: "plugin \<Rightarrow> settings" where
  "get_metadata p = (let models = model_names p; fractional = (mode p = FRACTIONAL);
       described = (if models = [] then ''none'' else join '', '' models)
     in [(''slot_name'', PStr (slot p)),
         (''human_readable_name'', human_readable_name p models fractional),
         (''description'', PStr (if fractional then ''Fractional GPU (HAMi-core enforced): '' @ described
            else ''CUDA GPU: '' @ described)),
         (''display_unit'', display_unit_of p models fractional),
         (''number_format'', PDict [(''binary'', PBool False), (''round_length'', PInt (if fractional then 2 else 0))]),
         (''display_icon'', PStr ''gpu1'')])"

section \<open>Statistics\<close>

definition snap_one :: "agent_host \<Rightarrow> int \<Rightarrow> (plugin, gpu_snapshot) effect" where
  "snap_one h i p = (case nvml p of None \<Rightarrow> (Inl (AttributeError ''snapshot''), p)
     | Some r \<Rightarrow> (let (s, r') = reader_snapshot (gpu_host h) i r in (s, p\<lparr>nvml := Some r'\<rparr>)))"

fun snap_all :: "agent_host \<Rightarrow> int list \<Rightarrow> (plugin, gpu_snapshot list) effect" where
  "snap_all h [] = ret []"
| "snap_all h (i # is) = bnd (snap_one h i) (\<lambda>s. bnd (snap_all h is) (\<lambda>ss. ret (s # ss)))"

definition snapshots :: "agent_host \<Rightarrow> (plugin, gpu_snapshot list) effect" where
  "snapshots h = bnd (gets (\<lambda>p. p)) (\<lambda>p.
     if \<not> enabled p \<or> nvml p = None then ret []
     else bnd (list_devices h) (\<lambda>ds.
       bnd (lift (traverse (\<lambda>d. int_value (PStr (cd_id d))) ds)) (\<lambda>indices.
       catch (snap_all h indices) is_nvml_error (\<lambda>_. ret []))))"

datatype metric_type = GAUGE | UTILIZATION | USAGE

record measurement =
  m_value :: int
  m_capacity :: int

record 'k measures =
  metric_key :: string
  metric_type :: metric_type
  unit_hint :: string
  stats_filter :: "string set"
  measured :: "('k, measurement) pydict"

record node_measures = "string measures" +
  per_node :: measurement

definition node_mem :: "gpu_snapshot list \<Rightarrow> (string, measurement) pydict" where
  "node_mem snaps = dict_of (map (\<lambda>s. (int_str (index (info s)), \<lparr>m_value = snap_used s, m_capacity = memory (info s)\<rparr>)) snaps)"

definition node_util :: "gpu_snapshot list \<Rightarrow> (string, measurement) pydict" where
  "node_util snaps = dict_of (map (\<lambda>s. (int_str (index (info s)), \<lparr>m_value = gpu_util s, m_capacity = 100\<rparr>)) snaps)"

definition gather_node_measures :: "agent_host \<Rightarrow> (plugin, node_measures list) effect" where
  "gather_node_measures h = bnd (snapshots h) (\<lambda>snaps. bnd (gets key) (\<lambda>k. ret
     [\<lparr>metric_key = k @ ''_mem'', metric_type = GAUGE, unit_hint = ''bytes'', stats_filter = {''max''},
       measured = node_mem snaps,
       per_node = \<lparr>m_value = sum_list (map snap_used snaps), m_capacity = sum_list (map (memory \<circ> info) snaps)\<rparr>\<rparr>,
      \<lparr>metric_key = k @ ''_util'', metric_type = UTILIZATION, unit_hint = ''percent'', stats_filter = {''avg'', ''max''},
       measured = node_util snaps,
       per_node = \<lparr>m_value = sum_list (map gpu_util snaps), m_capacity = int (length snaps) * 100\<rparr>\<rparr>]))"

text \<open>The three tallies of \<open>gather_container_measures\<close>: memory, utilisation and the GPUs of each
  container asked for.\<close>

record tallies =
  t_mem :: "(string, int) pydict"
  t_util :: "(string, int) pydict"
  t_gpus :: "(string, int list) pydict"

definition wanted_ids :: "string list \<Rightarrow> (string, string) pydict" where
  "wanted_ids container_ids = dict_of (map (\<lambda>c. (take 12 c, c)) container_ids)"

definition process_container :: "(int, string option) pydict \<Rightarrow> string list \<Rightarrow> int \<Rightarrow> string option" where
  "process_container pid_to_cid container_ids i = (case get_or None pid_to_cid i of
     None \<Rightarrow> None | Some c \<Rightarrow> if c = [] then None else dict_get (wanted_ids container_ids) (take 12 c))"

definition tally_process :: "(int, string option) pydict \<Rightarrow> string list \<Rightarrow> gpu_snapshot \<Rightarrow> gpu_process \<Rightarrow> tallies \<Rightarrow> tallies" where
  "tally_process pid_to_cid container_ids s pr t = (case process_container pid_to_cid container_ids (pid pr) of
     None \<Rightarrow> t
   | Some cid \<Rightarrow> \<lparr>t_mem = dict_set cid (get_or 0 (t_mem t) cid + proc_memory pr) (t_mem t),
        t_util = dict_set cid (get_or 0 (t_util t) cid + proc_sm pr) (t_util t),
        t_gpus = dict_set cid (List.insert (index (info s)) (get_or [] (t_gpus t) cid)) (t_gpus t)\<rparr>)"

definition tally :: "(int, string option) pydict \<Rightarrow> string list \<Rightarrow> gpu_snapshot list \<Rightarrow> tallies" where
  "tally pid_to_cid container_ids snaps =
     fold (\<lambda>s. fold (tally_process pid_to_cid container_ids s) (snap_processes s)) snaps \<lparr>t_mem = [], t_util = [], t_gpus = []\<rparr>"

definition container_mem :: "gpu_snapshot list \<Rightarrow> tallies \<Rightarrow> (string, measurement) pydict" where
  "container_mem snaps t = (let capacity_by_index = dict_of (map (\<lambda>s. (index (info s), memory (info s))) snaps)
     in map (\<lambda>(cid, used). (cid, \<lparr>m_value = used,
          m_capacity = sum_list (map (get_or 0 capacity_by_index) (get_or [] (t_gpus t) cid))\<rparr>)) (t_mem t))"

definition container_util :: "tallies \<Rightarrow> (string, measurement) pydict" where
  "container_util t = map (\<lambda>(cid, u). (cid, \<lparr>m_value = u, m_capacity = int (length (get_or [] (t_gpus t) cid)) * 100\<rparr>)) (t_util t)"

definition pids_of :: "agent_host \<Rightarrow> plugin \<Rightarrow> int list \<Rightarrow> (int, string option) pydict result" where
  "pids_of h p pids = (case nvml p of None \<Rightarrow> Inr [] | Some r \<Rightarrow> reader_pids (gpu_host h) r pids)"

definition gather_container_measures :: "agent_host \<Rightarrow> string list \<Rightarrow> (plugin, string measures list) effect" where
  "gather_container_measures h container_ids = bnd (snapshots h) (\<lambda>snaps. bnd (gets (\<lambda>p. p)) (\<lambda>p.
     bnd (lift (pids_of h p (concat (map (map pid \<circ> snap_processes) snaps)))) (\<lambda>pid_to_cid.
     let t = tally pid_to_cid container_ids snaps in ret
     [\<lparr>metric_key = key p @ ''_mem'', metric_type = USAGE, unit_hint = ''bytes'', stats_filter = {''max''},
       measured = container_mem snaps t\<rparr>,
      \<lparr>metric_key = key p @ ''_util'', metric_type = USAGE, unit_hint = ''percent'', stats_filter = {''avg'', ''max''},
       measured = container_util t\<rparr>])))"

definition gather_process_measures :: "plugin \<Rightarrow> (int \<times> string) list \<Rightarrow> string measures list" where
  "gather_process_measures p pid_map = []"

end
