(* ===== verification/Plugin_Init.thy ===== *)
theory Plugin_Init imports Plugin begin

text \<open>
  What the start of a plugin establishes: the slots it offers, when it may hand out
  fractions, what its devices are, and that plugins of one agent share no GPU.
\<close>

section \<open>Triples about normal returns\<close>

abbreviation post :: "('s \<Rightarrow> bool) \<Rightarrow> ('s, 'a) effect \<Rightarrow> ('a \<Rightarrow> 's \<Rightarrow> bool) \<Rightarrow> bool" where
  "post P f Q \<equiv> hoare P f Q (\<lambda>_ _. True)"

lemma post_set_attr: "(\<And>v s. r = Inr v \<Longrightarrow> P s \<Longrightarrow> Q () (f v s)) \<Longrightarrow> post P (set_attr r f) Q"
  by (cases r) (simp_all add: hoare_def set_attr_def bnd_def lift_def modify_def)

lemma post_modify: "(\<And>s. P s \<Longrightarrow> Q () (f s)) \<Longrightarrow> post P (modify f) Q"
  by (simp add: hoare_def modify_def)

lemma post_require: "(\<And>s. b \<Longrightarrow> P s \<Longrightarrow> Q () s) \<Longrightarrow> post P (require b t) Q"
  by (simp add: hoare_def require_def ret_def lift_def)

lemma post_gets: "(\<And>s. P s \<Longrightarrow> Q (f s) s) \<Longrightarrow> post P (gets f) Q"
  by (simp add: hoare_def gets_def)

lemma post_lift: "(\<And>x s. r = Inr x \<Longrightarrow> P s \<Longrightarrow> Q x s) \<Longrightarrow> post P (lift r) Q"
  by (cases r) (simp_all add: hoare_def lift_def)

lemma post_ret: "(\<And>s. P s \<Longrightarrow> Q x s) \<Longrightarrow> post P (ret x) Q"
  by (simp add: hoare_def ret_def)

lemmas post_rules = post_set_attr post_modify post_require post_gets post_lift post_ret

section \<open>Configuration\<close>

text \<open>What the rest of \<open>init\<close> has not touched yet.\<close>

definition fresh :: "string \<Rightarrow> plugin \<Rightarrow> bool" where
  "fresh e p = (entry_name p = e \<and> enabled p \<and> \<not> fraction_enforced p \<and> devices p = None)"

definition configured :: "plugin \<Rightarrow> bool" where
  "configured p = (0 < shares_per_device p \<and> 0 < quantum_size p \<and> allocation_strategy p \<in> {''fill'', ''evenly''})"

lemma read_config_post: "post (fresh e) (read_config cfg) (\<lambda>_ p. fresh e p \<and> configured p)"
  unfolding read_config_def
  apply (rule hoare_bnd [where R = "\<lambda>_. fresh e"], rule post_gets, assumption)
  apply (rule hoare_bnd [where R = "\<lambda>_. fresh e"], rule post_set_attr, simp add: fresh_def)+
  apply (rule hoare_bnd [where R = "\<lambda>_. fresh e"], rule post_modify, simp add: fresh_def)+
  apply (rule hoare_bnd [where R = "\<lambda>_. fresh e"], rule post_set_attr, simp add: fresh_def)+
  apply (rule hoare_bnd [where R = "\<lambda>_. fresh e"], rule post_modify, simp add: fresh_def)
  apply (rule hoare_bnd [where R = "\<lambda>s p. fresh e p \<and> allocation_strategy p = s"], rule post_gets, simp)
  apply (rule hoare_bnd [where R = "\<lambda>_ p. fresh e p \<and> allocation_strategy p \<in> {''fill'', ''evenly''}"], rule post_require, simp)
  apply (rule hoare_bnd [where R = "\<lambda>_ p. fresh e p \<and> allocation_strategy p \<in> {''fill'', ''evenly''}"], rule post_set_attr, simp add: fresh_def)+
  apply (rule hoare_bnd [where R = "\<lambda>_ p. fresh e p \<and> allocation_strategy p \<in> {''fill'', ''evenly''}"], rule post_modify, simp add: fresh_def)
  apply (rule hoare_bnd [where R = "\<lambda>b p. fresh e p \<and> allocation_strategy p \<in> {''fill'', ''evenly''} \<and> b = (0 < shares_per_device p \<and> 0 < quantum_size p)"], rule post_gets, simp)
  apply (rule post_require, simp add: configured_def)
  done


section \<open>Devices and claims\<close>

text \<open>The devices of a plugin: the GPUs its reader lists that its selector takes.\<close>

definition devices_of :: "agent_host \<Rightarrow> plugin \<Rightarrow> cuda_device list \<Rightarrow> bool" where
  "devices_of h p ds = (devices p = Some ds \<and> (\<exists>r gs. nvml p = Some r \<and> reader_list (gpu_host h) r = Inr gs \<and>
     traverse (to_device h (key p)) (filter (\<lambda>g. matches (selector p) (name g) (memory g) (uuid g)) gs) = Inr ds))"

definition opened :: "string \<Rightarrow> plugin \<Rightarrow> bool" where
  "opened e p = (fresh e p \<and> configured p \<and> nvml p \<noteq> None)"

definition listed :: "agent_host \<Rightarrow> string \<Rightarrow> cuda_device list \<Rightarrow> plugin \<Rightarrow> bool" where
  "listed h e ds p = (entry_name p = e \<and> enabled p \<and> \<not> fraction_enforced p \<and> configured p \<and> devices_of h p ds)"

lemma list_devices_fresh: "hoare (opened e) (list_devices h) (listed h e) (\<lambda>_. opened e)"
proof (rule hoareI)
  fix p ds p' assume o: "opened e p" and r: "list_devices h p = (Inr ds, p')"
  from o obtain rd where rd: "nvml p = Some rd" "enabled p" "devices p = None" by (auto simp: opened_def fresh_def)
  with r obtain gs where "reader_list (gpu_host h) rd = Inr gs"
      "traverse (to_device h (key p)) (filter (\<lambda>g. matches (selector p) (name g) (memory g) (uuid g)) gs) = Inr ds"
      "p' = p\<lparr>devices := Some ds\<rparr>"
    by (auto simp: list_devices_def bnd_def gets_def lift_def modify_def ret_def split: sum.splits)
  with o rd show "listed h e ds p'"
    by (simp add: listed_def devices_of_def opened_def fresh_def configured_def)
next
  fix p x p' assume o: "opened e p" and r: "list_devices h p = (Inl x, p')"
  from o r have "p' = p"
    by (auto simp: opened_def fresh_def list_devices_def bnd_def gets_def lift_def modify_def ret_def split: sum.splits)
  with o show "opened e p'" by simp
qed

lemma hoare_on_plugin: "hoare P f Q E \<Longrightarrow>
    hoare (\<lambda>s. P (fst s) \<and> snd s = cl) (on_plugin f) (\<lambda>x s. Q x (fst s) \<and> snd s = cl) (\<lambda>e s. E e (fst s) \<and> snd s = cl)"
  unfolding hoare_def on_plugin_def by (auto simp: case_prod_unfold Let_def split: sum.splits)

text \<open>What a call to \<open>claim_gpus\<close> of this process leaves alone: the GPUs already owned.\<close>

definition keeps_claims :: "agent_host \<Rightarrow> claims \<Rightarrow> claims \<Rightarrow> bool" where
  "keeps_claims h cl cl' = (\<forall>v w. claimed_by cl (agent_pid h) v = Some w \<longrightarrow> claimed_by cl' (agent_pid h) v = Some w)"

definition holds :: "agent_host \<Rightarrow> claims \<Rightarrow> string \<Rightarrow> cuda_device list \<Rightarrow> claims \<Rightarrow> bool" where
  "holds h cl e ds cl' = (keeps_claims h cl cl' \<and> (\<forall>u \<in> cd_uuid ` set ds.
     claimed_by cl (agent_pid h) u \<in> {None, Some e} \<and> claimed_by cl' (agent_pid h) u = Some e))"

lemma keeps_claims_refl [simp]: "keeps_claims h cl cl"
  by (simp add: keeps_claims_def)

lemma claim_holds: "hoare (\<lambda>s. listed h e ds (fst s) \<and> snd s = cl) (claim h (map cd_uuid ds))
    (\<lambda>_ s. listed h e ds (fst s) \<and> holds h cl e ds (snd s)) (\<lambda>_ s. keeps_claims h cl (snd s))"
proof (rule hoareI)
  fix s x s' assume l: "listed h e ds (fst s) \<and> snd s = cl" and r: "claim h (map cd_uuid ds) s = (Inr x, s')"
  from l have e: "entry_name (fst s) = e" by (simp add: listed_def)
  obtain cl' where c: "claim_gpus (claim_mkdir h) (claim_writable h) (agent_pid h) e (map cd_uuid ds) cl = (Inr (), cl')"
      and s': "s' = (fst s, cl')"
    using r l e by (auto simp: claim_def split: prod.splits)
  have "keeps_claims h cl cl'" unfolding keeps_claims_def by (blast intro: claim_gpus_keeps [OF c])
  moreover have "claimed_by cl (agent_pid h) u \<in> {None, Some e} \<and> claimed_by cl' (agent_pid h) u = Some e"
    if "u \<in> cd_uuid ` set ds" for u
    using claim_gpus_ok [OF c, of u] that by simp
  ultimately show "listed h e ds (fst s') \<and> holds h cl e ds (snd s')" using l by (simp add: s' holds_def)
next
  fix s x s' assume l: "listed h e ds (fst s) \<and> snd s = cl" and r: "claim h (map cd_uuid ds) s = (Inl x, s')"
  obtain cl' where c: "claim_gpus (claim_mkdir h) (claim_writable h) (agent_pid h) (entry_name (fst s)) (map cd_uuid ds) cl = (Inl x, cl')"
      and s': "s' = (fst s, cl')"
    using r l by (auto simp: claim_def split: prod.splits)
  show "keeps_claims h cl (snd s')" unfolding keeps_claims_def s' snd_conv by (blast intro: claim_gpus_keeps [OF c])
qed

section \<open>The whole start\<close>

definition started :: "agent_host \<Rightarrow> string \<Rightarrow> plugin \<Rightarrow> bool" where
  "started h e p = (entry_name p = e \<and> configured p \<and> slot_types p = [(slot p, COUNT)] \<and>
     exclusive_slot_types p = {slot_device p, slot_shares p} \<and>
     (fraction_enforced p \<longleftrightarrow> enabled p \<and> mode p = FRACTIONAL) \<and>
     (fraction_enforced p \<longrightarrow> is_file h (hook_path p) = Inr True) \<and>
     (enabled p \<longrightarrow> (\<exists>ds. devices_of h p ds)))"

definition start_ok :: "agent_host \<Rightarrow> string \<Rightarrow> claims \<Rightarrow> agent \<Rightarrow> bool" where
  "start_ok h e cl s = (started h e (fst s) \<and> keeps_claims h cl (snd s) \<and>
     (enabled (fst s) \<longrightarrow> (\<exists>ds. devices_of h (fst s) ds \<and> holds h cl e ds (snd s))))"

lemma set_slot_fields [simp]:
  "entry_name (set_slot_types p) = entry_name p" "enabled (set_slot_types p) = enabled p"
  "mode (set_slot_types p) = mode p" "key (set_slot_types p) = key p" "slot (set_slot_types p) = slot p"
  "slot_device (set_slot_types p) = slot_device p" "slot_shares (set_slot_types p) = slot_shares p"
  "configured (set_slot_types p) = configured p" "fraction_enforced (set_slot_types p) = fraction_enforced p"
  "hook_path (set_slot_types p) = hook_path p" "devices_of h (set_slot_types p) ds = devices_of h p ds"
  "slot_types (set_slot_types p) = [(slot p, COUNT)]"
  "exclusive_slot_types (set_slot_types p) = {slot_device p, slot_shares p}"
  by (simp_all add: set_slot_types_def slot_def slot_device_def slot_shares_def configured_def devices_of_def)

lemma disable_ok: "hoare (\<lambda>s. fresh e (fst s) \<and> configured (fst s) \<and> snd s = cl) disable (\<lambda>_. start_ok h e cl) E"
  by (auto simp: hoare_def disable_def on_plugin_def modify_def start_ok_def started_def fresh_def configured_def
      slot_def slot_device_def slot_shares_def set_slot_types_def)

lemma check_hook_ok: "post (listed h e ds) (check_hook h) (\<lambda>_ p. entry_name p = e \<and> enabled p \<and> configured p \<and>
    devices_of h p ds \<and> (fraction_enforced p \<longleftrightarrow> mode p = FRACTIONAL) \<and>
    (fraction_enforced p \<longrightarrow> is_file h (hook_path p) = Inr True))"
proof -
  have "mode p \<noteq> FRACTIONAL \<longleftrightarrow> mode p = DISCRETE" for p by (cases "mode p") simp_all
  then show ?thesis
    by (auto simp: hoare_def check_hook_def bnd_def gets_def lift_def modify_def ret_def listed_def configured_def
        devices_of_def split: sum.splits)
qed


lemma init_devices_ok: "hoare (\<lambda>s. opened e (fst s) \<and> snd s = cl) (init_devices h) (\<lambda>_. start_ok h e cl) (\<lambda>_ s. keeps_claims h cl (snd s))"
  (is "hoare ?O _ ?Q ?E")
  unfolding init_devices_def
proof (rule hoare_bnd)
  let ?R = "\<lambda>r s. case r of None \<Rightarrow> start_ok h e cl s | Some ds \<Rightarrow> listed h e ds (fst s) \<and> snd s = cl"
  show "hoare ?O (catch (bnd (on_plugin (list_devices h)) (\<lambda>ds. ret (Some ds))) is_nvml_error (\<lambda>_. bnd disable (\<lambda>_. ret None))) ?R ?E"
  proof (rule hoare_catch [where R = "\<lambda>_. ?O"])
    show "hoare ?O (bnd (on_plugin (list_devices h)) (\<lambda>ds. ret (Some ds))) ?R (\<lambda>x s. if is_nvml_error x then ?O s else ?E x s)"
    proof (rule hoare_bnd)
      show "hoare ?O (on_plugin (list_devices h)) (\<lambda>ds s. listed h e ds (fst s) \<and> snd s = cl)
          (\<lambda>x s. if is_nvml_error x then ?O s else ?E x s)"
        by (rule hoare_conseq [OF hoare_on_plugin [OF list_devices_fresh]]) auto
      show "hoare (\<lambda>s. listed h e ds (fst s) \<and> snd s = cl) (ret (Some ds)) ?R (\<lambda>x s. if is_nvml_error x then ?O s else ?E x s)" for ds
        by (rule hoare_pre [OF hoare_ret]) simp
    qed
    show "hoare ?O (bnd disable (\<lambda>_. ret None)) ?R ?E"
    proof (rule hoare_bnd)
      show "hoare ?O disable (\<lambda>_. start_ok h e cl) ?E"
        by (rule hoare_pre [OF disable_ok]) (simp add: opened_def)
      show "hoare (start_ok h e cl) (ret None) ?R ?E" by (rule hoare_pre [OF hoare_ret]) simp
    qed
  qed
  show "hoare (?R r) (case r of None \<Rightarrow> ret () | Some ds \<Rightarrow> bnd (claim h (map cd_uuid ds)) (\<lambda>_.
      bnd (on_plugin (check_hook h)) (\<lambda>_. on_plugin (modify set_slot_types)))) ?Q ?E" for r
  proof (cases r)
    case None
    then show ?thesis using hoare_ret [of "?Q"] by simp
  next
    case (Some ds)
    let ?C = "\<lambda>_ s. listed h e ds (fst s) \<and> holds h cl e ds (snd s)"
    let ?H = "\<lambda>_ s. (entry_name (fst s) = e \<and> enabled (fst s) \<and> configured (fst s) \<and> devices_of h (fst s) ds \<and>
       (fraction_enforced (fst s) \<longleftrightarrow> mode (fst s) = FRACTIONAL) \<and>
       (fraction_enforced (fst s) \<longrightarrow> is_file h (hook_path (fst s)) = Inr True)) \<and> holds h cl e ds (snd s)"
    have "hoare (?C ()) (on_plugin (check_hook h)) ?H ?E"
    proof (rule hoareI)
      fix s x s' assume c: "?C () s" "on_plugin (check_hook h) s = (Inr x, s')"
      then have "listed h e ds (fst s) \<and> snd s = snd s" by simp
      from hoareD(1) [OF hoare_on_plugin [OF check_hook_ok] this c(2)] c(1) show "?H x s'" by simp
    next
      fix s x s' assume c: "?C () s" "on_plugin (check_hook h) s = (Inl x, s')"
      then have "listed h e ds (fst s) \<and> snd s = snd s" by simp
      from hoareD(2) [OF hoare_on_plugin [OF check_hook_ok] this c(2)] c(1) show "?E x s'" by (simp add: holds_def)
    qed
    moreover have "hoare (?H ()) (on_plugin (modify set_slot_types)) ?Q ?E"
      by (auto simp: hoare_def on_plugin_def modify_def start_ok_def started_def holds_def)
    ultimately have "hoare (?C ()) (bnd (on_plugin (check_hook h)) (\<lambda>_. on_plugin (modify set_slot_types))) ?Q ?E"
      by (rule hoare_bnd)
    with claim_holds have "hoare (\<lambda>s. listed h e ds (fst s) \<and> snd s = cl) (bnd (claim h (map cd_uuid ds)) (\<lambda>_.
        bnd (on_plugin (check_hook h)) (\<lambda>_. on_plugin (modify set_slot_types)))) ?Q ?E"
      by (rule hoare_bnd)
    then show ?thesis using Some by simp
  qed
qed

lemma init_ok: "hoare (\<lambda>s. fresh e (fst s) \<and> snd s = cl) (init h cfg) (\<lambda>_. start_ok h e cl) (\<lambda>_ s. keeps_claims h cl (snd s))"
  (is "hoare ?P _ ?Q ?E")
  unfolding init_def
proof (rule hoare_bnd)
  let ?F = "\<lambda>_ s. (fresh e (fst s) \<and> configured (fst s)) \<and> snd s = cl"
  show "hoare ?P (on_plugin (read_config cfg)) ?F ?E"
    by (rule hoare_conseq [OF hoare_on_plugin [OF read_config_post]]) auto
  have dis: "hoare (?F ()) disable ?Q ?E" by (rule hoare_pre [OF disable_ok]) simp
  show "hoare (?F u) (case open_reader (gpu_host h) of
      Inl x \<Rightarrow> if is_nvml_error x then disable else lift (Inl x)
    | Inr r \<Rightarrow> bnd (on_plugin (modify (\<lambda>p. p\<lparr>nvml := Some r\<rparr>))) (\<lambda>_.
        if reader_is_fake r then init_devices h
        else bnd (lift (has_nvidia_runtime h)) (\<lambda>runtime. if runtime then init_devices h else disable))) ?Q ?E" for u
  proof (cases "open_reader (gpu_host h)")
    case (Inl x)
    have "hoare (?F ()) (lift (Inl x)) ?Q ?E" by (rule hoare_pre [OF hoare_lift]) auto
    with dis Inl show ?thesis by simp
  next
    case (Inr r)
    let ?O = "\<lambda>s. opened e (fst s) \<and> snd s = cl"
    have "hoare (?F ()) (on_plugin (modify (\<lambda>p. p\<lparr>nvml := Some r\<rparr>))) (\<lambda>_. ?O) ?E"
      by (auto simp: hoare_def on_plugin_def modify_def opened_def fresh_def configured_def)
    moreover have "hoare ?O (bnd (lift (has_nvidia_runtime h)) (\<lambda>runtime. if runtime then init_devices h else disable)) ?Q ?E"
    proof (rule hoare_bnd)
      show "hoare ?O (lift (has_nvidia_runtime h)) (\<lambda>_. ?O) ?E" by (rule hoare_pre [OF hoare_lift]) auto
      have "hoare ?O disable ?Q ?E" by (rule hoare_pre [OF disable_ok]) (simp add: opened_def)
      then show "hoare ?O (if b then init_devices h else disable) ?Q ?E" for b using init_devices_ok by simp
    qed
    ultimately show ?thesis unfolding Inr using init_devices_ok by (auto intro: hoare_bnd)
  qed
qed

end
