(* ===== verification/Plugin_Safety.thy ===== *)
theory Plugin_Safety imports Plugin_Init begin

text \<open>
  What a plugin promises the agent once its \<open>init\<close> has returned: no fraction without
  enforcement, the capacity of its allocation map, nothing at all when it is disabled, and
  no GPU taken by two plugins.
\<close>

lemma fresh_new [simp]: "fresh e (new_plugin e dk)"
  by (simp add: fresh_def new_plugin_def)

lemma init_started: "init h cfg (new_plugin e dk, cl) = (Inr (), (p, cl')) \<Longrightarrow> start_ok h e cl (p, cl')"
  using hoareD(1) [OF init_ok, of e "(new_plugin e dk, cl)" cl h cfg "()" "(p, cl')"] by simp

lemma init_keeps_claims: "init h cfg (new_plugin e dk, cl) = (r, (p, cl')) \<Longrightarrow> keeps_claims h cl cl'"
  using hoareD [OF init_ok, of e "(new_plugin e dk, cl)" cl h cfg _ "(p, cl')"]
  by (cases r) (auto simp: start_ok_def)

section \<open>Devices\<close>

lemma to_device_fields: "to_device h k g = Inr d \<Longrightarrow> cd_uuid d = uuid g \<and> cd_id d = int_str (index g) \<and>
    cd_memory d = memory g \<and> cd_model d = name g"
  by (auto simp: to_device_def rbind_Inr_iff)

lemma traverse_map_fields:
  assumes "traverse f xs = Inr ys" and "\<And>x y. f x = Inr y \<Longrightarrow> F y = G x"
  shows "map F ys = map G xs"
  using assms(1) unfolding traverse_Inr_iff
  by (induction rule: list_all2_induct) (simp_all add: assms(2))

lemma to_devices: "traverse (to_device h k) gs = Inr ds \<Longrightarrow>
    map (\<lambda>d. (cd_id d, cd_uuid d, cd_model d, cd_memory d)) ds = map (\<lambda>g. (int_str (index g), uuid g, name g, memory g)) gs"
  unfolding traverse_Inr_iff by (induction rule: list_all2_induct) (auto simp: to_device_def rbind_Inr_iff)

lemma devices_distinct:
  assumes "devices_of h p ds"
  shows "distinct (map cd_id ds)" "device_list p = ds"
proof -
  let ?take = "\<lambda>g. matches (selector p) (name g) (memory g) (uuid g)"
  from assms obtain r gs where gs: "reader_list (gpu_host h) r = Inr gs"
    and ds: "traverse (to_device h (key p)) (filter ?take gs) = Inr ds" by (auto simp: devices_of_def)
  have "distinct (map index gs)"
    using reader_list_index [OF gs] by (auto simp: distinct_conv_nth)
  then have "distinct (map index (filter ?take gs))" by (rule distinct_map_filter)
  then have "distinct (map (\<lambda>g. int_str (index g)) (filter ?take gs))"
    unfolding distinct_map by (auto intro: inj_onI dest: inj_onD int_str_inj)
  moreover have "map cd_id ds = map (\<lambda>g. int_str (index g)) (filter ?take gs)"
    using ds by (rule traverse_map_fields) (simp add: to_device_fields)
  ultimately show "distinct (map cd_id ds)" by simp
  show "device_list p = ds" using assms by (simp add: devices_of_def device_list_def)
qed

lemma device_map_id: "devices_of h p ds \<Longrightarrow> device_map p = map (\<lambda>d. (cd_id d, d)) ds"
  using devices_distinct by (simp add: device_map_def dict_of_id comp_def)

lemma list_devices_cached: "devices_of h p ds \<Longrightarrow> enabled p \<Longrightarrow> list_devices h p = (Inr ds, p)"
  by (auto simp: devices_of_def list_devices_def bnd_def gets_def ret_def)

lemma list_devices_disabled: "\<not> enabled p \<Longrightarrow> list_devices h p = (Inr [], p)"
  by (simp add: list_devices_def bnd_def gets_def ret_def)

section \<open>Limits of a container\<close>

lemma limits_discrete_whole:
  assumes "limits p alloc = Inr ls" "mode p = DISCRETE" "l \<in> set ls"
  shows "is_whole l"
proof -
  from assms(1,2) obtain raw totals uuids where
    c: "compute_limits (granted p raw) 1 totals uuids (reserved_memory p) = Inr ls"
    by (auto simp: limits_def per_device_def rbind_Inr_iff)
  obtain active where a: "active_devices (granted p raw) = Inr active" using compute_limits_ok_active [OF c] ..
  from assms(3) obtain i where i: "i < length ls" "l = ls ! i" by (auto simp: in_set_conv_nth)
  have "i < length active" using i(1) compute_limits_nth(1) [OF c a] by simp
  from compute_limits_nth(2) [OF c a this] obtain u s t where
      s: "dict_get (granted p raw) (active ! i) = Some s"
    and l: "compute_limit (int i) (active ! i) u s 1 t (reserved_memory p) = Inr l"
    unfolding i(2) [symmetric] by blast
  from s have "(active ! i, s) \<in> set (granted p raw)" by (rule map_of_SomeD)
  then have "s = 1" using assms(2) by (auto simp: granted_def)
  then show ?thesis using compute_limit_fields(7) [OF l] by (simp add: dec_div_def)
qed

lemma limits_indices: "limits p alloc = Inr ls \<Longrightarrow> distinct (map local_index ls)"
  by (auto simp: limits_def rbind_Inr_iff intro: compute_limits_distinct_index)


section \<open>An agent with two simulated GPUs\<close>

definition demo_gpus :: pyval where
  "demo_gpus = PDict [(''gpus'', PList [
     PDict [(''uuid'', PStr ''GPU-a''), (''name'', PStr ''NVIDIA RTX PRO 6000''), (''memory'', PInt 103079215104)],
     PDict [(''uuid'', PStr ''GPU-b''), (''name'', PStr ''NVIDIA RTX A6000''), (''memory'', PInt 51539607552)]])]"

definition demo_host :: agent_host where
  "demo_host = \<lparr>gpu_host = \<lparr>environ = [(''LABGPU_FAKE_NVML'', ''/tmp/gpus.json'')], lib_present = False, lib_init = None,
       lib_driver = Inl [], lib_devices = Inl [], lib_device = \<lambda>_. Inl [], fake_text = \<lambda>_. Inr demo_gpus,
       cgroup_text = \<lambda>_. Inl (OSError [])\<rparr>,
     docker_info = Inl (DockerError []), is_file = \<lambda>_. Inr True, read_text = \<lambda>_. Inl (OSError []),
     takes_device_name = True, claim_mkdir = True, claim_writable = \<lambda>_. True, agent_pid = 7\<rparr>"

definition demo_start :: "unit result \<times> agent" where
  "demo_start = init demo_host [] (CUDAFracPlugin, Map.empty)"

definition demo_device :: "string \<Rightarrow> string \<Rightarrow> string \<Rightarrow> int \<Rightarrow> string \<Rightarrow> cuda_device" where
  "demo_device i u model mem bus = \<lparr>cd_model = model, cd_uuid = u, cd_id = i, cd_hw_location = bus, cd_numa = None,
     cd_memory = mem, cd_units = 100, cd_name = Some ''cuda''\<rparr>"

definition demo_plugin :: plugin where
  "demo_plugin = \<lparr>entry_name = ''cuda_frac'', default_key = Some ''cuda'', key = ''cuda'',
     slot_types = [(''cuda.shares'', COUNT)], exclusive_slot_types = {''cuda.device'', ''cuda.shares''},
     display_name = PNone, display_unit = PNone,
     selector = \<lparr>sel_patterns = [''*''], min_memory = None, max_memory = None, excluded_uuids = []\<rparr>,
     enabled = True, mode = FRACTIONAL, fraction_enforced = True, shares_per_device = 1, quantum_size = 1 / 20,
     allocation_strategy = ''fill'', hook_path = Path 1 [''opt'', ''labgpu'', ''lib'', ''libvgpu.so''],
     reserved_memory = 0, sm_limit = True, nvml = Some (FakeReader ''/tmp/gpus.json''),
     devices = Some [demo_device ''0'' ''GPU-a'' ''NVIDIA RTX PRO 6000'' 103079215104 ''00000000:10:00.0'',
       demo_device ''1'' ''GPU-b'' ''NVIDIA RTX A6000'' 51539607552 ''00000000:11:00.0'']\<rparr>"

definition demo_alloc :: device_alloc where
  "demo_alloc = SlotMap [(''cuda.shares'', [(''1'', 1 / 2)])]"

lemma demo_init: "init demo_host [] (new_plugin ''cuda_frac'' (Some ''cuda''), Map.empty) = (Inr (), (demo_plugin, snd (snd demo_start)))"
proof -
  have "fst demo_start = Inr () \<and> fst (snd demo_start) = demo_plugin" by code_simp
  then show ?thesis by (metis CUDAFracPlugin_def demo_start_def prod.collapse)
qed

lemma demo_fields [simp]: "enabled demo_plugin" "slot demo_plugin = ''cuda.shares''" "per_device demo_plugin = 1"
  "device_map demo_plugin = map (\<lambda>d. (cd_id d, d)) (device_list demo_plugin)"
  "map cd_id (device_list demo_plugin) = [''0'', ''1'']" "reserved_memory demo_plugin = 0"
  by (simp_all add: demo_plugin_def slot_def slot_shares_def per_device_def device_map_def device_list_def demo_device_def dict_of_def dict_update_def)

lemma demo_limit: "\<exists>l. limits demo_plugin demo_alloc = Inr [l] \<and> \<not> is_whole l \<and> lim_uuid l = ''GPU-b''"
proof -
  have parts: "amounts_for_slot demo_alloc ''cuda.shares'' = Inr [(''1'', 1 / 2)]" "sort_devices [''1''] = Inr [''1'']"
      "granted demo_plugin [(''1'', 1 / 2)] = [(''1'', 1 / 2)]"
    by code_simp+
  show ?thesis
    unfolding limits_def demo_fields parts rbind.simps
    by (simp add: parts compute_limits_def lookup_def compute_limit_def share_fraction_def dec_div_half is_whole_def
        demo_plugin_def device_list_def demo_device_def)
qed

lemma demo_limits: obtains l where "limits demo_plugin demo_alloc = Inr [l]" "\<not> is_whole l"
  using demo_limit by blast

section \<open>Properties\<close>

lemma start_enforced:
  assumes "started h e p"
  shows "fraction_enforced p \<longleftrightarrow> enabled p \<and> mode p = FRACTIONAL"
    and "fraction_enforced p \<Longrightarrow> get_hooks p = [hook_path p] \<and> is_file h (hook_path p) = Inr True"
  using assms by (auto simp: started_def get_hooks_def)

lemma hami_environ_distinct: "distinct (dict_keys (build_hami_environ ls sm))"
proof -
  have "distinct (dict_keys (fold (\<lambda>dl env. dict_set (limit_key (local_index dl))
      (format_mib (the (memory_limit_bytes dl))) env) fs e))" if "distinct (dict_keys e)"
      for fs :: "device_limit list" and e
    using that by (induction fs arbitrary: e) (simp_all add: distinct_update)
  then have "distinct (dict_keys (memory_env fs))" for fs
    by (simp only: memory_env_def list.map(1) distinct.simps(1))
  then show ?thesis by (auto simp: build_hami_environ_eq Let_def intro!: distinct_update)
qed

lemma docker_env_limit:
  assumes "limits p alloc = Inr ls" "l \<in> set ls" "memory_limit_bytes l = Some m" "fraction_enforced p"
  shows "(limit_key (local_index l), format_mib m) \<in> set (docker_env p ls)"
proof -
  let ?h = "build_hami_environ ls (sm_limit p)"
  have "dict_get ?h (limit_key (local_index l)) = Some (format_mib m)"
    by (rule hami_memory_entry [OF limits_indices [OF assms(1)] assms(2,3)])
  with hami_environ_distinct have "map_of (rev ?h) (limit_key (local_index l)) = Some (format_mib m)"
    by (simp add: distinct_map_of_rev)
  then have "dict_get (docker_env p ls) (limit_key (local_index l)) = Some (format_mib m)"
    using assms(4) by (simp add: docker_env_def dict_get_update)
  then show ?thesis by (rule map_of_SomeD)
qed

text \<open>C12: no container ever gets a fraction that is not enforced. Once a plugin's \<open>init\<close> has
  returned, whatever its settings and host, the arguments it generates for a container give
  every GPU of the allocation either as a whole or with its memory limit in the
  environment, and in the latter case the enforcement library is handed to the agent as a
  hook and was found on the host. The slot announced is that of the mode in force.\<close>

theorem fractions_always_enforced:
  assumes "init h cfg (new_plugin e dk, cl) = (Inr (), (p, cl'))"
    and "generate_docker_args p alloc = Inr args" "limits p alloc = Inr ls" "enabled p" "l \<in> set ls"
  shows "slot_types p = [(slot p, COUNT)] \<and>
    (is_whole l \<or> (\<exists>m vars. memory_limit_bytes l = Some m \<and> dict_get args ''Env'' = Some (PList vars) \<and>
       PStr (limit_key (local_index l) @ ''='' @ format_mib m) \<in> set vars \<and>
       get_hooks p = [hook_path p] \<and> is_file h (hook_path p) = Inr True))"
proof -
  have st: "started h e p" using init_started [OF assms(1)] by (simp add: start_ok_def)
  have "is_whole l \<or> (\<exists>m. memory_limit_bytes l = Some m \<and> fraction_enforced p)"
    using limits_discrete_whole [OF assms(3) _ assms(5)] start_enforced(1) [OF st] assms(4)
    by (cases "mode p") (auto simp: is_whole_def)
  moreover have "\<exists>vars. dict_get args ''Env'' = Some (PList vars) \<and>
      PStr (limit_key (local_index l) @ ''='' @ format_mib m) \<in> set vars"
    if "memory_limit_bytes l = Some m" "fraction_enforced p" for m
  proof -
    have "args = docker_args p ls" using assms(2-5) by (auto simp: generate_docker_args_def split: if_splits)
    then show ?thesis using docker_env_limit [OF assms(3,5) that] by (force simp: docker_args_def)
  qed
  ultimately show ?thesis
    using start_enforced(2) [OF st] st by (auto simp: started_def)
qed

theorem fractions_always_enforced_witness:
  "\<exists>l m vars args. limits demo_plugin demo_alloc = Inr [l] \<and> memory_limit_bytes l = Some m \<and>
     generate_docker_args demo_plugin demo_alloc = Inr args \<and> dict_get args ''Env'' = Some (PList vars) \<and>
     PStr (limit_key (local_index l) @ ''='' @ format_mib m) \<in> set vars \<and> get_hooks demo_plugin = [hook_path demo_plugin]"
proof -
  obtain l where l: "limits demo_plugin demo_alloc = Inr [l]" "\<not> is_whole l" by (rule demo_limits)
  then obtain args where a: "generate_docker_args demo_plugin demo_alloc = Inr args"
    by (simp add: generate_docker_args_def)
  have "l \<in> set [l]" by simp
  from fractions_always_enforced [OF demo_init a l(1) demo_fields(1) this] l a show ?thesis by blast
qed

lemma devices_taken:
  assumes "devices_of h p ds" "enabled p"
  obtains r gs where "nvml p = Some r" "reader_list (gpu_host h) r = Inr gs"
    "map (\<lambda>d. (cd_id d, cd_uuid d, cd_model d, cd_memory d)) ds =
     map (\<lambda>g. (int_str (index g), uuid g, name g, memory g)) (filter (\<lambda>g. matches (selector p) (name g) (memory g) (uuid g)) gs)"
proof -
  from assms(1) obtain r gs where r: "nvml p = Some r" "reader_list (gpu_host h) r = Inr gs"
    and ds: "traverse (to_device h (key p)) (filter (\<lambda>g. matches (selector p) (name g) (memory g) (uuid g)) gs) = Inr ds"
    by (auto simp: devices_of_def)
  show thesis by (rule that [OF r to_devices [OF ds]])
qed

text \<open>C27: the capacity a plugin announces is that of its allocation map. After \<open>init\<close> an enabled
  plugin's devices are exactly the GPUs its reader lists and its selector takes, in their
  order, each with its index, UUID, model and memory, under pairwise different identifiers;
  its map has exactly these devices, each with the slot and the amount of the mode in force,
  and the available slots are the sum of the amounts, rounded as decimals are.\<close>

theorem capacity_of_alloc_map:
  assumes "init h cfg (new_plugin e dk, cl) = (Inr (), (p, cl'))" "enabled p"
  shows "\<exists>r gs ds m total. nvml p = Some r \<and> reader_list (gpu_host h) r = Inr gs \<and>
    map (\<lambda>d. (cd_id d, cd_uuid d, cd_model d, cd_memory d)) ds =
      map (\<lambda>g. (int_str (index g), uuid g, name g, memory g)) (filter (\<lambda>g. matches (selector p) (name g) (memory g) (uuid g)) gs) \<and>
    list_devices h p = (Inr ds, p) \<and> create_alloc_map h p = (Inr m, p) \<and>
    available_slots h p = (Inr [(slot p, total)], p) \<and> distinct (map cd_id ds) \<and>
    map_slots m = map (\<lambda>d. (cd_id d, (COUNT, slot p, per_device p))) ds \<and>
    total = dec_rnd (sum_list (map (\<lambda>(_, _, _, amount). amount) (map_slots m))) \<and>
    map_exclusive m = {slot_device p, slot_shares p} \<and> 0 < per_device p"
proof -
  from init_started [OF assms(1)] assms(2) obtain ds where ds: "devices_of h p ds" and st: "started h e p"
    by (auto simp: start_ok_def)
  note l = list_devices_cached [OF ds assms(2)] and d = devices_distinct(1) [OF ds]
  obtain r gs where taken: "nvml p = Some r" "reader_list (gpu_host h) r = Inr gs"
    "map (\<lambda>d. (cd_id d, cd_uuid d, cd_model d, cd_memory d)) ds =
     map (\<lambda>g. (int_str (index g), uuid g, name g, memory g)) (filter (\<lambda>g. matches (selector p) (name g) (memory g) (uuid g)) gs)"
    by (rule devices_taken [OF ds assms(2)])
  let ?m = "\<lambda>s a. map (\<lambda>d. (cd_id d, (COUNT, s, a))) ds"
  have slots: "slots_of s a ds = ?m s a" for s a
    using d by (simp add: slots_of_def dict_of_id comp_def)
  have sum: "sum_list (map (\<lambda>(_, _, _, amount). amount) (?m s a)) = a * of_nat (length ds)" for s and a :: rat
    by (simp add: comp_def sum_list_triv)
  obtain m where m: "create_alloc_map h p = (Inr m, p)" "map_slots m = ?m (slot p) (per_device p)"
      "map_exclusive m = {slot_device p, slot_shares p}"
    using l st
    by (cases "mode p") (simp_all add: create_alloc_map_def bnd_def gets_def ret_def slots slot_def per_device_def started_def)
  have a: "available_slots h p = (Inr [(slot p, dec_rnd (per_device p * of_nat (length ds)))], p)"
    using l by (cases "mode p") (simp_all add: available_slots_def bnd_def gets_def ret_def dec_mul_def per_device_def)
  have "0 < per_device p" using st by (simp add: per_device_def started_def configured_def)
  moreover have "dec_rnd (per_device p * of_nat (length ds)) =
      dec_rnd (sum_list (map (\<lambda>(_, _, _, amount). amount) (map_slots m)))"
    by (simp only: m(2) sum)
  ultimately show ?thesis using l m a d taken
    by (intro exI [of _ r] exI [of _ gs] exI [of _ ds] exI [of _ m] exI [of _ "dec_rnd (per_device p * of_nat (length ds))"]) (intro conjI)
qed


theorem capacity_of_alloc_map_witness:
  "\<exists>m total. create_alloc_map demo_host demo_plugin = (Inr m, demo_plugin) \<and> map fst (map_slots m) = [''0'', ''1''] \<and>
     available_slots demo_host demo_plugin = (Inr [(''cuda.shares'', total)], demo_plugin) \<and>
     total = dec_rnd (sum_list (map (\<lambda>(_, _, _, amount). amount) (map_slots m)))"
proof -
  from capacity_of_alloc_map [OF demo_init demo_fields(1)] obtain m total where
    m: "create_alloc_map demo_host demo_plugin = (Inr m, demo_plugin)"
    and t: "available_slots demo_host demo_plugin = (Inr [(slot demo_plugin, total)], demo_plugin)"
      "total = dec_rnd (sum_list (map (\<lambda>(_, _, _, amount). amount) (map_slots m)))" by blast
  have "map_sum id (map fst \<circ> map_slots) (fst (create_alloc_map demo_host demo_plugin)) = Inr [''0'', ''1'']" by code_simp
  then have "map fst (map_slots m) = [''0'', ''1'']" using m by simp
  then show ?thesis using m t demo_fields(2) by metis
qed

text \<open>The host offers no usable GPU: NVML cannot be opened, or Docker lacks the runtime.\<close>

definition no_gpus :: "agent_host \<Rightarrow> bool" where
  "no_gpus h = (case open_reader (gpu_host h) of Inl e \<Rightarrow> is_nvml_error e
     | Inr r \<Rightarrow> \<not> reader_is_fake r \<and> has_nvidia_runtime h = Inr False)"

lemma init_without_gpus:
  assumes "read_config cfg p = (Inr (), p1)" "no_gpus h"
  shows "\<exists>p2. init h cfg (p, cl) = (Inr (), (set_slot_types (p2\<lparr>enabled := False\<rparr>), cl)) \<and> fraction_enforced p2 = fraction_enforced p1"
proof (cases "open_reader (gpu_host h)")
  case (Inl e)
  then have "init h cfg (p, cl) = (Inr (), (set_slot_types (p1\<lparr>enabled := False\<rparr>), cl))"
    using assms by (simp add: init_def no_gpus_def bnd_def on_plugin_def disable_def modify_def)
  then show ?thesis by blast
next
  case (Inr r)
  then have "init h cfg (p, cl) = (Inr (), (set_slot_types (p1\<lparr>nvml := Some r, enabled := False\<rparr>), cl))"
    using assms by (simp add: init_def no_gpus_def bnd_def on_plugin_def disable_def modify_def lift_def)
  then show ?thesis by (intro exI [of _ "p1\<lparr>nvml := Some r\<rparr>"]) simp
qed

lemma snapshots_disabled: "\<not> enabled p \<Longrightarrow> snapshots h p = (Inr [], p)"
  by (simp add: snapshots_def bnd_def gets_def ret_def)

text \<open>C29: without usable GPUs a plugin starts disabled, claims nothing and offers nothing. When NVML
  cannot be opened, or Docker has no NVIDIA runtime, \<open>init\<close> returns if the settings are
  valid and leaves the claims alone; the plugin then announces its slot with capacity zero,
  adds no container arguments, hooks or resource data and measures no device.\<close>

theorem disabled_offers_nothing:
  assumes "fst (read_config cfg (new_plugin e dk)) = Inr ()" "no_gpus h"
  shows "\<exists>p. init h cfg (new_plugin e dk, cl) = (Inr (), (p, cl)) \<and>
    available_slots h p = (Inr [(slot p, 0)], p) \<and> slot_types p = [(slot p, COUNT)] \<and>
    (\<forall>alloc. generate_docker_args p alloc = Inr [] \<and> generate_resource_data p alloc = Inr []) \<and>
    get_hooks p = [] \<and> extra_info h p = Inr [(''cuda_support'', PBool False)] \<and> snapshots h p = (Inr [], p)"
proof -
  obtain p1 where "read_config cfg (new_plugin e dk) = (Inr (), p1)" using assms(1) by (cases "read_config cfg (new_plugin e dk)") simp
  from init_without_gpus [OF this assms(2)] obtain p2 where
    i: "init h cfg (new_plugin e dk, cl) = (Inr (), (set_slot_types (p2\<lparr>enabled := False\<rparr>), cl))" by blast
  let ?p = "set_slot_types (p2\<lparr>enabled := False\<rparr>)"
  have off: "\<not> enabled ?p" by simp
  have "available_slots h ?p = (Inr [(slot ?p, 0)], ?p)"
    using list_devices_disabled [OF off] by (simp add: available_slots_def bnd_def gets_def ret_def dec_mul_def)
  moreover have "generate_docker_args ?p alloc = Inr [] \<and> generate_resource_data ?p alloc = Inr []" for alloc
    using off by (simp only: generate_docker_args_def generate_resource_data_def not_False_eq_True if_True)
  moreover have "get_hooks ?p = []" "extra_info h ?p = Inr [(''cuda_support'', PBool False)]"
    using off by (simp_all only: get_hooks_def extra_info_def not_False_eq_True if_True) simp
  moreover have "slot_types ?p = [(slot ?p, COUNT)]" by simp
  ultimately show ?thesis using i snapshots_disabled [OF off] by (intro exI [of _ ?p]) blast
qed

definition dark_host :: agent_host where
  "dark_host = demo_host\<lparr>gpu_host := (gpu_host demo_host)\<lparr>environ := []\<rparr>\<rparr>"

theorem disabled_offers_nothing_witness:
  "\<exists>p. init dark_host [] (new_plugin ''cuda_frac'' (Some ''cuda''), Map.empty) = (Inr (), (p, Map.empty)) \<and>
     available_slots dark_host p = (Inr [(slot p, 0)], p) \<and> generate_docker_args p demo_alloc = Inr []"
proof -
  have r: "fst (read_config [] (new_plugin ''cuda_frac'' (Some ''cuda''))) = Inr ()" by code_simp
  have n: "no_gpus dark_host" by code_simp
  from disabled_offers_nothing [OF r n, of Map.empty] show ?thesis by blast
qed

section \<open>Several plugins in one agent\<close>

text \<open>The agent starts its plugins one after the other and keeps those whose \<open>init\<close> returns.\<close>

fun start_all :: "(agent_host \<times> settings \<times> plugin) list \<Rightarrow> claims \<Rightarrow> plugin list" where
  "start_all [] cl = []"
| "start_all ((h, cfg, p) # starts) cl = (let (r, (p', cl')) = init h cfg (p, cl) in
     (if is_ok r then [p'] else []) @ start_all starts cl')"

definition new_starts :: "int \<Rightarrow> (agent_host \<times> settings \<times> plugin) list \<Rightarrow> bool" where
  "new_starts i starts = (\<forall>(h, cfg, p) \<in> set starts. agent_pid h = i \<and> (\<exists>e dk. p = new_plugin e dk))"

definition taken :: "plugin \<Rightarrow> string set" where
  "taken p = (if enabled p then cd_uuid ` set (device_list p) else {})"

lemma init_taken:
  assumes "init h cfg (new_plugin e dk, cl) = (Inr (), (p, cl'))" "u \<in> taken p"
  shows "entry_name p = e \<and> claimed_by cl (agent_pid h) u \<in> {None, Some e} \<and> claimed_by cl' (agent_pid h) u = Some e"
proof -
  from assms(2) have "enabled p" by (auto simp: taken_def split: if_splits)
  with init_started [OF assms(1)] obtain ds where "devices_of h p ds" "holds h cl e ds cl'" and s: "started h e p"
    by (auto simp: start_ok_def)
  then have "u \<in> cd_uuid ` set ds" using assms(2) devices_distinct(2) \<open>enabled p\<close> by (auto simp: taken_def)
  with \<open>holds h cl e ds cl'\<close> s show ?thesis by (auto simp: holds_def started_def)
qed

lemma start_all_respects: "p \<in> set (start_all starts cl) \<Longrightarrow> new_starts i starts \<Longrightarrow> u \<in> taken p \<Longrightarrow>
    claimed_by cl i u \<in> {None, Some (entry_name p)}"
proof (induction starts arbitrary: cl)
  case (Cons q starts)
  obtain h cfg e dk where q: "q = (h, cfg, new_plugin e dk)" and i: "agent_pid h = i" and rest: "new_starts i starts"
    using Cons.prems(2) by (auto simp: new_starts_def)
  obtain r p' cl' where run: "init h cfg (new_plugin e dk, cl) = (r, (p', cl'))" by (metis surj_pair)
  from Cons.prems(1) run q consider (now) "r = Inr ()" "p = p'" | (later) "p \<in> set (start_all starts cl')"
    by (auto simp: is_ok_def split: if_splits sum.splits)
  then show ?case
  proof cases
    case now
    then show ?thesis using init_taken [of h cfg e dk cl p cl' u] run Cons.prems(3) i by simp
  next
    case later
    from Cons.IH [OF this rest Cons.prems(3)] init_keeps_claims [OF run] i show ?thesis
      unfolding keeps_claims_def by force
  qed
qed simp

text \<open>C13: two plugins of one agent never offer the same GPU. Of the plugins an agent process
  starts one after the other, with any settings and selectors, overlapping or not, those
  whose \<open>init\<close> returned under different entry points hold disjoint sets of GPUs.\<close>

theorem plugins_share_no_gpu:
  assumes "new_starts i starts" "g = start_all starts cl" "m < n" "n < length g"
    and "entry_name (g ! m) \<noteq> entry_name (g ! n)"
  shows "taken (g ! m) \<inter> taken (g ! n) = {}"
  using assms
proof (induction starts arbitrary: cl g m n)
  case (Cons q starts)
  obtain h cfg e dk where q: "q = (h, cfg, new_plugin e dk)" and i: "agent_pid h = i" and rest: "new_starts i starts"
    using Cons.prems(1) by (auto simp: new_starts_def)
  obtain r p cl' where run: "init h cfg (new_plugin e dk, cl) = (r, (p, cl'))" by (metis surj_pair)
  let ?g = "start_all starts cl'"
  have g: "g = (if is_ok r then [p] else []) @ ?g" using Cons.prems(2) run q by simp
  show ?case
  proof (cases "is_ok r \<and> m = 0")
    case True
    then obtain n' where n: "n = Suc n'" "n' < length ?g" using Cons.prems(3,4) g by (cases n) auto
    have gs: "g ! m = p" "g ! n = ?g ! n'" using True n(1) g by simp_all
    have ok: "init h cfg (new_plugin e dk, cl) = (Inr (), (p, cl'))" using run True by (cases r) simp_all
    have "u \<notin> taken (?g ! n')" if "u \<in> taken p" for u
      using init_taken [OF ok that] start_all_respects [OF nth_mem [OF n(2)] rest, of u] i Cons.prems(5) gs by auto
    then show ?thesis unfolding gs by blast
  next
    case False
    define k where "k = (if is_ok r then 1 else 0 :: nat)"
    have m: "k \<le> m" using False by (auto simp: k_def)
    have "g ! m = ?g ! (m - k)" "g ! n = ?g ! (n - k)" "n - k < length ?g" "m - k < n - k"
      using m Cons.prems(3,4) unfolding g k_def by (auto simp: nth_append split: if_splits)
    then show ?thesis using Cons.IH [OF rest refl] Cons.prems(5) by metis
  qed
qed simp


definition slot_starts :: "(agent_host \<times> settings \<times> plugin) list" where
  "slot_starts =
     [(demo_host, [(''key'', PStr ''pro6000''), (''model_pattern'', PStr ''*PRO 6000*'')], GpuSlotPlugin 1),
      (demo_host, [], CUDAFracPlugin),
      (demo_host, [(''key'', PStr ''a6000''), (''model_pattern'', PStr ''*A6000'')], GpuSlotPlugin 2)]"

theorem plugins_share_no_gpu_witness:
  "map (map cd_uuid \<circ> device_list) (start_all slot_starts Map.empty) = [[''GPU-a''], [''GPU-b'']] \<and>
   taken (start_all slot_starts Map.empty ! 0) \<inter> taken (start_all slot_starts Map.empty ! 1) = {}"
proof -
  have "new_starts 7 slot_starts"
    by (auto simp: new_starts_def slot_starts_def GpuSlotPlugin_def CUDAFracPlugin_def demo_host_def)
  moreover have "map (map cd_uuid \<circ> device_list) (start_all slot_starts Map.empty) = [[''GPU-a''], [''GPU-b'']]"
    by code_simp
  moreover have "1 < length (start_all slot_starts Map.empty)" by code_simp
  moreover have "entry_name (start_all slot_starts Map.empty ! 0) \<noteq> entry_name (start_all slot_starts Map.empty ! 1)"
    by code_simp
  ultimately show ?thesis using plugins_share_no_gpu [of 7 slot_starts "start_all slot_starts Map.empty" Map.empty 0 1] by simp
qed

end
