(* ===== verification/Plugin_Owners.thy ===== *)
theory Plugin_Owners imports Plugin_Safety Observer begin

text \<open>
  The plugin and the spot controller meet in the environment of a container: the plugin
  writes the UUIDs of its GPUs there, the controller reads them from \<open>docker inspect\<close>.
  Here also: what the plugin measures of a container.
\<close>

section \<open>Limits name devices of the plugin\<close>

lemma device_map_get: "dict_get (device_map p) i = Some d \<Longrightarrow> d \<in> set (device_list p) \<and> cd_id d = i"
  unfolding device_map_def dict_get_of by (auto dest!: map_of_SomeD)

lemma limits_devices:
  assumes "limits p alloc = Inr ls" "l \<in> set ls"
  shows "\<exists>d \<in> set (device_list p). cd_id d = lim_device_id l \<and> cd_uuid d = lim_uuid l"
proof -
  let ?us = "map (\<lambda>(d, dev). (d, cd_uuid dev)) (device_map p)"
  from assms(1) obtain raw totals where
    c: "compute_limits (granted p raw) (per_device p) totals ?us (reserved_memory p) = Inr ls"
    by (auto simp: limits_def rbind_Inr_iff)
  obtain active where a: "active_devices (granted p raw) = Inr active" using compute_limits_ok_active [OF c] ..
  from assms(2) obtain i where i: "i < length ls" "l = ls ! i" by (auto simp: in_set_conv_nth)
  have "i < length active" using i(1) compute_limits_nth(1) [OF c a] by simp
  from compute_limits_nth(2) [OF c a this] obtain u s t where u: "dict_get ?us (active ! i) = Some u"
    and l: "compute_limit (int i) (active ! i) u s (per_device p) t (reserved_memory p) = Inr l"
    unfolding i(2) [symmetric] by blast
  from u obtain d where "dict_get (device_map p) (active ! i) = Some d" "u = cd_uuid d"
    by (auto simp: map_of_map [of cd_uuid, unfolded case_prod_unfold] case_prod_unfold)
  with device_map_get [of p "active ! i" d] compute_limit_fields(2,3) [OF l] show ?thesis by auto
qed

section \<open>The environment as the controller reads it\<close>

lemma docker_env_keys:
  assumes "k \<in> set (dict_keys (docker_env p ls))"
  shows "CHR ''='' \<notin> set k"
proof -
  have "k = ''LABGPU_DEVICE_UUIDS'' \<or> k \<in> fst ` set (build_hami_environ ls (sm_limit p))"
    using assms by (auto simp: docker_env_def Let_def dict_update_keys split: if_splits)
  then have "k \<in> {''LABGPU_DEVICE_UUIDS'', ''CUDA_DEVICE_MEMORY_SHARED_CACHE'', ''CUDA_DEVICE_SM_LIMIT''} \<or>
      (\<exists>i. k = limit_key i)" by (auto dest!: hami_keys)
  moreover have "CHR ''='' \<notin> set (int_str i)" for i
    by (auto simp: int_str_def is_dec_def code_def split: if_splits dest: nat_str_chars)
  ultimately show ?thesis by (auto simp: limit_key_def)
qed

lemma docker_env_uuids:
  "distinct (dict_keys (docker_env p ls))"
  "dict_get (docker_env p ls) ''LABGPU_DEVICE_UUIDS'' = Some (join '','' (map lim_uuid ls))"
proof -
  show "distinct (dict_keys (docker_env p ls))" by (simp add: docker_env_def Let_def dict_update_distinct)
  have "''LABGPU_DEVICE_UUIDS'' \<notin> fst ` set (build_hami_environ ls (sm_limit p))"
    by (auto dest!: hami_keys simp: limit_key_def)
  then have "map_of (rev (build_hami_environ ls (sm_limit p))) ''LABGPU_DEVICE_UUIDS'' = None"
    by (simp add: map_of_eq_None_iff)
  then show "dict_get (docker_env p ls) ''LABGPU_DEVICE_UUIDS'' = Some (join '','' (map lim_uuid ls))"
    by (simp add: docker_env_def Let_def dict_get_update)
qed

lemma split_env_vars: "traverse split_env (map PStr xs) = Inr (map (partition (CHR ''='')) xs)"
  by (induction xs) (simp_all add: split_env_def)

lemma partition_docker_env:
  "map (partition (CHR ''='')) (map (\<lambda>(k, v). k @ ''='' @ v) (docker_env p ls)) = docker_env p ls"
proof -
  have "partition (CHR ''='') (k @ ''='' @ v) = (k, v)" if "(k, v) \<in> set (docker_env p ls)" for k v
  proof -
    have "k \<in> set (dict_keys (docker_env p ls))" using that by force
    then show ?thesis using partition_join [OF docker_env_keys] by simp
  qed
  then show ?thesis unfolding map_map by (intro map_idI) auto
qed

lemma container_env_own:
  assumes "dget2 inspect ''Config'' ''Env'' = Inr (PList (map PStr (before @ map (\<lambda>(k, v). k @ ''='' @ v) (docker_env p ls) @ after)))"
    and "\<forall>s \<in> set after. fst (partition (CHR ''='') s) \<noteq> ''LABGPU_DEVICE_UUIDS''"
  shows "\<exists>env. container_env inspect = Inr env \<and> dict_get env ''LABGPU_DEVICE_UUIDS'' = Some (join '','' (map lim_uuid ls))"
proof -
  let ?own = "docker_env p ls" and ?part = "partition (CHR ''='')"
  let ?all = "before @ map (\<lambda>(k, v). k @ ''='' @ v) ?own @ after"
  have ne: "map PStr ?all \<noteq> []" using docker_env_uuids(2) [of p ls] by (cases ?own) auto
  have "container_env inspect = Inr (dict_of (map ?part ?all))"
    unfolding container_env_def assms(1) using ne split_env_vars [of ?all] by (simp add: or_list_def iter_items_def del: map_append)
  moreover have "dict_get (dict_of (map ?part ?all)) ''LABGPU_DEVICE_UUIDS'' = Some (join '','' (map lim_uuid ls))"
  proof -
    have "map_of (rev (map ?part after)) ''LABGPU_DEVICE_UUIDS'' = None"
      using assms(2) by (auto simp: map_of_eq_None_iff)
    moreover have "map_of (rev ?own) ''LABGPU_DEVICE_UUIDS'' = Some (join '','' (map lim_uuid ls))"
      using docker_env_uuids [of p ls] by (simp add: distinct_map_of_rev)
    ultimately show ?thesis
      unfolding dict_get_of map_append partition_docker_env rev_append by (simp add: map_add_def)
  qed
  ultimately show ?thesis by blast
qed

lemma resolve_own:
  assumes "\<forall>r \<in> set refs. r \<noteq> ''all'' \<and> r \<in> uuid ` set gpus"
  shows "resolve_gpu_refs refs gpus = set refs"
proof -
  have "resolve_acc gpus refs R = R \<union> set refs" for R using assms by (induction refs arbitrary: R) auto
  then show ?thesis by (simp add: resolve_gpu_refs_def)
qed


text \<open>What a container of the plugin shows of its GPUs.\<close>

lemma refs_recovered:
  assumes "generate_docker_args p alloc = Inr args" "limits p alloc = Inr ls" "enabled p" "ls \<noteq> []"
    and "dict_get args ''Env'' = Some (PList vars)"
    and "dget2 inspect ''Config'' ''Env'' = Inr (PList (map PStr before @ vars @ map PStr after))"
    and "\<forall>s \<in> set after. fst (partition (CHR ''='') s) \<noteq> ''LABGPU_DEVICE_UUIDS''"
    and "\<forall>d \<in> set (device_list p). cd_uuid d \<notin> {'''', ''all''} \<and> CHR '','' \<notin> set (cd_uuid d) \<and>
      cd_uuid d \<in> uuid ` set gpus"
  shows "parse_gpu_refs inspect = Inr (map lim_uuid ls)" "resolve_gpu_refs (map lim_uuid ls) gpus = lim_uuid ` set ls"
proof -
  let ?us = "map lim_uuid ls"
  have dev: "\<exists>d \<in> set (device_list p). cd_id d = lim_device_id l \<and> cd_uuid d = lim_uuid l" if "l \<in> set ls" for l
    using limits_devices [OF assms(2) that] .
  then have us: "u \<notin> {'''', ''all''} \<and> CHR '','' \<notin> set u \<and> u \<in> uuid ` set gpus" if "u \<in> set ?us" for u
  proof -
    from that obtain l where "l \<in> set ls" "u = lim_uuid l" by (auto simp only: set_map)
    with dev obtain d where d: "d \<in> set (device_list p)" and u: "u = cd_uuid d" by metis
    from bspec [OF assms(8) d] show ?thesis unfolding u .
  qed
  have "args = docker_args p ls" using assms(1-4) by (auto simp: generate_docker_args_def split: if_splits)
  then have "vars = map PStr (map (\<lambda>(k, v). k @ ''='' @ v) (docker_env p ls))"
    using assms(5) by (simp add: docker_args_def case_prod_unfold comp_def)
  with assms(6) have "dget2 inspect ''Config'' ''Env'' =
      Inr (PList (map PStr (before @ map (\<lambda>(k, v). k @ ''='' @ v) (docker_env p ls) @ after)))" by simp
  from container_env_own [OF this assms(7)] obtain env where env: "container_env inspect = Inr env"
    "dict_get env ''LABGPU_DEVICE_UUIDS'' = Some (join '','' ?us)" by blast
  have split: "split_on (CHR '','') (join '','' ?us) = ?us" using us assms(4) by (intro split_join) auto
  then have ne: "join '','' ?us \<noteq> []" using us [of "lim_uuid (hd ls)"] assms(4) by (cases ls) auto
  have "filter (\<lambda>x. x \<noteq> []) ?us = ?us" using us by (intro filter_True) auto
  then show "parse_gpu_refs inspect = Inr ?us"
    using env ne split by (simp add: parse_gpu_refs_def get_or_def Let_def)
  show "resolve_gpu_refs ?us gpus = lim_uuid ` set ls" using us by (subst resolve_own) auto
qed

section \<open>Properties\<close>

text \<open>C21: the controller finds exactly the GPUs a plugin gave to a container. However the
  container's environment mixes in the variables of the image before and others after it,
  as long as none of the later ones redefines it, reading \<open>docker inspect\<close> gives back the
  UUIDs of the allocation's GPUs in the order the container numbers them; the controller
  resolves them to those GPUs and no others; and each is the UUID of the device of that
  identifier.\<close>

theorem owner_gpus_recovered:
  assumes "generate_docker_args p alloc = Inr args" "limits p alloc = Inr ls" "enabled p" "ls \<noteq> []"
    and "dict_get args ''Env'' = Some (PList vars)"
    and "dget2 inspect ''Config'' ''Env'' = Inr (PList (map PStr before @ vars @ map PStr after))"
    and "\<forall>s \<in> set after. fst (partition (CHR ''='') s) \<noteq> ''LABGPU_DEVICE_UUIDS''"
    and "\<forall>d \<in> set (device_list p). cd_uuid d \<notin> {'''', ''all''} \<and> CHR '','' \<notin> set (cd_uuid d) \<and>
      cd_uuid d \<in> uuid ` set gpus"
  shows "parse_gpu_refs inspect = Inr (map lim_uuid ls) \<and>
    resolve_gpu_refs (map lim_uuid ls) gpus = lim_uuid ` set ls \<and>
    (\<forall>l \<in> set ls. \<exists>d \<in> set (device_list p). cd_id d = lim_device_id l \<and> cd_uuid d = lim_uuid l)"
  using refs_recovered [OF assms] limits_devices [OF assms(2)] by blast

definition demo_inspect :: "pyval list \<Rightarrow> pyval" where
  "demo_inspect vars = PDict [(''Id'', PStr ''c1''), (''Config'', PDict [(''Env'',
     PList (map PStr [''PATH=/bin''] @ vars @ map PStr [''HOME=/root'']))])]"

theorem owner_gpus_recovered_witness:
  "\<exists>args vars l. generate_docker_args demo_plugin demo_alloc = Inr args \<and> dict_get args ''Env'' = Some (PList vars) \<and>
     limits demo_plugin demo_alloc = Inr [l] \<and> parse_gpu_refs (demo_inspect vars) = Inr [lim_uuid l] \<and>
     lim_uuid l \<in> {''GPU-a'', ''GPU-b''}"
proof -
  obtain l where l: "limits demo_plugin demo_alloc = Inr [l]" by (rule demo_limits)
  then have g: "generate_docker_args demo_plugin demo_alloc = Inr (docker_args demo_plugin [l])"
    by (simp add: generate_docker_args_def)
  obtain vars where v: "dict_get (docker_args demo_plugin [l]) ''Env'' = Some (PList vars)" by (simp add: docker_args_def)
  have i: "dget2 (demo_inspect vars) ''Config'' ''Env'' = Inr (PList (map PStr [''PATH=/bin''] @ vars @ map PStr [''HOME=/root'']))"
    by (simp add: demo_inspect_def dget2_def dget_def or_dict_def get_or_def)
  have a: "\<forall>s \<in> set [''HOME=/root'']. fst (partition (CHR ''='') s) \<noteq> ''LABGPU_DEVICE_UUIDS''" by code_simp
  let ?gpus = "[\<lparr>index = 0, uuid = ''GPU-a'', name = [], memory = 0, pci_bus_id = []\<rparr>,
    \<lparr>index = 1, uuid = ''GPU-b'', name = [], memory = 0, pci_bus_id = []\<rparr>]"
  have d: "\<forall>d \<in> set (device_list demo_plugin). cd_uuid d \<notin> {'''', ''all''} \<and> CHR '','' \<notin> set (cd_uuid d) \<and>
      cd_uuid d \<in> uuid ` set ?gpus"
    by (simp add: demo_plugin_def device_list_def demo_device_def)
  have ne: "[l] \<noteq> []" by simp
  from owner_gpus_recovered [OF g l demo_fields(1) ne v i a d]
  have "parse_gpu_refs (demo_inspect vars) = Inr [lim_uuid l]" "\<exists>d \<in> set (device_list demo_plugin). cd_uuid d = lim_uuid l"
    by auto
  then show ?thesis using g v l by (force simp: demo_plugin_def device_list_def demo_device_def)
qed

end
