(* ===== verification/Plugin_Stats.thy ===== *)
theory Plugin_Stats imports Plugin_Safety begin

text \<open>
  What \<open>gather_container_measures\<close> reports, against its meaning: the processes of a container
  and the GPUs they run on.
\<close>

section \<open>The tallies\<close>

definition gpu_uses :: "gpu_snapshot list \<Rightarrow> (gpu_snapshot \<times> gpu_process) list" where
  "gpu_uses snaps = concat (map (\<lambda>s. map (Pair s) (snap_processes s)) snaps)"

text \<open>The uses of one container.\<close>

definition uses_of :: "(int, string option) pydict \<Rightarrow> string list \<Rightarrow> (gpu_snapshot \<times> gpu_process) list \<Rightarrow> string \<Rightarrow>
    (gpu_snapshot \<times> gpu_process) list" where
  "uses_of m ids us cid = filter (\<lambda>(s, pr). process_container m ids (pid pr) = Some cid) us"

lemma tally_flat: "tally m ids snaps = fold (\<lambda>(s, pr). tally_process m ids s pr) (gpu_uses snaps) \<lparr>t_mem = [], t_util = [], t_gpus = []\<rparr>"
proof -
  have "fold (\<lambda>s. fold (tally_process m ids s) (snap_processes s)) snaps t = fold (\<lambda>(s, pr). tally_process m ids s pr) (gpu_uses snaps) t" for t
    by (induction snaps arbitrary: t) (simp_all add: gpu_uses_def fold_map comp_def)
  then show ?thesis by (simp add: tally_def)
qed

lemma tally_correct:
  fixes m ids us
  defines "t \<equiv> fold (\<lambda>(s, pr). tally_process m ids s pr) us \<lparr>t_mem = [], t_util = [], t_gpus = []\<rparr>"
  shows "dict_get (t_mem t) cid = (if uses_of m ids us cid = [] then None
      else Some (sum_list (map (proc_memory \<circ> snd) (uses_of m ids us cid))))"
    and "dict_get (t_util t) cid = (if uses_of m ids us cid = [] then None
      else Some (sum_list (map (proc_sm \<circ> snd) (uses_of m ids us cid))))"
    and "distinct (get_or [] (t_gpus t) cid)"
    and "set (get_or [] (t_gpus t) cid) = (index \<circ> info \<circ> fst) ` set (uses_of m ids us cid)"
  unfolding t_def
proof (induction us rule: rev_induct)
  case (snoc u us)
  obtain s pr where u: "u = (s, pr)" by (cases u)
  define T where "T = fold (\<lambda>(s, pr). tally_process m ids s pr) us \<lparr>t_mem = [], t_util = [], t_gpus = []\<rparr>"
  have step: "fold (\<lambda>(s, pr). tally_process m ids s pr) (us @ [u]) \<lparr>t_mem = [], t_util = [], t_gpus = []\<rparr> = tally_process m ids s pr T"
    by (simp add: T_def u)
  have uses: "uses_of m ids (us @ [u]) cid = uses_of m ids us cid @ (if process_container m ids (pid pr) = Some cid then [(s, pr)] else [])"
    by (simp add: uses_of_def u)
  note IH = snoc.IH [folded T_def]
  { case 1 show ?case unfolding step uses using IH(1) by (cases "process_container m ids (pid pr)") (auto simp: tally_process_def get_or_def comp_def) }
  { case 2 show ?case unfolding step uses using IH(2) by (cases "process_container m ids (pid pr)") (auto simp: tally_process_def get_or_def comp_def) }
  { case 3 show ?case unfolding step uses using IH(3) by (cases "process_container m ids (pid pr)") (auto simp: tally_process_def get_or_def split: option.splits) }
  { case 4 show ?case unfolding step uses using IH(4) by (cases "process_container m ids (pid pr)") (auto simp: tally_process_def get_or_def split: option.splits) }
qed (simp_all add: uses_of_def get_or_def)

lemma dict_get_mapped: "dict_get (map (\<lambda>(k, v). (k, f k v)) d) k = map_option (f k) (dict_get d k)"
  by (induction d) auto

section \<open>The GPUs of a container\<close>

definition gpus_of :: "(int, string option) pydict \<Rightarrow> string list \<Rightarrow> gpu_snapshot list \<Rightarrow> string \<Rightarrow> gpu_snapshot list" where
  "gpus_of m ids snaps cid =
     filter (\<lambda>s. list_ex (\<lambda>pr. process_container m ids (pid pr) = Some cid) (snap_processes s)) snaps"

lemma uses_indices: "(index \<circ> info \<circ> fst) ` set (uses_of m ids (gpu_uses snaps) cid) = (index \<circ> info) ` set (gpus_of m ids snaps cid)"
  by (force simp: uses_of_def gpu_uses_def gpus_of_def list_ex_iff)

lemma distinct_gpus_of: "distinct (map (index \<circ> info) snaps) \<Longrightarrow> distinct (map (index \<circ> info) (gpus_of m ids snaps cid))"
  unfolding gpus_of_def by (rule distinct_map_filter)

lemma capacity_get:
  assumes "distinct (map (index \<circ> info) snaps)" "s \<in> set snaps"
  shows "get_or 0 (dict_of (map (\<lambda>s. (index (info s), memory (info s))) snaps)) (index (info s)) = memory (info s)"
proof -
  let ?kvs = "map (\<lambda>s. (index (info s), memory (info s))) snaps"
  have "distinct (dict_keys ?kvs)" using assms(1) by (simp add: comp_def)
  then have "dict_get (dict_of ?kvs) (index (info s)) = Some (memory (info s))"
    using assms(2) by (simp only: dict_of_id) (intro map_of_is_SomeI, auto)
  then show ?thesis by (simp add: get_or_def)
qed

lemma capacity_sum:
  assumes "distinct (map (index \<circ> info) snaps)" "distinct gs" "set gs = (index \<circ> info) ` set (gpus_of m ids snaps cid)"
  shows "sum_list (map (get_or 0 (dict_of (map (\<lambda>s. (index (info s), memory (info s))) snaps))) gs) =
      sum_list (map (memory \<circ> info) (gpus_of m ids snaps cid))"
    and "length gs = length (gpus_of m ids snaps cid)"
proof -
  let ?c = "get_or 0 (dict_of (map (\<lambda>s. (index (info s), memory (info s))) snaps))" and ?u = "gpus_of m ids snaps cid"
  note d = distinct_gpus_of [OF assms(1), of m ids cid]
  have sg: "set gs = set (map (index \<circ> info) ?u)" using assms(3) by simp
  have "sum_list (map ?c gs) = sum ?c (set gs)" using assms(2) by (rule sum_list_distinct_conv_sum_set)
  also have "\<dots> = sum_list (map ?c (map (index \<circ> info) ?u))" unfolding sg using d by (rule sum_list_distinct_conv_sum_set [symmetric])
  also have "map ?c (map (index \<circ> info) ?u) = map (memory \<circ> info) ?u"
    unfolding map_map by (intro map_cong refl) (auto simp: gpus_of_def capacity_get [OF assms(1)])
  finally show "sum_list (map ?c gs) = sum_list (map (memory \<circ> info) ?u)" .
  show "length gs = length ?u" using distinct_card [OF assms(2)] distinct_card [OF d] sg by simp
qed

section \<open>Properties\<close>

text \<open>C22: a container is charged exactly for its own processes. Of the snapshots taken, the
  memory and utilisation reported for a container are the sums over the processes whose
  container it is, its capacity the memory (or a hundred percent) of each GPU one of them
  runs on, counted once; a container with no process on a GPU is not reported. A process
  counts for a container asked for only when their identifiers agree in the first twelve
  characters, so containers that share a GPU never mix.\<close>

theorem container_measures_own_processes:
  assumes "snapshots h p = (Inr snaps, p')" "distinct (map (index \<circ> info) snaps)"
    and "pids_of h p' (concat (map (map pid \<circ> snap_processes) snaps)) = Inr m"
    and "used = uses_of m ids (gpu_uses snaps) cid" "on = gpus_of m ids snaps cid"
  shows "\<exists>mem util. gather_container_measures h ids p = (Inr [mem, util], p') \<and>
    metric_key mem = key p' @ ''_mem'' \<and> metric_key util = key p' @ ''_util'' \<and>
    dict_get (measured mem) cid = (if used = [] then None else Some
      \<lparr>m_value = sum_list (map (proc_memory \<circ> snd) used), m_capacity = sum_list (map (memory \<circ> info) on)\<rparr>) \<and>
    dict_get (measured util) cid = (if used = [] then None else Some
      \<lparr>m_value = sum_list (map (proc_sm \<circ> snd) used), m_capacity = int (length on) * 100\<rparr>) \<and>
    (\<forall>(s, pr) \<in> set used. \<exists>c. get_or None m (pid pr) = Some c \<and> cid \<in> set ids \<and> take 12 c = take 12 cid)"
proof -
  let ?t = "tally m ids snaps"
  note t = tally_correct [of m ids "gpu_uses snaps", folded tally_flat]
  have gs: "distinct (get_or [] (t_gpus ?t) cid)" "set (get_or [] (t_gpus ?t) cid) = (index \<circ> info) ` set (gpus_of m ids snaps cid)"
    using t(3,4) uses_indices by metis+
  note cap = capacity_sum [OF assms(2) gs]
  have mem: "dict_get (container_mem snaps ?t) cid = (if used = [] then None else Some
      \<lparr>m_value = sum_list (map (proc_memory \<circ> snd) used), m_capacity = sum_list (map (memory \<circ> info) on)\<rparr>)"
    using cap(1) by (simp add: container_mem_def Let_def dict_get_mapped t(1) assms(4,5))
  have util: "dict_get (container_util ?t) cid = (if used = [] then None else Some
      \<lparr>m_value = sum_list (map (proc_sm \<circ> snd) used), m_capacity = int (length on) * 100\<rparr>)"
    using cap(2) by (simp add: container_util_def dict_get_mapped t(2) assms(4,5))
  have "\<exists>c. get_or None m (pid pr) = Some c \<and> cid \<in> set ids \<and> take 12 c = take 12 cid" if "(s, pr) \<in> set used" for s pr
  proof -
    from that have "process_container m ids (pid pr) = Some cid" by (auto simp: assms(4) uses_of_def)
    then obtain c where c: "get_or None m (pid pr) = Some c" "dict_get (wanted_ids ids) (take 12 c) = Some cid"
      by (auto simp: process_container_def split: option.splits if_splits)
    then have "(take 12 c, cid) \<in> set (map (\<lambda>c. (take 12 c, c)) ids)"
      unfolding wanted_ids_def dict_get_of by (metis map_of_SomeD set_rev)
    with c(1) show ?thesis by auto
  qed
  with mem util assms(1,3) show ?thesis
    by (auto simp: gather_container_measures_def bnd_def gets_def lift_def ret_def Let_def)
qed


text \<open>Two containers and a stranger on two GPUs.\<close>

definition busy_gpus :: pyval where
  "busy_gpus = (let proc = (\<lambda>i mem sm c. PDict [(''pid'', PInt i), (''mem'', PInt mem), (''sm'', PInt sm), (''container'', c)])
     in PDict [(''gpus'', PList [
     PDict [(''uuid'', PStr ''GPU-a''), (''name'', PStr ''P''), (''memory'', PInt 8000),
       (''processes'', PList [proc 11 1000 20 (PStr ''aaaaaaaaaaaa-1''), proc 12 500 5 (PStr ''bbbbbbbbbbbb-1''), proc 13 70 1 PNone])],
     PDict [(''uuid'', PStr ''GPU-b''), (''name'', PStr ''P''), (''memory'', PInt 6000),
       (''processes'', PList [proc 14 2000 30 (PStr ''aaaaaaaaaaaa-1'')])]])])"

definition busy_host :: agent_host where
  "busy_host = demo_host\<lparr>gpu_host := (gpu_host demo_host)\<lparr>fake_text := \<lambda>_. Inr busy_gpus\<rparr>\<rparr>"

definition busy_snaps :: "gpu_snapshot list" where
  "busy_snaps = (case fst (snapshots busy_host demo_plugin) of Inr ss \<Rightarrow> ss | Inl _ \<Rightarrow> [])"

definition busy_pids :: "(int, string option) pydict" where
  "busy_pids = [(11, Some ''aaaaaaaaaaaa-1''), (12, Some ''bbbbbbbbbbbb-1''), (13, None), (14, Some ''aaaaaaaaaaaa-1'')]"

theorem container_measures_own_processes_witness:
  "\<exists>mem util. gather_container_measures busy_host [''aaaaaaaaaaaa-1'', ''bbbbbbbbbbbb-1''] demo_plugin = (Inr [mem, util], demo_plugin) \<and>
     dict_get (measured mem) ''aaaaaaaaaaaa-1'' = Some \<lparr>m_value = 3000, m_capacity = 14000\<rparr> \<and>
     dict_get (measured util) ''aaaaaaaaaaaa-1'' = Some \<lparr>m_value = 50, m_capacity = 200\<rparr>"
proof -
  let ?ids = "[''aaaaaaaaaaaa-1'', ''bbbbbbbbbbbb-1'']" and ?c = "''aaaaaaaaaaaa-1''"
  have s: "snapshots busy_host demo_plugin = (Inr busy_snaps, demo_plugin)" by code_simp
  have d: "distinct (map (index \<circ> info) busy_snaps)" by code_simp
  have m: "pids_of busy_host demo_plugin (concat (map (map pid \<circ> snap_processes) busy_snaps)) = Inr busy_pids" by code_simp
  have u: "map (proc_memory \<circ> snd) (uses_of busy_pids ?ids (gpu_uses busy_snaps) ?c) = [1000, 2000]"
    "map (proc_sm \<circ> snd) (uses_of busy_pids ?ids (gpu_uses busy_snaps) ?c) = [20, 30]"
    "map (memory \<circ> info) (gpus_of busy_pids ?ids busy_snaps ?c) = [8000, 6000]" by code_simp+
  then have "uses_of busy_pids ?ids (gpu_uses busy_snaps) ?c \<noteq> []" "length (gpus_of busy_pids ?ids busy_snaps ?c) = 2"
    by (auto dest: arg_cong [where f = length])
  with container_measures_own_processes [OF s d m refl refl, of ?ids ?c] u show ?thesis by auto
qed

end
