(* ===== verification/Plugin_Restart.thy ===== *)
theory Plugin_Restart imports Plugin_Safety begin

text \<open>
  What a restarted agent recovers of the allocations recorded with its running containers.
  There are two plugins: the one whose \<open>init\<close> preceded the creation of a container, and the
  one that \<open>init\<close> makes of a new object when the agent starts again.
\<close>

lemma amounts_distinct: "amounts_for_slot alloc s = Inr am \<Longrightarrow> distinct (dict_keys am)"
proof -
  have set: "distinct (dict_keys (get_or [] (set_amount sl d a r) s))" if "\<And>s. distinct (dict_keys (get_or [] r s))" for sl d a and r :: slot_alloc
    using that by (simp add: set_amount_def distinct_update)
  have unit: "distinct (dict_keys (get_or [] (fold (\<lambda>(slot, amount). set_amount slot dev amount) as r) s))"
    if "\<And>s. distinct (dict_keys (get_or [] r s))" for as dev s and r :: slot_alloc
    using that by (induction as arbitrary: r) (auto simp: set_amount_def distinct_update)
  have units: "distinct (dict_keys (get_or [] (fold add_unit us r) s))" if "\<And>s. distinct (dict_keys (get_or [] r s))" for us s and r :: slot_alloc
    using that unit by (induction us arbitrary: r) (simp_all add: add_unit_def)
  have maps: "distinct (dict_keys (get_or [] (fold (\<lambda>(slot, per_device). dict_set slot (dict_of per_device)) m r) s))"
    if "\<And>s. distinct (dict_keys (get_or [] r s))" for m s and r :: slot_alloc
    using that by (induction m arbitrary: r) auto
  assume "amounts_for_slot alloc s = Inr am"
  then show ?thesis using units [of "[]"] maps [of "[]"]
    by (cases alloc) (auto simp: amounts_for_slot_def get_or_def)
qed

lemma amounts_single: "distinct (dict_keys am) \<Longrightarrow> amounts_for_slot (SlotMap [(s, am)]) s = Inr am"
  by (simp add: amounts_for_slot_def get_or_def dict_of_id)

section \<open>What \<open>init\<close> makes of the settings\<close>

lemma on_plugin_Inr: "on_plugin f s = (Inr x, s') \<longleftrightarrow> f (fst s) = (Inr x, fst s') \<and> snd s' = snd s"
  by (cases s'; cases "f (fst s)") (auto simp: on_plugin_def Let_def)

lemma claim_plugin: "claim h us s = (r, s') \<Longrightarrow> fst s' = fst s"
  by (auto simp: claim_def split: prod.splits)

lemma listed_now: "enabled p \<Longrightarrow> devices p = None \<Longrightarrow> nvml p = Some r \<Longrightarrow> list_devices h p = (Inr ds, p') \<longleftrightarrow>
   (\<exists>gs. reader_list (gpu_host h) r = Inr gs \<and>
     traverse (to_device h (key p)) (filter (\<lambda>g. matches (selector p) (name g) (memory g) (uuid g)) gs) = Inr ds) \<and>
   p' = p\<lparr>devices := Some ds\<rparr>"
  by (auto simp: list_devices_def return_iffs)

text \<open>The plugin that \<open>init\<close> makes of what it read from the settings.\<close>

definition plugin_after :: "agent_host \<Rightarrow> plugin \<Rightarrow> nvml_reader \<Rightarrow> cuda_device list \<Rightarrow> plugin" where
  "plugin_after h p r ds = set_slot_types (p\<lparr>nvml := Some r, devices := Some ds,
     mode := (if is_file h (hook_path p) = Inr True then mode p else DISCRETE),
     fraction_enforced := (mode p = FRACTIONAL \<and> is_file h (hook_path p) = Inr True)\<rparr>)"

lemma check_hook_Inr: "\<not> fraction_enforced p \<Longrightarrow> check_hook h p = (Inr (), p') \<Longrightarrow>
  p' = p\<lparr>mode := (if is_file h (hook_path p) = Inr True then mode p else DISCRETE),
     fraction_enforced := (mode p = FRACTIONAL \<and> is_file h (hook_path p) = Inr True)\<rparr>"
  by (cases "mode p") (auto simp: check_hook_def return_iffs split: if_splits)

lemma disable_Inr: "disable s = (Inr x, s') \<Longrightarrow> \<not> enabled (fst s')"
  by (auto simp: disable_def on_plugin_def modify_def)

lemma init_devices_shape:
  assumes "init_devices h (p, cl) = (Inr (), (p', cl'))" "enabled p'"
    and "enabled p" "devices p = None" "nvml p = Some r" "\<not> fraction_enforced p"
  shows "\<exists>gs ds. reader_list (gpu_host h) r = Inr gs \<and>
    traverse (to_device h (key p)) (filter (\<lambda>g. matches (selector p) (name g) (memory g) (uuid g)) gs) = Inr ds \<and>
    p' = plugin_after h p r ds"
proof -
  let ?list = "bnd (on_plugin (list_devices h)) (\<lambda>ds. ret (Some ds))"
  obtain found s1 where c: "catch ?list is_nvml_error (\<lambda>_. bnd disable (\<lambda>_. ret None)) (p, cl) = (Inr found, s1)"
    and rest: "(case found of None \<Rightarrow> ret () | Some ds \<Rightarrow> bnd (claim h (map cd_uuid ds)) (\<lambda>_.
      bnd (on_plugin (check_hook h)) (\<lambda>_. on_plugin (modify set_slot_types)))) s1 = (Inr (), (p', cl'))"
    using assms(1) unfolding init_devices_def bnd_Inr by blast
  have "found \<noteq> None"
  proof
    assume n: "found = None"
    then have "s1 = (p', cl')" using rest by (simp add: ret_def)
    moreover have "\<not> enabled (fst s1)"
      using c unfolding n catch_def
      by (auto simp: return_iffs dest: disable_Inr split: prod.splits sum.splits if_splits)
    ultimately show False using assms(2) by simp
  qed
  then obtain ds where f: "found = Some ds" by blast
  then have "?list (p, cl) = (Inr (Some ds), s1)"
    using c by (auto simp: catch_def return_iffs split: prod.splits sum.splits if_splits)
  then have "list_devices h p = (Inr ds, fst s1)" by (auto simp: return_iffs on_plugin_Inr)
  then obtain gs where gs: "reader_list (gpu_host h) r = Inr gs"
      "traverse (to_device h (key p)) (filter (\<lambda>g. matches (selector p) (name g) (memory g) (uuid g)) gs) = Inr ds"
    and p1: "fst s1 = p\<lparr>devices := Some ds\<rparr>" unfolding listed_now [OF assms(3,4,5)] by blast
  from rest [unfolded f option.case bnd_Inr] obtain s2 s3 u v where
    s2: "claim h (map cd_uuid ds) s1 = (Inr u, s2)" and s3: "on_plugin (check_hook h) s2 = (Inr v, s3)"
    and p': "on_plugin (modify set_slot_types) s3 = (Inr (), (p', cl'))" by blast
  have "check_hook h (p\<lparr>devices := Some ds\<rparr>) = (Inr (), fst s3)"
    using s3 claim_plugin [OF s2] p1 by (simp add: on_plugin_Inr)
  from check_hook_Inr [OF _ this] assms(6) have
    "fst s3 = p\<lparr>devices := Some ds, mode := (if is_file h (hook_path p) = Inr True then mode p else DISCRETE),
       fraction_enforced := (mode p = FRACTIONAL \<and> is_file h (hook_path p) = Inr True)\<rparr>" by simp
  moreover have "p' = set_slot_types (fst s3)" using p' by (simp add: on_plugin_Inr modify_Inr)
  moreover have self: "p\<lparr>nvml := Some r\<rparr> = p" using assms(5) by (cases p) simp
  ultimately have "p' = plugin_after h p r ds" unfolding plugin_after_def self by simp
  with gs show ?thesis by blast
qed

lemma init_shape:
  assumes "init h cfg (new_plugin e dk, cl) = (Inr (), (p, cl'))" "enabled p"
  obtains p1 r gs ds where "read_config cfg (new_plugin e dk) = (Inr (), p1)" "open_reader (gpu_host h) = Inr r"
    "reader_list (gpu_host h) r = Inr gs"
    "traverse (to_device h (key p1)) (filter (\<lambda>g. matches (selector p1) (name g) (memory g) (uuid g)) gs) = Inr ds"
    "p = plugin_after h p1 r ds"
proof -
  from assms(1) obtain s1 where c: "on_plugin (read_config cfg) (new_plugin e dk, cl) = (Inr (), s1)"
    and i: "(case open_reader (gpu_host h) of
       Inl e \<Rightarrow> if is_nvml_error e then disable else lift (Inl e)
     | Inr r \<Rightarrow> bnd (on_plugin (modify (\<lambda>p. p\<lparr>nvml := Some r\<rparr>))) (\<lambda>_.
         if reader_is_fake r then init_devices h
         else bnd (lift (has_nvidia_runtime h)) (\<lambda>runtime. if runtime then init_devices h else disable))) s1 = (Inr (), (p, cl'))"
    unfolding init_def bnd_Inr by auto
  from c have c: "read_config cfg (new_plugin e dk) = (Inr (), fst s1)" by (simp add: on_plugin_Inr)
  have fr: "fresh e (fst s1)" using hoareD(1) [OF read_config_post _ c, of e] by simp
  obtain r where r: "open_reader (gpu_host h) = Inr r"
    using i assms(2) by (cases "open_reader (gpu_host h)") (auto simp: lift_def dest: disable_Inr split: if_splits)
  let ?p = "(fst s1)\<lparr>nvml := Some r\<rparr>"
  have "init_devices h (?p, snd s1) = (Inr (), (p, cl'))"
    using i assms(2) unfolding r sum.case
    by (auto simp: return_iffs on_plugin_Inr dest: disable_Inr split: if_splits)
  from init_devices_shape [OF this assms(2)] fr obtain gs ds where "reader_list (gpu_host h) r = Inr gs"
      "traverse (to_device h (key ?p)) (filter (\<lambda>g. matches (selector ?p) (name g) (memory g) (uuid g)) gs) = Inr ds"
      "p = plugin_after h ?p r ds" by (auto simp: fresh_def)
  then show thesis using that [OF c r] by (simp add: plugin_after_def)
qed
section \<open>Properties\<close>

text \<open>Two starts with the same settings that see the same GPUs and the same enforcement library.\<close>

lemma devices_map:
  assumes "map (\<lambda>d. (cd_id d, cd_uuid d, cd_model d, cd_memory d)) ds = map (\<lambda>d. (cd_id d, cd_uuid d, cd_model d, cd_memory d)) ds'"
  shows "map cd_id ds = map cd_id ds'" "map (\<lambda>d. (cd_id d, cd_uuid d)) ds = map (\<lambda>d. (cd_id d, cd_uuid d)) ds'"
    "map (\<lambda>d. (cd_id d, cd_memory d)) ds = map (\<lambda>d. (cd_id d, cd_memory d)) ds'"
  using arg_cong [OF assms, of "map fst"] arg_cong [OF assms, of "map (\<lambda>(i, u, _, _). (i, u))"]
    arg_cong [OF assms, of "map (\<lambda>(i, _, _, m). (i, m))"]
  by (simp_all add: comp_def)

lemma device_map_eq: "distinct (map cd_id (device_list p)) \<Longrightarrow> device_map p = map (\<lambda>d. (cd_id d, d)) (device_list p)"
  by (simp add: device_map_def dict_of_id comp_def)

lemma same_plugin:
  assumes "init h cfg (new_plugin e dk, cl) = (Inr (), (p, cl1))" "enabled p"
    and "init h' cfg (new_plugin e dk, cl') = (Inr (), (p', cl2))" "enabled p'"
    and gpus: "\<forall>r r'. open_reader (gpu_host h) = Inr r \<and> open_reader (gpu_host h') = Inr r' \<longrightarrow>
      reader_list (gpu_host h') r' = reader_list (gpu_host h) r"
    and hook: "is_file h' (hook_path p) = is_file h (hook_path p)"
  shows "key p' = key p" "slot p' = slot p" "limits p' alloc = limits p alloc"
proof -
  obtain p1 r gs ds where a: "read_config cfg (new_plugin e dk) = (Inr (), p1)" "open_reader (gpu_host h) = Inr r"
    "reader_list (gpu_host h) r = Inr gs"
    "traverse (to_device h (key p1)) (filter (\<lambda>g. matches (selector p1) (name g) (memory g) (uuid g)) gs) = Inr ds"
    "p = plugin_after h p1 r ds"
    by (rule init_shape [OF assms(1,2)])
  obtain p1' r' gs' ds' where b: "read_config cfg (new_plugin e dk) = (Inr (), p1')" "open_reader (gpu_host h') = Inr r'"
    "reader_list (gpu_host h') r' = Inr gs'"
    "traverse (to_device h' (key p1')) (filter (\<lambda>g. matches (selector p1') (name g) (memory g) (uuid g)) gs') = Inr ds'"
    "p' = plugin_after h' p1' r' ds'"
    by (rule init_shape [OF assms(3,4)])
  have p1: "p1' = p1" using a(1) b(1) by simp
  have gs: "gs' = gs" using gpus a(2,3) b(2,3) by simp
  have hp: "is_file h' (hook_path p1) = is_file h (hook_path p1)" using hook unfolding a(5) by (simp add: plugin_after_def)
  have k: "key p' = key p" and m: "mode p' = mode p" and rs: "reserved_memory p' = reserved_memory p"
    and spd: "shares_per_device p' = shares_per_device p" and dl: "device_list p = ds" "device_list p' = ds'"
    unfolding a(5) b(5) p1 by (simp_all add: plugin_after_def hp set_slot_types_def device_list_def)
  then show "key p' = key p" "slot p' = slot p" by (simp_all add: slot_def slot_shares_def slot_device_def)
  have same: "map (\<lambda>d. (cd_id d, cd_uuid d, cd_model d, cd_memory d)) ds' = map (\<lambda>d. (cd_id d, cd_uuid d, cd_model d, cd_memory d)) ds"
    using to_devices [OF a(4)] to_devices [OF b(4)] unfolding gs p1 by simp
  have "devices_of h p ds" "devices_of h' p' ds'"
    unfolding a(5) b(5) using a b by (auto simp: plugin_after_def devices_of_def set_slot_types_def)
  from this [THEN devices_distinct(1)] have dm: "device_map p = map (\<lambda>d. (cd_id d, d)) ds" "device_map p' = map (\<lambda>d. (cd_id d, d)) ds'"
    using device_map_eq [of p] device_map_eq [of p'] unfolding dl by simp_all
  have ids: "set (dict_keys (device_map p')) = set (dict_keys (device_map p))"
    unfolding dm using arg_cong [OF devices_map(1) [OF same], of set] by (simp add: comp_def)
  have tot: "map (\<lambda>(d, dev). (d, cd_memory dev)) (device_map p') = map (\<lambda>(d, dev). (d, cd_memory dev)) (device_map p)"
    "map (\<lambda>(d, dev). (d, cd_uuid dev)) (device_map p') = map (\<lambda>(d, dev). (d, cd_uuid dev)) (device_map p)"
    unfolding dm using devices_map(2,3) [OF same] by (simp_all add: comp_def)
  have "granted p' am = granted p am" for am unfolding granted_def ids m ..
  then show "limits p' alloc = limits p alloc"
    using k m rs spd tot by (simp add: limits_def slot_def slot_shares_def slot_device_def per_device_def)
qed

text \<open>C28: a restart keeps the allocations. Take a plugin that has created a container and one that
  the restarted agent starts with the same settings; the second sees the same GPUs as the first,
  and the enforcement library is there for both or for none. What the second applies to its
  new allocation map for the running container is one slot, the one the container was
  created with, with the recorded amounts; and the limits it computes from them are those
  that the first gave the container.\<close>

theorem restore_keeps_limits:
  assumes "init h cfg (new_plugin e dk, cl) = (Inr (), (p, cl1))" "enabled p"
    and "init h' cfg (new_plugin e dk, cl') = (Inr (), (p', cl2))" "enabled p'"
    and "\<forall>r r'. open_reader (gpu_host h) = Inr r \<and> open_reader (gpu_host h') = Inr r' \<longrightarrow>
      reader_list (gpu_host h') r' = reader_list (gpu_host h) r"
    and "is_file h' (hook_path p) = is_file h (hook_path p)"
    and "dict_get allocs (key p) = Some alloc" "limits p alloc = Inr ls"
  shows "\<exists>am. restore_from_container p' (Inr (Some allocs)) = Inr (Some [(slot p, am)]) \<and>
    amounts_for_slot alloc (slot p) = Inr am \<and> limits p' (SlotMap [(slot p, am)]) = Inr ls"
proof -
  note same = same_plugin [OF assms(1-6)]
  from assms(8) obtain am where am: "amounts_for_slot alloc (slot p) = Inr am" by (auto simp: limits_def rbind_Inr_iff)
  note d = amounts_distinct [OF am]
  have "limits p (SlotMap [(slot p, am)]) = limits p alloc" by (simp add: limits_def am amounts_single [OF d])
  then have "limits p' (SlotMap [(slot p, am)]) = Inr ls" using assms(8) same(3) by simp
  moreover have "restore_from_container p' (Inr (Some allocs)) = Inr (Some [(slot p, am)])"
    using assms(4,7) am same(1,2) by (simp add: restore_from_container_def get_or_def dict_of_id [OF d])
  ultimately show ?thesis using am by simp
qed

text \<open>The agent has another process number after its restart.\<close>

definition demo_restarted :: agent_host where
  "demo_restarted = demo_host\<lparr>agent_pid := 8\<rparr>"

theorem restore_keeps_limits_witness:
  "(case init demo_restarted [] (CUDAFracPlugin, Map.empty) of (r, (p', cl)) \<Rightarrow> r = Inr () \<and>
     restore_from_container p' (Inr (Some [(''cuda'', demo_alloc)])) = Inr (Some [(''cuda.shares'', [(''1'', 1 / 2)])]) \<and>
     limits p' (SlotMap [(''cuda.shares'', [(''1'', 1 / 2)])]) = limits demo_plugin demo_alloc)"
proof -
  obtain r p' cl2 where i: "init demo_restarted [] (CUDAFracPlugin, Map.empty) = (r, (p', cl2))" by (metis prod.exhaust)
  have "(case init demo_restarted [] (CUDAFracPlugin, Map.empty) of (r, (p', cl)) \<Rightarrow> r = Inr () \<and> enabled p')" by code_simp
  then have r: "r = Inr ()" "enabled p'" unfolding i by simp_all
  have i': "init demo_restarted [] (new_plugin ''cuda_frac'' (Some ''cuda''), Map.empty) = (Inr (), (p', cl2))"
    using i r(1) by (simp add: CUDAFracPlugin_def)
  obtain l where l: "limits demo_plugin demo_alloc = Inr [l]" by (rule demo_limits)
  have k: "dict_get [(''cuda'', demo_alloc)] (key demo_plugin) = Some demo_alloc" by (simp add: demo_plugin_def)
  have g: "gpu_host demo_restarted = gpu_host demo_host" "is_file demo_restarted = is_file demo_host"
    by (simp_all add: demo_restarted_def)
  have same: "\<forall>r r'. open_reader (gpu_host demo_host) = Inr r \<and> open_reader (gpu_host demo_restarted) = Inr r' \<longrightarrow>
      reader_list (gpu_host demo_restarted) r' = reader_list (gpu_host demo_host) r" unfolding g(1) by auto
  have hook: "is_file demo_restarted (hook_path demo_plugin) = is_file demo_host (hook_path demo_plugin)" unfolding g(2) ..
  have "amounts_for_slot demo_alloc ''cuda.shares'' = Inr [(''1'', 1 / 2)]" by code_simp
  with restore_keeps_limits [OF demo_init demo_fields(1) i' r(2) same hook k l] l show ?thesis unfolding i by (auto simp: r)
qed

definition bare_host :: agent_host where
  "bare_host = demo_host\<lparr>is_file := \<lambda>_. Inr False\<rparr>"

text \<open>C34: a change of mode forgets the running containers. Whatever its settings, a plugin that
  starts on a host without the enforcement library hands out whole devices. Of the allocations of a
  running container that was given shares before, in either form the agent records them, it
  restores none; and its new allocation map has every device that its selector takes, also
  those of which running containers hold fractions, as a whole and free.\<close>

theorem mode_change_forgets_fractions:
  assumes "init h cfg (new_plugin e dk, cl) = (Inr (), (p, cl'))" "enabled p"
    and "is_file h (hook_path p) = Inr False"
    and "dict_get allocs (key p) = Some alloc" "normalize alloc = Inr [(slot_shares p, am)]"
  shows "mode p = DISCRETE \<and> restore_from_container p (Inr (Some allocs)) = Inr (Some [(slot_device p, [])]) \<and>
    (\<exists>ds m. list_devices h p = (Inr ds, p) \<and> create_alloc_map h p = (Inr m, p) \<and>
       map_slots m = map (\<lambda>d. (cd_id d, (COUNT, slot_device p, 1))) ds \<and>
       available_slots h p = (Inr [(slot_device p, dec_rnd (of_nat (length ds)))], p))"
proof -
  from init_started [OF assms(1)] assms(2) obtain ds where ds: "devices_of h p ds" and st: "started h e p"
    by (auto simp: start_ok_def)
  have m: "mode p = DISCRETE" using st assms(2,3) by (cases "mode p") (auto simp: started_def)
  have ne: "slot_shares p \<noteq> slot_device p" by (simp add: slot_shares_def slot_device_def)
  have "amounts_for_slot alloc (slot_device p) = Inr []" using assms(5) ne by (simp add: amounts_for_slot_def get_or_def)
  then have "restore_from_container p (Inr (Some allocs)) = Inr (Some [(slot_device p, [])])"
    using assms(2,4) m by (simp add: restore_from_container_def get_or_def slot_def dict_of_def dict_update_def)
  moreover note l = list_devices_cached [OF ds assms(2)]
  moreover have "create_alloc_map h p = (Inr (DiscretePropertyAllocMap (map (\<lambda>d. (cd_id d, (COUNT, slot_device p, 1))) ds)
      (exclusive_slot_types p)), p)"
    using l m devices_distinct(1) [OF ds]
    by (simp add: create_alloc_map_def bnd_def gets_def ret_def slots_of_def dict_of_id comp_def)
  moreover have "available_slots h p = (Inr [(slot_device p, dec_rnd (of_nat (length ds)))], p)"
    using l m by (simp add: available_slots_def bnd_def gets_def ret_def dec_mul_def slot_def)
  ultimately show ?thesis using m by auto
qed

theorem mode_change_forgets_fractions_witness:
  "(case init bare_host [] (CUDAFracPlugin, Map.empty) of (r, (p, cl)) \<Rightarrow>
     r = Inr () \<and> mode p = DISCRETE \<and>
     restore_from_container p (Inr (Some [(''cuda'', demo_alloc)])) = Inr (Some [(''cuda.device'', [])]))"
proof -
  obtain r p cl where i: "init bare_host [] (CUDAFracPlugin, Map.empty) = (r, (p, cl))" by (metis prod.exhaust)
  have "(case init bare_host [] (CUDAFracPlugin, Map.empty) of (r, (p, cl)) \<Rightarrow> r = Inr () \<and> enabled p \<and> key p = ''cuda'')" by code_simp
  then have r: "r = Inr ()" "enabled p" "key p = ''cuda''" unfolding i by simp_all
  have i': "init bare_host [] (new_plugin ''cuda_frac'' (Some ''cuda''), Map.empty) = (Inr (), (p, cl))"
    using i r(1) by (simp add: CUDAFracPlugin_def)
  have h: "is_file bare_host (hook_path p) = Inr False" by (simp add: bare_host_def)
  have k: "dict_get [(''cuda'', demo_alloc)] (key p) = Some demo_alloc" using r(3) by simp
  have "normalize demo_alloc = Inr [(''cuda.shares'', [(''1'', 1 / 2)])]" by code_simp
  then have n: "normalize demo_alloc = Inr [(slot_shares p, [(''1'', 1 / 2)])]" using r(3) by (simp add: slot_shares_def)
  from mode_change_forgets_fractions [OF i' r(2) h k n] show ?thesis unfolding i using r by (simp add: slot_device_def)
qed

end
