(* ===== verification/Cli.thy ===== *)
theory Cli imports Jobspec Store_Machine Planner Config begin

text \<open>
  \<open>labgpu/spot/cli.py\<close>: the commands of \<open>labgpu-spot\<close> that work on the job database, and
  the status file between the controller (\<open>write_status\<close> of \<open>spot/daemon.py\<close>) and the
  \<open>status\<close> command; the daemon command is in \<open>Run_Daemon\<close>. A command returns its exit code with
  the lines it prints; the parsed arguments, file contents, clock readings and user identity
  are arguments.
\<close>

record cmd_result =
  exit_status :: int
  out_lines :: "string list"
  err_lines :: "string list"

definition prints :: "string list \<Rightarrow> cmd_result" where
  "prints ls = \<lparr>exit_status = 0, out_lines = ls, err_lines = []\<rparr>"

definition refuses :: "int \<Rightarrow> string \<Rightarrow> cmd_result" where
  "refuses n l = \<lparr>exit_status = n, out_lines = [], err_lines = [l]\<rparr>"

section \<open>Text formats\<close>

text \<open>\<open>f"{s:>n}"\<close> and \<open>f"{s:<n}"\<close>.\<close>

definition pad_left :: "nat \<Rightarrow> string \<Rightarrow> string" where
  "pad_left n s = replicate (n - length s) (CHR '' '') @ s"

definition pad_right :: "nat \<Rightarrow> string \<Rightarrow> string" where
  "pad_right n s = s @ replicate (n - length s) (CHR '' '')"

section \<open>Submitting\<close>

definition parse_as :: "string \<Rightarrow> (int \<times> int) result" where
  "parse_as v = (let (u, g) = partition (CHR '':'') v in
     rbind (int_of (PStr u)) (\<lambda>i. rbind (int_of (PStr (if g = [] then u else g))) (\<lambda>j. Inr (i, j))))"

fun is_job_error :: "py_exc \<Rightarrow> bool" where
  "is_job_error (JobSpecError _) = True"
| "is_job_error e = is_os_error e"

definition identity :: "string option \<Rightarrow> int \<times> int \<Rightarrow> (int \<times> int) result" where
  "identity as_user me = (case as_user of Some v \<Rightarrow> if v = [] then Inr me else parse_as v | None \<Rightarrow> Inr me)"

text \<open>\<open>spec\<close> is what \<open>JobSpec.from_toml\<close> makes of the job file. The mount sources are resolved
  twice, first by \<open>validate_mounts\<close> and then by \<open>resolved\<close>: the file system's answers at the
  two times are \<open>rp1\<close> and \<open>rp2\<close>.\<close>

definition cmd_submit :: "(string \<Rightarrow> string) \<Rightarrow> (string \<Rightarrow> string) \<Rightarrow> path list \<Rightarrow> job_spec result \<Rightarrow> string option \<Rightarrow>
    int \<times> int \<Rightarrow> rat \<Rightarrow> store \<Rightarrow> cmd_result result \<times> store" where
  "cmd_submit rp1 rp2 roots spec as_user me now st =
     (case rbind spec (\<lambda>s. rmap (\<lambda>_. s) (validate_mounts rp1 roots True s)) of
       Inl e \<Rightarrow> (if is_job_error e then Inr (refuses 2 (''invalid job: '' @ exc_str e)) else Inl e, st)
     | Inr s \<Rightarrow> (case identity as_user me of
         Inl e \<Rightarrow> (Inl e, st)
       | Inr (u, g) \<Rightarrow>
           if u = 0 then (Inr (refuses 2 ''refusing to run a spot job as root; pass --as uid:gid''), st)
           else (case resolved rp2 s of
             Inl e \<Rightarrow> (Inl e, st)
           | Inr s' \<Rightarrow> (case submit s' u g now st of
               (Inl e, st') \<Rightarrow> (Inl e, st')
             | (Inr i, st') \<Rightarrow> (Inr (prints [int_str i]), st')))))"

section \<open>Listing, cancelling, pausing\<close>

definition job_line :: "job_row \<Rightarrow> string" where
  "job_line r = pad_left 5 (int_str (jid r)) @ '' '' @ pad_right 11 (state_text (state r)) @ '' '' @
     pad_left 3 (int_str (attempts r)) @ '' '' @ pad_left 3 (int_str (preemptions r)) @ '' '' @
     pad_left 3 (int_str (priority r)) @ '' '' @
     pad_right 14 (take 14 (case gpu_uuid r of None \<Rightarrow> ''-'' | Some u \<Rightarrow> if u = [] then ''-'' else u)) @ '' '' @
     pad_right 24 (take 24 (job_name r)) @ '' '' @ (case reason r of None \<Rightarrow> [] | Some t \<Rightarrow> t)"

definition ls_header :: string where
  "ls_header = pad_left 5 ''ID'' @ '' '' @ pad_right 11 ''STATE'' @ '' '' @ pad_left 3 ''TRY'' @ '' '' @ pad_left 3 ''PRE'' @
     '' '' @ pad_left 3 ''PRI'' @ '' '' @ pad_right 14 ''GPU'' @ '' '' @ pad_right 24 ''NAME'' @ '' REASON''"

definition cmd_ls :: "bool \<Rightarrow> store \<Rightarrow> cmd_result result" where
  "cmd_ls include_finished st = rmap (\<lambda>rows. prints (ls_header # map (job_line \<circ> fst) rows)) (list_jobs include_finished st)"

definition cmd_cancel :: "int \<Rightarrow> rat \<Rightarrow> store \<Rightarrow> cmd_result result \<times> store" where
  "cmd_cancel i now st = (case cancel i now st of
     (Inl e, st') \<Rightarrow> (if is_value_error e then Inr (refuses 1 (exc_str e)) else Inl e, st')
   | (Inr cont, st') \<Rightarrow> (Inr (prints [''cancelled '' @ int_str i @
       (if cont \<noteq> None \<and> cont \<noteq> Some [] then '' (the controller will stop its container)'' else [])]), st'))"

definition cmd_pause :: "bool \<Rightarrow> string option \<Rightarrow> store \<Rightarrow> cmd_result \<times> store" where
  "cmd_pause p gpu st = (prints [(case gpu of None \<Rightarrow> ''node'' | Some g \<Rightarrow> if g = [] then ''node'' else ''GPU '' @ g) @
     '' '' @ (if p then ''paused'' else ''resumed'')], set_paused p gpu st)"

section \<open>The status file\<close>

fun gpu_state_text :: "gpu_state \<Rightarrow> string" where
  "gpu_state_text BUSY = ''BUSY''"
| "gpu_state_text IDLE = ''IDLE''"
| "gpu_state_text LENDABLE = ''LENDABLE''"
| "gpu_state_text LENT = ''LENT''"
| "gpu_state_text RECLAIMING = ''RECLAIMING''"
| "gpu_state_text UNKNOWN = ''UNKNOWN''"

definition verdict_doc :: "gpu_verdict \<Rightarrow> pyval" where
  "verdict_doc v = PDict [(''uuid'', PStr (v_uuid v)), (''state'', PStr (gpu_state_text (v_state v))),
     (''lendable'', PBool (lendable v)), (''must_reclaim'', PBool (must_reclaim v)),
     (''reasons'', PList (map PStr (v_reasons v))), (''lendable_memory'', PInt (lendable_memory v)),
     (''idle_for'', PFloat (idle_for v)), (''model'', PStr (v_model v))]"

definition status_doc :: "rat \<Rightarrow> verdicts \<Rightarrow> pyval" where
  "status_doc now vs = PDict [(''updated_at'', PFloat now), (''gpus'', PList (map (verdict_doc \<circ> snd) vs))]"

text \<open>Reading it: \<open>d[k]\<close> on a decoded value, whose fields must have the types they are printed
  as.\<close>

definition field :: "pyval \<Rightarrow> string \<Rightarrow> (pyval \<Rightarrow> 'a option) \<Rightarrow> 'a result" where
  "field v k read = (case v of PDict d \<Rightarrow> rbind (doc_key d k) (\<lambda>w. untyped (read w))
     | _ \<Rightarrow> Inl (TypeError ''not indexed by keys''))"

fun as_list :: "pyval \<Rightarrow> pyval list option" where
  "as_list (PList xs) = Some xs"
| "as_list _ = None"

definition as_strings :: "pyval \<Rightarrow> string list option" where
  "as_strings v = (case as_list v of None \<Rightarrow> None | Some xs \<Rightarrow> if list_all is_str xs then Some (map the_str xs) else None)"

definition gpu_line :: "string set \<Rightarrow> pyval \<Rightarrow> string result" where
  "gpu_line gpus_paused g =
     rbind (field g ''uuid'' as_str) (\<lambda>u.
     rbind (field g ''state'' as_str) (\<lambda>s.
     rbind (field g ''idle_for'' as_float) (\<lambda>idle.
     rbind (field g ''lendable_memory'' as_int) (\<lambda>mem.
     rbind (field g ''reasons'' as_strings) (\<lambda>rs. Inr
       (u @ ''  '' @ pad_right 10 s @ '' idle '' @ pad_left 6 (fixed 1 (fdiv idle 60)) @ ''m  '' @
        ''lendable '' @ pad_left 7 (int_str (mem div 2 ^ 20)) @ ''MiB'' @
        (if u \<in> gpus_paused then '' [paused]'' else []) @ ''  '' @ join ''; '' rs))))))"

definition cmd_status :: "pyval result \<Rightarrow> rat \<Rightarrow> store \<Rightarrow> cmd_result result" where
  "cmd_status file now st = (case file of
     Inl e \<Rightarrow> if is_os_error e then Inr (refuses 1 ''no status yet: is the daemon running?'') else Inl e
   | Inr status \<Rightarrow>
       rbind (field status ''updated_at'' as_float) (\<lambda>t.
       rbind (field status ''gpus'' as_list) (\<lambda>gs.
       rbind (traverse (gpu_line (snd (paused st))) gs) (\<lambda>ls. Inr (prints
         ((''updated '' @ fixed 0 (fsub now t) @ ''s ago'' @ (if fst (paused st) then ''  [NODE PAUSED]'' else [])) # ls))))))"

section \<open>Dispatch\<close>

datatype command =
    Submit_Job "job_spec result" "string option"
  | List_Jobs bool
  | Cancel_Job int
  | Show_Status "pyval result"
  | Pause "string option"
  | Resume "string option"

text \<open>\<open>main\<close> after the parsing of arguments and configuration, for all commands but \<open>daemon\<close>.\<close>

fun main :: "(string \<Rightarrow> string) \<Rightarrow> (string \<Rightarrow> string) \<Rightarrow> path list \<Rightarrow> int \<times> int \<Rightarrow> rat \<Rightarrow> command \<Rightarrow> store \<Rightarrow> cmd_result result \<times> store" where
  "main rp1 rp2 roots me now (Submit_Job spec as_user) st = cmd_submit rp1 rp2 roots spec as_user me now st"
| "main rp1 rp2 roots me now (List_Jobs include_finished) st = (cmd_ls include_finished st, st)"
| "main rp1 rp2 roots me now (Cancel_Job i) st = cmd_cancel i now st"
| "main rp1 rp2 roots me now (Show_Status file) st = (cmd_status file now st, st)"
| "main rp1 rp2 roots me now (Pause gpu) st = (let (o1, st') = cmd_pause True gpu st in (Inr o1, st'))"
| "main rp1 rp2 roots me now (Resume gpu) st = (let (o1, st') = cmd_pause False gpu st in (Inr o1, st'))"


section \<open>Facts\<close>

text \<open>Whatever the controller writes to the status file, the \<open>status\<close> command prints one line
  per GPU.\<close>

definition status_line :: "string set \<Rightarrow> gpu_verdict \<Rightarrow> string" where
  "status_line gpus_paused v = v_uuid v @ ''  '' @ pad_right 10 (gpu_state_text (v_state v)) @ '' idle '' @
     pad_left 6 (fixed 1 (fdiv (idle_for v) 60)) @ ''m  '' @ ''lendable '' @
     pad_left 7 (int_str (lendable_memory v div 2 ^ 20)) @ ''MiB'' @
     (if v_uuid v \<in> gpus_paused then '' [paused]'' else []) @ ''  '' @ join ''; '' (v_reasons v)"

lemma strings_of_doc: "as_strings (PList (map PStr xs)) = Some xs"
  by (simp add: as_strings_def list_all_iff comp_def)

lemma gpu_line_doc: "gpu_line ps (verdict_doc v) = Inr (status_line ps v)"
  by (simp add: gpu_line_def verdict_doc_def field_def doc_key_def untyped_def strings_of_doc status_line_def)

lemma status_readable: "\<exists>l. cmd_status (Inr (status_doc t vs)) now st =
    Inr (prints (l # map (status_line (snd (paused st)) \<circ> snd) vs))"
proof -
  have "traverse (gpu_line (snd (paused st))) (map (verdict_doc \<circ> snd) vs) = Inr (map (status_line (snd (paused st)) \<circ> snd) vs)"
    by (induction vs) (simp_all add: gpu_line_doc)
  then show ?thesis
    by (simp add: cmd_status_def status_doc_def field_def doc_key_def untyped_def) (intro conjI impI exI; rule refl)
qed

lemma resolved_mount:
  assumes "resolved rp s = Inr s'" "m \<in> set (mounts s')"
  obtains m0 p where "m0 \<in> set (mounts s)" "src m0 = PStr p" "src m = PStr (rp p)" "dst m = dst m0"
proof -
  from assms(1) obtain ms where ms: "traverse (\<lambda>m. rmap (\<lambda>p. m\<lparr>src := PStr (rp p)\<rparr>) (str_arg (src m))) (mounts s) = Inr ms"
    and s': "s' = s\<lparr>mounts := ms\<rparr>" by (auto simp: resolved_def rmap_Inr_iff)
  from assms(2) s' obtain i where i: "i < length ms" "m = ms ! i" by (auto simp: in_set_conv_nth)
  with ms have "i < length (mounts s)" "rmap (\<lambda>p. (mounts s ! i)\<lparr>src := PStr (rp p)\<rparr>) (str_arg (src (mounts s ! i))) = Inr m"
    by (auto simp: traverse_Inr_iff list_all2_conv_all_nth)
  then show thesis using that [of "mounts s ! i"]
    by (auto simp: rmap_Inr_iff str_arg_def split: pyval.splits)
qed

section \<open>Properties\<close>

text \<open>C30: what \<open>submit\<close> queues. If the file system does not change while the command runs, a job
  is queued exactly when the command exits with 0; it then is one new job, under the printed
  number, run by a user other than root. Every mount it records is a resolved path that, with
  backslashes read as slashes, is an absolute one under one of the allowed roots; so a path
  without backslashes is itself one (if the roots have none). In every other case, refusal
  or exception, the database is left as it was.\<close>

theorem submitted_job_safe:
  assumes "cmd_submit rp rp roots spec as_user me now st = (r, st')"
  shows "(\<exists>out s s' u g. r = Inr out \<and> exit_status out = 0 \<and> out_lines out = [int_str (next_id st)] \<and>
      spec = Inr s \<and> identity as_user me = Inr (u, g) \<and> u \<noteq> 0 \<and>
      resolved rp s = Inr s' \<and> submit s' u g now st = (Inr (next_id st), st') \<and>
      (\<forall>m \<in> set (mounts s'). \<exists>p. src m = PStr p \<and> is_absolute (path_of (fold_backslashes p)) \<and>
         (\<exists>d \<in> set roots. is_relative_to (path_of (fold_backslashes p)) (path_of (fold_backslashes (path_str d)))) \<and>
         (no_backslash p \<and> (\<forall>d \<in> set roots. wf_path d \<and> no_backslash (path_str d)) \<longrightarrow>
            is_absolute (path_of p) \<and> (\<exists>d \<in> set roots. is_relative_to (path_of p) d)))) \<or>
    (\<forall>out. r = Inr out \<longrightarrow> exit_status out \<noteq> 0) \<and> st' = st"
proof (cases "\<exists>s. spec = Inr s \<and> validate_mounts rp roots True s = Inr ()")
  case False
  then have "\<exists>e. rbind spec (\<lambda>s. rmap (\<lambda>_. s) (validate_mounts rp roots True s)) = Inl e"
    by (cases spec; cases "validate_mounts rp roots True (projr spec)") auto
  then show ?thesis using assms(1) by (auto simp: cmd_submit_def refuses_def split: if_splits)
next
  case True
  then obtain s where s: "spec = Inr s" and v: "validate_mounts rp roots True s = Inr ()" by blast
  have run: "cmd_submit rp rp roots spec as_user me now st = (case identity as_user me of Inl e \<Rightarrow> (Inl e, st) | Inr (u, g) \<Rightarrow>
      if u = 0 then (Inr (refuses 2 ''refusing to run a spot job as root; pass --as uid:gid''), st)
      else (case resolved rp s of Inl e \<Rightarrow> (Inl e, st) | Inr s' \<Rightarrow> (case submit s' u g now st of
        (Inl e, st') \<Rightarrow> (Inl e, st') | (Inr i, st') \<Rightarrow> (Inr (prints [int_str i]), st'))))"
    by (simp add: cmd_submit_def s v)
  have inside: "\<exists>p. src m = PStr p \<and> is_absolute (path_of (fold_backslashes p)) \<and>
         (\<exists>d \<in> set roots. is_relative_to (path_of (fold_backslashes p)) (path_of (fold_backslashes (path_str d)))) \<and>
         (no_backslash p \<and> (\<forall>d \<in> set roots. wf_path d \<and> no_backslash (path_str d)) \<longrightarrow>
            is_absolute (path_of p) \<and> (\<exists>d \<in> set roots. is_relative_to (path_of p) d))"
    if "resolved rp s = Inr s'" "m \<in> set (mounts s')" for s' m
  proof -
    from that obtain m0 p where m0: "m0 \<in> set (mounts s)" "src m0 = PStr p" "src m = PStr (rp p)" by (rule resolved_mount)
    have "validate_mount rp roots True m0 = Inr ()" using v m0(1) by (simp add: validate_mounts_iff)
    then obtain d where d: "is_absolute (path_of (fold_backslashes (rp p)))" "d \<in> set roots"
      "is_relative_to (path_of (fold_backslashes (rp p))) (path_of (fold_backslashes (path_str d)))"
      unfolding validate_mount_iff using m0(2) by (auto simp: Let_def)
    moreover have "is_absolute (path_of (rp p)) \<and> is_relative_to (path_of (rp p)) d"
      if "no_backslash (rp p)" "\<forall>d \<in> set roots. wf_path d \<and> no_backslash (path_str d)"
      using d that fold_plain [OF that(1)] fold_root [of d] by simp
    ultimately show ?thesis using m0(3) by blast
  qed
  consider (no_id) e where "identity as_user me = Inl e" | (root) g where "identity as_user me = Inr (0, g)"
    | (bad) u g e where "identity as_user me = Inr (u, g)" "u \<noteq> 0" "resolved rp s = Inl e"
    | (go) u g s' where "identity as_user me = Inr (u, g)" "u \<noteq> 0" "resolved rp s = Inr s'"
    by (cases "identity as_user me"; cases "resolved rp s") auto
  then show ?thesis
  proof cases
    case go
    show ?thesis
    proof (cases "fst (submit s' u g now st)")
      case (Inl e)
      then have "r = Inl e \<and> st' = st" using assms(1) go by (auto simp: run submit_def split: if_splits)
      then show ?thesis by simp
    next
      case (Inr i)
      then have "submit s' u g now st = (Inr (next_id st), st')" "r = Inr (prints [int_str (next_id st)])"
        using assms(1) go by (auto simp: run submit_def split: if_splits)
      then show ?thesis using go s inside [OF go(3)] by (auto simp: prints_def)
    qed
  qed (use assms(1) in \<open>auto simp: run refuses_def\<close>)
qed

theorem submitted_job_safe_witness:
  "\<exists>out st'. cmd_submit (\<lambda>p. p) (\<lambda>p. p) [path_of ''/vfroot''] (Inr demo_spec) (Some ''1000'') (0, 0) 5 empty_store = (Inr out, st') \<and>
     out_lines out = [''1''] \<and> map uid (jobs st') = [1000]"
proof -
  let ?r = "[path_of ''/vfroot'']"
  obtain r st' where c: "cmd_submit (\<lambda>p. p) (\<lambda>p. p) ?r (Inr demo_spec) (Some ''1000'') (0, 0) 5 empty_store = (r, st')"
    by (metis surj_pair)
  have "map_sum id exit_status (fst (cmd_submit (\<lambda>p. p) (\<lambda>p. p) ?r (Inr demo_spec) (Some ''1000'') (0, 0) 5 empty_store)) = Inr 0"
    by code_simp
  then obtain out where r: "r = Inr out" "exit_status out = 0" unfolding c by (cases r) auto
  with submitted_job_safe [OF c] have "out_lines out = [int_str (next_id empty_store)]" by auto
  moreover have "int_str (next_id empty_store) = ''1''" by code_simp
  moreover have "map uid (jobs (snd (cmd_submit (\<lambda>p. p) (\<lambda>p. p) ?r (Inr demo_spec) (Some ''1000'') (0, 0) 5 empty_store))) = [1000]"
    by code_simp
  ultimately show ?thesis using c r by (intro exI [of _ out] exI [of _ st']) simp
qed

text \<open>The check of the mounts does not bind what is mounted. The sources are resolved once for
  the check and again for the record, so a link changed between the two lets an accepted job
  mount a directory outside every allowed root; nothing looks at the sources again when the
  job is launched.\<close>

theorem mount_changed_after_check:
  "(let (r, st) = cmd_submit (\<lambda>p. p) (\<lambda>_. ''/etc'') [path_of ''/vfroot''] (Inr demo_spec) None (1000, 1000) 5 empty_store
    in map_sum id exit_status r = Inr 0 \<and>
       map (\<lambda>row. map_sum id (map src \<circ> mounts) (from_json (spec_doc row))) (jobs st) = [Inr [PStr ''/etc'']] \<and>
       \<not> is_relative_to (path_of ''/etc'') (path_of ''/vfroot''))"
  by code_simp

end
