(* ===== verification/Docker_Cli.thy ===== *)
theory Docker_Cli imports Docker Py_Num begin

text \<open>
  The object \<open>DockerCli\<close> of \<open>labgpu/spot/docker.py\<close> with the \<open>docker stop\<close> processes it has
  started: starting one without blocking, dropping the ones that have ended, and waiting for
  the rest at shutdown. Time is the monotonic clock in seconds; the differences the code
  computes are floats.
\<close>

section \<open>Stop processes\<close>

text \<open>A started process is its number and the time at which it ends, if it ever does.\<close>

record stop_process =
  sp_pid :: int
  sp_end :: "rat option"

record docker_cli =
  docker_program :: string
  docker_timeout :: rat
  stoppers :: "stop_process list"

definition new_docker_cli :: docker_cli where
  "new_docker_cli = \<lparr>docker_program = ''docker'', docker_timeout = 30, stoppers = []\<rparr>"

text \<open>\<open>p.poll() is None\<close> at a time.\<close>

definition still_runs :: "rat \<Rightarrow> stop_process \<Rightarrow> bool" where
  "still_runs t p = (case sp_end p of None \<Rightarrow> True | Some e \<Rightarrow> t < e)"

definition reap :: "rat \<Rightarrow> docker_cli \<Rightarrow> docker_cli" where
  "reap t c = c\<lparr>stoppers := filter (still_runs t) (stoppers c)\<rparr>"

text \<open>\<open>stop_async\<close> of the object: \<open>start\<close> tells what starting a program comes to.\<close>

definition cli_stop :: "rat \<Rightarrow> (string list \<Rightarrow> py_exc + stop_process) \<Rightarrow> string \<Rightarrow> int \<Rightarrow> docker_cli \<Rightarrow> unit result \<times> docker_cli" where
  "cli_stop t start cont grace c = (case stop_async (still_runs t) (\<lambda>args. start (docker_program c # args)) cont grace (stoppers c) of
     (r, ps) \<Rightarrow> (r, c\<lparr>stoppers := ps\<rparr>))"

section \<open>Waiting\<close>

text \<open>\<open>p.wait(limit)\<close> called at a time: whether the process ended within the limit, and the time
  when the call returns or raises \<open>TimeoutExpired\<close>.\<close>

definition wait_process :: "rat \<Rightarrow> rat \<Rightarrow> stop_process \<Rightarrow> bool \<times> rat" where
  "wait_process limit now p = (case sp_end p of
     Some e \<Rightarrow> if e \<le> now + limit then (True, max now e) else (False, now + limit)
   | None \<Rightarrow> (False, now + limit))"

text \<open>The loop of \<open>wait_stops\<close>. \<open>lag\<close> is what each round takes beyond the wait itself. The second
  component is the processes that a warning is logged for.\<close>

fun wait_each :: "(nat \<Rightarrow> rat) \<Rightarrow> rat \<Rightarrow> stop_process list \<Rightarrow> rat \<Rightarrow> rat \<times> int list" where
  "wait_each lag deadline [] now = (now, [])"
| "wait_each lag deadline (p # ps) now =
     (let (ended, t) = wait_process (max (fsub deadline now) (fl (1 / 10))) now p;
          (t', slow) = wait_each (lag \<circ> Suc) deadline ps (t + lag 0)
      in (t', if ended then slow else sp_pid p # slow))"

definition wait_stops :: "(nat \<Rightarrow> rat) \<Rightarrow> int \<Rightarrow> rat \<Rightarrow> docker_cli \<Rightarrow> (rat \<times> int list) \<times> docker_cli" where
  "wait_stops lag timeout now c =
     (let (t, slow) = wait_each lag (fadd now (of_int timeout)) (stoppers c) now in ((t, slow), reap t c))"

section \<open>Bounds\<close>

text \<open>A float of at most \<open>2\<^sup>3\<^sup>2\<close> seconds is within a microsecond of the exact value.\<close>

definition microsecond :: rat where
  "microsecond = 1 / 1000000"

lemma microsecond_nonneg: "0 \<le> microsecond"
  by (simp add: microsecond_def)

lemma fl_second:
  assumes "\<bar>x\<bar> \<le> 2 ^ 32"
  shows "\<bar>fl x - x\<bar> \<le> microsecond"
proof -
  have p: "pow_int 2 (1 - int 53) = 1 / 2 ^ 52" using pow_int_neg_nat [of 2 52] by simp
  have m: "pow_int 2 (-1074) \<le> pow_int 2 (- int 32)" by (rule pow_int_mono) simp_all
  have q: "pow_int 2 (- int 32) = 1 / 2 ^ 32" by (simp only: pow_int_neg_nat) simp
  have "\<bar>fl x - x\<bar> \<le> \<bar>x\<bar> * pow_int 2 (1 - int 53) / 2 + pow_int 2 (-1074) / 2"
    unfolding fl_def by (rule round_to_error) simp_all
  also have "\<dots> \<le> 2 ^ 32 * (1 / 2 ^ 52) / 2 + (1 / 2 ^ 32) / 2"
    using assms m unfolding p q by (intro add_mono divide_right_mono mult_right_mono) simp_all
  also have "\<dots> \<le> microsecond" by (simp add: microsecond_def)
  finally show ?thesis .
qed

definition slice :: rat where
  "slice = 1 / 10 + microsecond"

lemma wait_limit:
  assumes "deadline \<le> 2 ^ 32" "0 \<le> now"
  defines "l \<equiv> max (fsub deadline now) (fl (1 / 10))"
  shows "now + l \<le> max now deadline + slice" "deadline - microsecond \<le> now + l" "0 \<le> l"
proof -
  have tenth: "\<bar>fl (1 / 10) - 1 / 10\<bar> \<le> microsecond" by (rule fl_second) simp
  show "0 \<le> l" using fl_nonneg [of "1 / 10"] unfolding l_def by simp
  show "now + l \<le> max now deadline + slice"
  proof (cases "now \<le> deadline")
    case True
    then have "\<bar>fsub deadline now - (deadline - now)\<bar> \<le> microsecond"
      using assms(1,2) unfolding fsub_def by (intro fl_second) simp
    then have "fsub deadline now \<le> deadline - now + microsecond" by linarith
    moreover have "fl (1 / 10) \<le> 1 / 10 + microsecond" using tenth by linarith
    ultimately have "l \<le> (deadline - now) + (1 / 10 + microsecond)" using True unfolding l_def by simp
    then show ?thesis using True unfolding slice_def by simp
  next
    case False
    then have "fsub deadline now \<le> 0" unfolding fsub_def by (intro fl_nonpos) simp
    then have "l \<le> 1 / 10 + microsecond" using tenth microsecond_nonneg unfolding l_def by simp
    then show ?thesis using False unfolding slice_def by simp
  qed
  show "deadline - microsecond \<le> now + l"
  proof (cases "now \<le> deadline")
    case True
    then have "\<bar>fsub deadline now - (deadline - now)\<bar> \<le> microsecond"
      using assms(1,2) unfolding fsub_def by (intro fl_second) simp
    then have "deadline - now - microsecond \<le> fsub deadline now" by linarith
    then show ?thesis unfolding l_def by (auto simp: max_def)
  qed (use microsecond_nonneg \<open>0 \<le> l\<close> in linarith)
qed

lemma wait_process_bounds:
  assumes "0 \<le> limit" "wait_process limit now p = (ended, t)"
  shows "now \<le> t" "t \<le> now + limit" "\<not> ended \<Longrightarrow> t = now + limit \<and> still_runs t p" "ended \<Longrightarrow> \<not> still_runs t p"
  using assms by (auto simp: wait_process_def still_runs_def split: option.splits if_splits)

lemma wait_each_bounds:
  assumes "wait_each lag deadline ps now = (t, slow)" "deadline \<le> 2 ^ 32" "0 \<le> now" "\<And>i. 0 \<le> lag i"
  shows "now \<le> t" "t \<le> max now deadline + (\<Sum>i < length ps. slice + lag i)"
    "\<And>p e. p \<in> set ps \<Longrightarrow> sp_end p = Some e \<Longrightarrow> e \<le> deadline - microsecond \<Longrightarrow> e \<le> t"
    "\<And>p. p \<in> set ps \<Longrightarrow> \<not> still_runs t p \<or> sp_pid p \<in> set slow"
    "set slow \<subseteq> sp_pid ` set ps"
proof -
  have "now \<le> t \<and> t \<le> max now deadline + (\<Sum>i < length ps. slice + lag i) \<and>
      (\<forall>p \<in> set ps. \<forall>e. sp_end p = Some e \<longrightarrow> e \<le> deadline - microsecond \<longrightarrow> e \<le> t) \<and>
      (\<forall>p \<in> set ps. \<not> still_runs t p \<or> sp_pid p \<in> set slow) \<and> set slow \<subseteq> sp_pid ` set ps"
    using assms(1,3,4)
  proof (induction ps arbitrary: lag now t slow)
    case (Cons p ps)
    let ?l = "max (fsub deadline now) (fl (1 / 10))"
    obtain ended t1 where w: "wait_process ?l now p = (ended, t1)" by fastforce
    obtain t2 slow2 where r: "wait_each (lag \<circ> Suc) deadline ps (t1 + lag 0) = (t2, slow2)" by fastforce
    have eq: "t = t2" "slow = (if ended then slow2 else sp_pid p # slow2)" using Cons.prems(1) w r by simp_all
    note lim = wait_limit [OF assms(2) Cons.prems(2)]
    note b = wait_process_bounds [OF lim(3) w]
    have lag: "0 \<le> lag 0" "\<And>i. 0 \<le> (lag \<circ> Suc) i" using Cons.prems(3) by simp_all
    have "0 \<le> t1 + lag 0" using b(1) lag(1) Cons.prems(2) by linarith
    from Cons.IH [OF r this lag(2)] have ih: "t1 + lag 0 \<le> t"
      "t \<le> max (t1 + lag 0) deadline + (\<Sum>i < length ps. slice + (lag \<circ> Suc) i)"
      "\<forall>p \<in> set ps. \<forall>e. sp_end p = Some e \<longrightarrow> e \<le> deadline - microsecond \<longrightarrow> e \<le> t"
      "\<forall>p \<in> set ps. \<not> still_runs t p \<or> sp_pid p \<in> set slow2" "set slow2 \<subseteq> sp_pid ` set ps"
      unfolding eq(1) by simp_all
    have "t1 \<le> t" using ih(1) lag(1) by simp
    have slice: "0 \<le> slice" by (simp add: slice_def microsecond_def)
    have "max (t1 + lag 0) deadline \<le> max now deadline + (slice + lag 0)"
      using b(2) lim(1) lag(1) slice by simp
    moreover have "(\<Sum>i < length (p # ps). slice + lag i) = (slice + lag 0) + (\<Sum>i < length ps. slice + (lag \<circ> Suc) i)"
      by (simp add: sum.lessThan_Suc_shift del: sum.lessThan_Suc)
    ultimately have "t \<le> max now deadline + (\<Sum>i < length (p # ps). slice + lag i)" using ih(2) by linarith
    moreover have "e \<le> t" if "sp_end p = Some e" "e \<le> deadline - microsecond" for e
      using that b(3,4) lim(2) \<open>t1 \<le> t\<close> by (cases ended) (auto simp: still_runs_def)
    moreover have "\<not> still_runs t p \<or> sp_pid p \<in> set slow"
      using b(4) \<open>t1 \<le> t\<close> unfolding eq(2) by (cases ended) (auto simp: still_runs_def split: option.splits)
    ultimately show ?case using ih(3-5) b(1) \<open>t1 \<le> t\<close> unfolding eq(2) by auto
  qed simp
  then show "now \<le> t" "t \<le> max now deadline + (\<Sum>i < length ps. slice + lag i)"
    "\<And>p e. p \<in> set ps \<Longrightarrow> sp_end p = Some e \<Longrightarrow> e \<le> deadline - microsecond \<Longrightarrow> e \<le> t"
    "\<And>p. p \<in> set ps \<Longrightarrow> \<not> still_runs t p \<or> sp_pid p \<in> set slow"
    "set slow \<subseteq> sp_pid ` set ps" by blast+
qed

end
