(* ===== verification/Serve.thy ===== *)
theory Serve imports Daemon_Safety Daemon_Keeps Docker_Cli begin

text \<open>
  \<open>run_forever\<close> of \<open>labgpu/spot/daemon.py\<close> in time: the loop until a signal sets the stop
  event, the waits between the rounds, the reclaim at shutdown and the wait for the
  \<open>docker stop\<close> processes. \<open>Daemon.run_loop\<close> says what the rounds do; here is when they run
  and that they end.
\<close>

section \<open>The loop\<close>

text \<open>What happens from outside, on the monotonic clock: what the n-th round meets (its clock
  reading aside) and how long it takes, when a signal arrives, and what \<open>clock\<close>, the wall
  clock, shows.\<close>

record schedule =
  outside :: "nat \<Rightarrow> loop_round"
  took :: "nat \<Rightarrow> rat"
  signal_at :: "rat option"
  wall :: "rat \<Rightarrow> rat"

definition stop_set :: "schedule \<Rightarrow> rat \<Rightarrow> bool" where
  "stop_set sch t = (case signal_at sch of None \<Rightarrow> False | Some s \<Rightarrow> s \<le> t)"

text \<open>\<open>stop.wait(timeout)\<close> called at a time: when it returns.\<close>

definition wait_stop :: "schedule \<Rightarrow> rat \<Rightarrow> rat \<Rightarrow> rat" where
  "wait_stop sch timeout t = (case signal_at sch of None \<Rightarrow> t + timeout | Some s \<Rightarrow> max t (min s (t + timeout)))"

definition pause_length :: "config \<Rightarrow> rat \<Rightarrow> rat \<Rightarrow> rat" where
  "pause_length cfg started finished = max (fsub (poll_interval (controller cfg)) (fsub finished started)) (1 / 2)"

definition round_at :: "schedule \<Rightarrow> nat \<Rightarrow> rat \<Rightarrow> loop_round" where
  "round_at sch n t = (outside sch n)\<lparr>round_time := wall sch t\<rparr>"

definition next_start :: "config \<Rightarrow> schedule \<Rightarrow> nat \<Rightarrow> rat \<Rightarrow> rat" where
  "next_start cfg sch n t = (let t' = t + took sch n
     in wait_stop sch (pause_length cfg (wall sch t) (wall sch t')) t')"

text \<open>The loop may run forever: then its value is \<open>None\<close>. It gives the times at which its rounds
  started, the time of its end and the controller.\<close>

partial_function (option) serve_loop :: "config \<Rightarrow> schedule \<Rightarrow> nat \<Rightarrow> rat \<Rightarrow> ctl \<Rightarrow> (rat list \<times> rat \<times> ctl) option" where
  "serve_loop cfg sch n t c =
     (if stop_set sch t then Some ([], t, c)
      else Option.bind (serve_loop cfg sch (Suc n) (next_start cfg sch n t) (snd (loop_step cfg (round_at sch n t) c)))
             (\<lambda>(ts, r). Some (t # ts, r)))"

text \<open>The stops the controller asked for, and the object that started them, the \<open>k\<close>-th at the time
  \<open>ats k\<close> with the outcome \<open>starts k\<close>.\<close>

definition stops_of :: "daemon_event list \<Rightarrow> string list" where
  "stops_of h = List.map_filter (\<lambda>e. case e of Stopping s ok \<Rightarrow> Some s | _ \<Rightarrow> None) h"

fun start_stops :: "(nat \<Rightarrow> rat) \<Rightarrow> (nat \<Rightarrow> string list \<Rightarrow> py_exc + stop_process) \<Rightarrow> int \<Rightarrow> string list \<Rightarrow> docker_cli \<Rightarrow> docker_cli" where
  "start_stops ats starts grace [] cli = cli"
| "start_stops ats starts grace (s # ss) cli =
     start_stops (\<lambda>k. ats (Suc k)) (\<lambda>k. starts (Suc k)) grace ss (snd (cli_stop (ats 0) (starts 0) s grace cli))"

text \<open>The exit of the daemon: when it is over, and the stops that still run.\<close>

record shutdown =
  exit_time :: rat
  unfinished :: "int list"

text \<open>\<open>run_forever\<close>: when reclaiming raises, nothing is waited for. Reclaiming takes \<open>reclaim_time\<close>;
  no stop starts after it.\<close>

definition serve :: "config \<Rightarrow> schedule \<Rightarrow> rat \<Rightarrow> tick_env \<Rightarrow> rat \<Rightarrow> (nat \<Rightarrow> rat) \<Rightarrow>
    (nat \<Rightarrow> string list \<Rightarrow> py_exc + stop_process) \<Rightarrow> (nat \<Rightarrow> rat) \<Rightarrow> ctl \<Rightarrow> (shutdown result \<times> ctl) option" where
  "serve cfg sch t0 te reclaim_time ats starts lag c =
     (case serve_loop cfg sch 0 t0 c of
       None \<Rightarrow> None
     | Some (_, t, c1) \<Rightarrow> Some (case reclaim_all te ''controller shutdown'' c1 of
         (Inl e, c2) \<Rightarrow> (Inl e, c2)
       | (Inr _, c2) \<Rightarrow>
           (let grace = grace_seconds (reclaim cfg);
                t1 = t + reclaim_time;
                cli = start_stops (\<lambda>k. min (ats k) t1) starts grace (stops_of (history c2)) new_docker_cli;
                ((t', slow), _) = wait_stops lag (grace + 10) t1 cli
            in (Inr \<lparr>exit_time = t', unfinished = slow\<rparr>, c2))))"

section \<open>Rounds\<close>

text \<open>The rounds that start at given times, from the n-th on.\<close>

fun rounds_at :: "schedule \<Rightarrow> nat \<Rightarrow> rat list \<Rightarrow> loop_round list" where
  "rounds_at sch n [] = []"
| "rounds_at sch n (t # ts) = round_at sch n t # rounds_at sch (Suc n) ts"

text \<open>Times of which each is the start that follows the one before.\<close>

fun starts_follow :: "config \<Rightarrow> schedule \<Rightarrow> nat \<Rightarrow> rat list \<Rightarrow> rat \<Rightarrow> bool" where
  "starts_follow cfg sch n [] t \<longleftrightarrow> stop_set sch t"
| "starts_follow cfg sch n (s # ts) t \<longleftrightarrow> \<not> stop_set sch s \<and>
     (case ts of [] \<Rightarrow> t | s' # _ \<Rightarrow> s') = next_start cfg sch n s \<and> starts_follow cfg sch (Suc n) ts t"

lemma serve_loop_run:
  "serve_loop cfg sch n t c = Some (ts, t', c') \<Longrightarrow>
    c' = run_loop cfg (rounds_at sch n ts) c \<and> starts_follow cfg sch n ts t' \<and> (case ts of [] \<Rightarrow> t' | s # _ \<Rightarrow> s) = t"
proof (induction ts arbitrary: n t c)
  case Nil
  then show ?case
    by (subst (asm) serve_loop.simps) (auto simp: run_loop_def split: if_splits Option.bind_splits)
next
  case (Cons s ts)
  let ?c = "snd (loop_step cfg (round_at sch n t) c)" and ?t = "next_start cfg sch n t"
  from Cons.prems have s: "\<not> stop_set sch t" "s = t" and rest: "serve_loop cfg sch (Suc n) ?t ?c = Some (ts, t', c')"
    by (subst (asm) serve_loop.simps; auto split: if_splits Option.bind_splits)+
  from Cons.IH [OF rest] s show ?case by (simp add: run_loop_def)
qed

text \<open>The rounds are at least half a second apart, unless the signal comes.\<close>

lemma next_start_late:
  assumes "0 \<le> took sch n"
  shows "t + took sch n \<le> next_start cfg sch n t" "t + 1 / 2 \<le> next_start cfg sch n t \<or> stop_set sch (next_start cfg sch n t)"
  using assms
  by (auto simp: next_start_def wait_stop_def pause_length_def stop_set_def Let_def min_def max_def split: option.splits)

lemma next_start_signal:
  "signal_at sch = Some s \<Longrightarrow> 0 \<le> took sch n \<Longrightarrow> next_start cfg sch n t \<le> max s (t + took sch n)"
  by (auto simp: next_start_def wait_stop_def Let_def)

text \<open>With a signal the loop ends: every round brings the signal half a second nearer.\<close>

lemma serve_loop_ends:
  assumes "signal_at sch = Some s" "\<And>k. 0 \<le> took sch k"
  shows "\<exists>ts t' c'. serve_loop cfg sch n t c = Some (ts, t', c') \<and> length ts \<le> nat \<lceil>2 * (s - t)\<rceil>"
proof (induction "nat \<lceil>2 * (s - t)\<rceil>" arbitrary: n t c rule: less_induct)
  case less
  show ?case
  proof (cases "stop_set sch t")
    case True
    then show ?thesis by (subst serve_loop.simps) simp
  next
    case False
    let ?t = "next_start cfg sch n t" and ?c = "snd (loop_step cfg (round_at sch n t) c)"
    have ts: "t < s" using False assms(1) by (simp add: stop_set_def)
    show ?thesis
    proof (cases "stop_set sch ?t")
      case True
      have "serve_loop cfg sch (Suc n) ?t ?c = Some ([], ?t, ?c)" using True by (subst serve_loop.simps) simp
      then have "serve_loop cfg sch n t c = Some ([t], ?t, ?c)" using False by (subst serve_loop.simps) simp
      moreover have "1 \<le> \<lceil>2 * (s - t)\<rceil>" using ts by (simp add: le_ceiling_iff)
      then have "length [t] \<le> nat \<lceil>2 * (s - t)\<rceil>" by (simp only: list.size)
      ultimately show ?thesis by blast
    next
      case go: False
      then have late: "t + 1 / 2 \<le> ?t" using next_start_late(2) [OF assms(2)] by blast
      then have "2 * (s - ?t) \<le> 2 * (s - t) - 1" by simp
      then have "\<lceil>2 * (s - ?t)\<rceil> \<le> \<lceil>2 * (s - t) - 1\<rceil>" by (rule ceiling_mono)
      then have "\<lceil>2 * (s - ?t)\<rceil> \<le> \<lceil>2 * (s - t)\<rceil> - 1" by (simp only: ceiling_diff_one)
      moreover have "1 \<le> \<lceil>2 * (s - t)\<rceil>" using ts by (simp add: le_ceiling_iff)
      ultimately have less_t: "nat \<lceil>2 * (s - ?t)\<rceil> < nat \<lceil>2 * (s - t)\<rceil>" by linarith
      from less [OF this, of "Suc n" ?c] obtain ts' t' c' where
        r: "serve_loop cfg sch (Suc n) ?t ?c = Some (ts', t', c')" "length ts' \<le> nat \<lceil>2 * (s - ?t)\<rceil>" by blast
      then have "serve_loop cfg sch n t c = Some (t # ts', t', c')" using False by (subst serve_loop.simps) simp
      moreover have "length (t # ts') \<le> nat \<lceil>2 * (s - t)\<rceil>" using le_less_trans [OF r(2) less_t] by (simp only: length_Cons Suc_le_eq)
      ultimately show ?thesis by blast
    qed
  qed
qed

text \<open>Without one it never does.\<close>

lemma serve_loop_forever:
  assumes "signal_at sch = None"
  shows "serve_loop cfg sch n t c = None"
proof (rule ccontr)
  assume "serve_loop cfg sch n t c \<noteq> None"
  then obtain ts t' c' where "serve_loop cfg sch n t c = Some (ts, t', c')" by auto
  from serve_loop_run [OF this] have "starts_follow cfg sch n ts t'" by blast
  moreover have "\<not> starts_follow cfg sch n ts t'" using assms by (induction ts arbitrary: n) (auto simp: stop_set_def)
  ultimately show False by blast
qed

section \<open>Stops\<close>

lemma stops_of_append [simp]: "stops_of (h @ h') = stops_of h @ stops_of h'"
  by (simp add: stops_of_def map_filter_def)

lemma stops_of_single [simp]: "stops_of [Stopping s ok] = [s]"
  by (simp add: stops_of_def map_filter_def)

lemma stops_of_event: "Stopping s ok \<in> set h \<Longrightarrow> s \<in> set (stops_of h)"
  by (force simp: stops_of_def map_filter_def)

text \<open>No stop is lost: a process that was started is still among the stoppers, or had ended when
  a later one was started.\<close>

lemma cli_stop_stoppers: "stoppers (snd (cli_stop t start s grace cli)) = filter (still_runs t) (stoppers cli) @
    (case start [docker_program cli, ''stop'', ''-t'', int_str grace, s] of Inl _ \<Rightarrow> [] | Inr p \<Rightarrow> [p])"
  by (auto simp: cli_stop_def stop_async_def Let_def split: sum.split)

lemma cli_stop_program [simp]: "docker_program (snd (cli_stop t start s grace cli)) = docker_program cli"
  by (simp add: cli_stop_def split_beta)

lemma still_runs_earlier: "still_runs T p \<Longrightarrow> t \<le> T \<Longrightarrow> still_runs t p"
  by (auto simp: still_runs_def split: option.splits)

lemma start_stops_keep:
  assumes "p \<in> set (stoppers cli)" "still_runs T p" "\<And>k. ats k \<le> T"
  shows "p \<in> set (stoppers (start_stops ats starts grace ss cli))"
  using assms
proof (induction ss arbitrary: ats starts cli)
  case (Cons s ss)
  let ?cli = "snd (cli_stop (ats 0) (starts 0) s grace cli)"
  have "p \<in> set (stoppers ?cli)"
    using Cons.prems(1) still_runs_earlier [OF Cons.prems(2,3)] by (simp add: cli_stop_stoppers)
  from Cons.IH [OF this Cons.prems(2), of "\<lambda>k. ats (Suc k)" "\<lambda>k. starts (Suc k)"] Cons.prems(3) show ?case by simp
qed simp

lemma start_stops_all:
  assumes "k < length ss" "starts k [docker_program cli, ''stop'', ''-t'', int_str grace, ss ! k] = Inr p"
    "still_runs T p" "\<And>k. ats k \<le> T"
  shows "p \<in> set (stoppers (start_stops ats starts grace ss cli))"
  using assms
proof (induction ss arbitrary: ats starts cli k)
  case (Cons s ss)
  let ?cli = "snd (cli_stop (ats 0) (starts 0) s grace cli)"
  have late: "\<And>k. ats (Suc k) \<le> T" using Cons.prems(4) by simp
  show ?case
  proof (cases k)
    case 0
    then have "p \<in> set (stoppers ?cli)" using Cons.prems(2) by (simp add: cli_stop_stoppers)
    from start_stops_keep [OF this Cons.prems(3), of "\<lambda>k. ats (Suc k)" "\<lambda>k. starts (Suc k)" grace ss] late
    show ?thesis by simp
  next
    case (Suc j)
    then show ?thesis using Cons.IH [of j "\<lambda>k. starts (Suc k)" ?cli "\<lambda>k. ats (Suc k)"] Cons.prems late by simp
  qed
qed simp

lemma start_stops_length: "length (stoppers (start_stops ats starts grace ss cli)) \<le> length (stoppers cli) + length ss"
proof (induction ss arbitrary: ats starts cli)
  case (Cons s ss)
  let ?cli = "snd (cli_stop (ats 0) (starts 0) s grace cli)"
  have "length (stoppers ?cli) \<le> Suc (length (stoppers cli))"
    by (simp add: cli_stop_stoppers le_SucI split: sum.split)
  then show ?case using Cons.IH [of "\<lambda>k. ats (Suc k)" "\<lambda>k. starts (Suc k)" ?cli] by simp
qed simp

section \<open>Properties\<close>

lemma starts_follow_times:
  assumes "starts_follow cfg sch n ts t'" "\<And>k. 0 \<le> took sch k"
  shows "\<forall>u \<in> set ts. \<not> stop_set sch u" "\<forall>i. Suc i < length ts \<longrightarrow> ts ! i + 1 / 2 \<le> ts ! Suc i"
    "ts \<noteq> [] \<Longrightarrow> t' = next_start cfg sch (n + length ts - 1) (last ts)"
proof -
  have "(\<forall>u \<in> set ts. \<not> stop_set sch u) \<and> (\<forall>i. Suc i < length ts \<longrightarrow> ts ! i + 1 / 2 \<le> ts ! Suc i) \<and>
      (ts \<noteq> [] \<longrightarrow> t' = next_start cfg sch (n + length ts - 1) (last ts))"
    using assms(1)
  proof (induction ts arbitrary: n)
    case (Cons s ts)
    then have s: "\<not> stop_set sch s" "(case ts of [] \<Rightarrow> t' | s' # _ \<Rightarrow> s') = next_start cfg sch n s"
      and f: "starts_follow cfg sch (Suc n) ts t'" by simp_all
    note ih = Cons.IH [OF f]
    have step: "s + 1 / 2 \<le> ts ! 0" if "ts \<noteq> []"
    proof -
      have "ts ! 0 = next_start cfg sch n s" "\<not> stop_set sch (ts ! 0)" using s(2) ih that by (cases ts; simp)+
      then show ?thesis using next_start_late(2) [OF assms(2), where n = n and t = s and cfg = cfg] by simp
    qed
    have "\<forall>i. Suc i < length (s # ts) \<longrightarrow> (s # ts) ! i + 1 / 2 \<le> (s # ts) ! Suc i"
    proof (intro allI impI)
      fix i assume i: "Suc i < length (s # ts)"
      show "(s # ts) ! i + 1 / 2 \<le> (s # ts) ! Suc i"
      proof (cases i)
        case 0
        then show ?thesis using step i by auto
      next
        case (Suc j)
        then show ?thesis using ih i by simp
      qed
    qed
    moreover have "t' = next_start cfg sch (n + length (s # ts) - 1) (last (s # ts))"
      using ih s(2) by (cases "ts = []") simp_all
    ultimately show ?case using s(1) ih by simp
  qed simp
  then show "\<forall>u \<in> set ts. \<not> stop_set sch u" "\<forall>i. Suc i < length ts \<longrightarrow> ts ! i + 1 / 2 \<le> ts ! Suc i"
    "ts \<noteq> [] \<Longrightarrow> t' = next_start cfg sch (n + length ts - 1) (last ts)" by blast+
qed

lemma serve_loop_signal:
  assumes "signal_at sch = Some s" "\<And>k. 0 \<le> took sch k" "\<And>k. took sch k \<le> d"
    and "serve_loop cfg sch 0 t0 c = Some (ts, t', c')"
  shows "t' \<le> max t0 (s + d)" "t0 \<le> t'"
proof -
  note r = serve_loop_run [OF assms(4)]
  have f: "starts_follow cfg sch 0 ts t'" using r by blast
  note times = starts_follow_times [OF f assms(2)]
  have d: "0 \<le> d" using assms(2,3) [of 0] by linarith
  have "t' \<le> max t0 (s + d) \<and> t0 \<le> t'"
  proof (cases "ts = []")
    case False
    then have l: "last ts < s" using times(1) assms(1) last_in_set [OF False] by (force simp: stop_set_def not_le)
    let ?n = "length ts - 1"
    have t': "t' = next_start cfg sch ?n (last ts)" using times(3) [OF False] by simp
    have "t' \<le> max s (last ts + took sch ?n)" unfolding t' by (rule next_start_signal [OF assms(1,2)])
    also have "\<dots> \<le> s + d" using l assms(3) [of ?n] d by simp
    finally have hi: "t' \<le> s + d" .
    have "last ts \<le> t'" using next_start_late(1) [OF assms(2), where n = ?n and t = "last ts" and cfg = cfg] assms(2) [of ?n]
      unfolding t' by linarith
    moreover have "ts ! 0 \<le> ts ! i" if "i < length ts" for i
      using that
    proof (induction i)
      case (Suc i)
      then have "ts ! i + 1 / 2 \<le> ts ! Suc i" using times(2) by blast
      then show ?case using Suc by simp
    qed simp
    then have "ts ! 0 \<le> last ts" using False by (simp add: last_conv_nth)
    moreover have "ts ! 0 = t0" using r False by (cases ts) auto
    ultimately show ?thesis using hi by simp
  qed (use r in simp)
  then show "t' \<le> max t0 (s + d)" "t0 \<le> t'" by blast+
qed

text \<open>The two roundings of the pause.\<close>

lemma pause_near:
  assumes "0 \<le> p" "p + \<bar>w' - w\<bar> \<le> (2 :: rat) ^ 31"
  shows "\<bar>max (fsub p (fsub w' w)) (1 / 2) - max (p - (w' - w)) (1 / 2)\<bar> \<le> 2 * microsecond"
proof -
  have d: "\<bar>fsub w' w - (w' - w)\<bar> \<le> microsecond" unfolding fsub_def by (rule fl_second) (use assms in simp)
  have "microsecond \<le> 1" by (simp add: microsecond_def)
  then have "\<bar>p - fsub w' w\<bar> \<le> 2 ^ 32" using d assms by (simp add: abs_le_iff) linarith
  then have "\<bar>fsub p (fsub w' w) - (p - fsub w' w)\<bar> \<le> microsecond" unfolding fsub_def [of p] by (rule fl_second)
  with d show ?thesis by linarith
qed

text \<open>C8: the loop of \<open>run_forever\<close> ends exactly because of a signal. If a signal arrives at \<open>s\<close>
  and the rounds take time but at most \<open>d\<close>, the loop returns: it did what \<open>run_loop\<close> does for
  its rounds, all of which started before the signal, two of them at least half a second
  apart, so that there are at most two per second; it is left at the latest when the round
  in progress ends, and the interrupted wait delays it no further. Without a signal it never
  returns.\<close>

theorem loop_ends_with_signal:
  assumes "signal_at sch = Some s" "\<And>k. 0 \<le> took sch k \<and> took sch k \<le> d"
  shows "(\<exists>ts t' c'. serve_loop cfg sch 0 t0 c = Some (ts, t', c') \<and> c' = run_loop cfg (rounds_at sch 0 ts) c \<and>
      length ts \<le> nat \<lceil>2 * (s - t0)\<rceil> \<and> (\<forall>u \<in> set ts. u < s) \<and>
      (\<forall>i. Suc i < length ts \<longrightarrow> ts ! i + 1 / 2 \<le> ts ! Suc i) \<and> t' \<le> max t0 (s + d)) \<and>
    serve_loop cfg (sch\<lparr>signal_at := None\<rparr>) 0 t0 c = None"
proof -
  have d: "\<And>k. 0 \<le> took sch k" "\<And>k. took sch k \<le> d" using assms(2) by blast+
  from serve_loop_ends [OF assms(1) d(1)] obtain ts t' c' where
    r: "serve_loop cfg sch 0 t0 c = Some (ts, t', c')" "length ts \<le> nat \<lceil>2 * (s - t0)\<rceil>" by blast
  note run = serve_loop_run [OF r(1)]
  have f: "starts_follow cfg sch 0 ts t'" using run by blast
  note times = starts_follow_times [OF f d(1)]
  have "\<forall>u \<in> set ts. u < s" using times(1) assms(1) by (simp add: stop_set_def not_le)
  moreover have "serve_loop cfg (sch\<lparr>signal_at := None\<rparr>) 0 t0 c = None" by (rule serve_loop_forever) simp
  ultimately show ?thesis
    using r run times(2) serve_loop_signal(1) [OF assms(1) d r(1)] by blast
qed

text \<open>Rounds of a second on a machine where nothing answers, and a signal after eleven.\<close>

definition demo_schedule :: schedule where
  "demo_schedule = \<lparr>outside = \<lambda>_. dark_round, took = \<lambda>_. 1, signal_at = Some 11, wall = \<lambda>t. t\<rparr>"

theorem loop_ends_with_signal_witness:
  "\<exists>ts t' c'. serve_loop demo_cfg demo_schedule 0 0 (new_controller demo_db) = Some (ts, t', c') \<and>
     length ts \<le> 22 \<and> t' \<le> 12"
proof -
  have sch: "signal_at demo_schedule = Some 11" "\<And>k. 0 \<le> took demo_schedule k \<and> took demo_schedule k \<le> 1"
    by (simp_all add: demo_schedule_def)
  from loop_ends_with_signal [OF sch, of demo_cfg 0 "new_controller demo_db"] obtain ts t' c' where
    r: "serve_loop demo_cfg demo_schedule 0 0 (new_controller demo_db) = Some (ts, t', c')"
      "length ts \<le> nat \<lceil>2 * (11 - (0::rat))\<rceil>" "t' \<le> max 0 (11 + 1)" by blast
  from r(2,3) have "length ts \<le> 22" "t' \<le> 12" by simp_all
  with r(1) show ?thesis by blast
qed

text \<open>C11: how long the controller looks away. It starts the next round when the poll interval has
  passed on the wall clock since the start of the round before, and at the earliest half a
  second after that round's end, to two microseconds, unless a signal ends the wait before.
  So while the wall clock is not set back, the next round starts at most the larger of the
  poll interval and half a second after the end of the one before; when the clock is set
  back during a round, the controller waits for that much longer, whatever the poll interval.
  This is for an interval and a step of the clock of together at most \<open>2\<^sup>3\<^sup>1\<close> seconds.\<close>

theorem pause_bounds:
  assumes "0 \<le> poll_interval (controller cfg)" "fl_rep (poll_interval (controller cfg))" "0 \<le> took sch n"
    and "t' = t + took sch n" "poll_interval (controller cfg) + \<bar>wall sch t' - wall sch t\<bar> \<le> 2 ^ 31"
    and "rest = max (poll_interval (controller cfg) - (wall sch t' - wall sch t)) (1 / 2)"
  shows "(signal_at sch = None \<longrightarrow> \<bar>next_start cfg sch n t - (t' + rest)\<bar> \<le> 2 * microsecond) \<and>
    (\<forall>s. signal_at sch = Some s \<longrightarrow> \<bar>next_start cfg sch n t - max t' (min s (t' + rest))\<bar> \<le> 2 * microsecond) \<and>
    (wall sch t \<le> wall sch t' \<longrightarrow> next_start cfg sch n t \<le> t' + max (poll_interval (controller cfg)) (1 / 2))"
proof -
  let ?p = "poll_interval (controller cfg)" and ?w = "wall sch t" and ?w' = "wall sch t'"
  let ?l = "pause_length cfg ?w ?w'"
  have ns: "next_start cfg sch n t = wait_stop sch ?l t'" unfolding next_start_def Let_def assms(4) ..
  have half: "0 \<le> ?l" by (simp add: pause_length_def)
  have "?l \<le> max ?p (1 / 2)" if "?w \<le> ?w'"
  proof -
    have "0 \<le> fsub ?w' ?w" using that unfolding fsub_def by (intro fl_nonneg) simp
    then have "fsub ?p (fsub ?w' ?w) \<le> fl ?p" unfolding fsub_def by (intro flt.rnd_mono) simp
    then show ?thesis using flt.rnd_repr [OF assms(2)] by (simp add: pause_length_def)
  qed
  moreover have "next_start cfg sch n t \<le> t' + ?l"
    using half unfolding ns wait_stop_def by (auto split: option.splits)
  ultimately have up: "?w \<le> ?w' \<longrightarrow> next_start cfg sch n t \<le> t' + max ?p (1 / 2)" by fastforce
  have near: "\<bar>?l - rest\<bar> \<le> 2 * microsecond" unfolding pause_length_def assms(6) by (rule pause_near [OF assms(1,5)])
  have "\<bar>next_start cfg sch n t - (t' + rest)\<bar> \<le> 2 * microsecond" if "signal_at sch = None"
    using near that unfolding ns wait_stop_def by simp
  moreover have "\<bar>next_start cfg sch n t - max t' (min s (t' + rest))\<bar> \<le> 2 * microsecond" if "signal_at sch = Some s" for s
    using near unfolding ns wait_stop_def that option.case by linarith
  ultimately show ?thesis using up by blast
qed

text \<open>The clock is set back by an hour at the time 100, and by nothing before.\<close>

definition set_back_schedule :: schedule where
  "set_back_schedule = demo_schedule\<lparr>signal_at := None, wall := \<lambda>t. if t < 100 then t else t - 3600\<rparr>"

theorem pause_bounds_witness:
  "\<bar>next_start demo_cfg set_back_schedule 0 50 - (50 + 5)\<bar> \<le> 2 * microsecond \<and>
   \<bar>next_start demo_cfg set_back_schedule 0 99 - (100 + 5 + 3599)\<bar> \<le> 2 * microsecond"
proof -
  have p: "poll_interval (controller demo_cfg) = 5" by (simp add: demo_cfg_def)
  have "fl_rep 5" using fl_rep_int [of 5] by simp
  with p have cfg: "0 \<le> poll_interval (controller demo_cfg)" "fl_rep (poll_interval (controller demo_cfg))" by simp_all
  have s: "0 \<le> took set_back_schedule 0" "51 = 50 + took set_back_schedule 0" "100 = 99 + took set_back_schedule 0"
    and n: "signal_at set_back_schedule = None"
    and w: "wall set_back_schedule 50 = 50" "wall set_back_schedule 51 = 51" "wall set_back_schedule 99 = 99"
      "wall set_back_schedule 100 = -3500"
    by (simp_all add: set_back_schedule_def demo_schedule_def)
  have a: "poll_interval (controller demo_cfg) + \<bar>wall set_back_schedule 51 - wall set_back_schedule 50\<bar> \<le> 2 ^ 31"
    "4 = max (poll_interval (controller demo_cfg) - (wall set_back_schedule 51 - wall set_back_schedule 50)) (1 / 2)"
    unfolding p w by simp_all
  have b: "poll_interval (controller demo_cfg) + \<bar>wall set_back_schedule 100 - wall set_back_schedule 99\<bar> \<le> 2 ^ 31"
    "3604 = max (poll_interval (controller demo_cfg) - (wall set_back_schedule 100 - wall set_back_schedule 99)) (1 / 2)"
    unfolding p w by simp_all
  from pause_bounds [OF cfg s(1,2) a] n have "\<bar>next_start demo_cfg set_back_schedule 0 50 - (51 + 4)\<bar> \<le> 2 * microsecond" by blast
  moreover from pause_bounds [OF cfg s(1,3) b] n have "\<bar>next_start demo_cfg set_back_schedule 0 99 - (100 + 3604)\<bar> \<le> 2 * microsecond"
    by blast
  ultimately show ?thesis by simp
qed

text \<open>C7: the daemon shuts down in bounded time and leaves nothing running. After a signal at \<open>s\<close>
  it finishes its round (within \<open>d\<close>), reclaims everything and exits without error; then no
  job counts as running and \<open>docker stop\<close> was called for the container of every active job.
  Every stop it ever started has ended by then or is reported as unfinished, and those that
  end within the grace period and ten seconds have ended. The exit comes at the latest that
  long after reclaiming, plus a tenth of a second and the lag for each stop. This needs that
  \<open>docker stop\<close> can be started.\<close>

theorem orderly_shutdown:
  assumes "store_inv (max_attempts (spot cfg)) st" "distinct (map rs_gpu_uuid (active st))"
    and "signal_at sch = Some s" "\<And>k. 0 \<le> took sch k \<and> took sch k \<le> d" "\<And>k. 0 \<le> lag k \<and> lag k \<le> l"
    and "\<And>x. is_ok (stop_answer te x)" "0 \<le> t0" "0 \<le> r" "0 \<le> grace_seconds (reclaim cfg)"
    and "max t0 (s + d) + r + of_int (grace_seconds (reclaim cfg)) + 11 \<le> 2 ^ 32"
  shows "\<exists>sd c T. serve cfg sch t0 te r ats starts lag (new_controller st) = Some (Inr sd, c) \<and>
    (\<forall>a \<in> set (active (db c)). reclaiming a \<and> rs_container a \<in> set (stops_of (history c))) \<and>
    T \<le> max t0 (s + d) + r \<and>
    exit_time sd \<le> T + of_int (grace_seconds (reclaim cfg)) + 10 + microsecond + of_nat (length (stops_of (history c))) * (slice + l) \<and>
    (\<forall>k p. k < length (stops_of (history c)) \<and>
       starts k [''docker'', ''stop'', ''-t'', int_str (grace_seconds (reclaim cfg)), stops_of (history c) ! k] = Inr p \<longrightarrow>
       (\<not> still_runs (exit_time sd) p \<or> sp_pid p \<in> set (unfinished sd)) \<and>
       (\<forall>e. sp_end p = Some e \<and> e \<le> T + of_int (grace_seconds (reclaim cfg)) + 10 - 2 * microsecond \<longrightarrow> e \<le> exit_time sd))"
proof -
  let ?g = "grace_seconds (reclaim cfg)" and ?c = "new_controller st"
  have tk: "\<And>k. 0 \<le> took sch k" "\<And>k. took sch k \<le> d" and lg: "\<And>k. 0 \<le> lag k" "\<And>k. lag k \<le> l" using assms(4,5) by blast+
  obtain ts t c1 where loop: "serve_loop cfg sch 0 t0 ?c = Some (ts, t, c1)"
    using serve_loop_ends [OF assms(3) tk(1)] by blast
  note sig = serve_loop_signal [OF assms(3) tk loop]
  have c1: "c1 = run_loop cfg (rounds_at sch 0 ts) ?c" using serve_loop_run [OF loop] by blast
  have "okc cfg st ?c" using new_ok [OF assms(1,2)] by (simp add: new_controller_def)
  from run_loop_ok [OF this] have ok1: "okc cfg st c1" unfolding c1 .
  obtain c2 where c2: "reclaim_all te ''controller shutdown'' c1 = (Inr (), c2)" using reclaim_all_total [OF assms(6)] by blast
  have ok1': "okc cfg st c1 \<and> history c1 = history c1" using ok1 by simp
  note ok2 = hoareD(1) [OF reclaim_all_ok ok1' c2]
  let ?T = "t + r" and ?ss = "stops_of (history c2)"
  let ?cli = "start_stops (\<lambda>k. min (ats k) ?T) starts ?g ?ss new_docker_cli"
  let ?D = "fadd ?T (of_int (?g + 10))"
  obtain x slow where w: "wait_each lag ?D (stoppers ?cli) ?T = (x, slow)" by fastforce
  have T: "0 \<le> ?T" "?T \<le> max t0 (s + d) + r" using sig assms(7,8) by simp_all
  have "\<bar>?D - (?T + of_int (?g + 10))\<bar> \<le> microsecond"
    unfolding fadd_def by (rule fl_second) (use T assms(9,10) in \<open>simp add: abs_le_iff\<close>)
  then have D: "?D \<le> ?T + of_int ?g + 10 + microsecond" "?T + of_int ?g + 10 - microsecond \<le> ?D"
    by (simp_all add: abs_le_iff)
  have "?D \<le> 2 ^ 32" using D(1) T(2) assms(10) by (simp add: microsecond_def)
  note b = wait_each_bounds [OF w this T(1) lg(1)]
  have len: "length (stoppers ?cli) \<le> length ?ss"
    using start_stops_length [of "\<lambda>k. min (ats k) ?T" starts ?g ?ss new_docker_cli] by (simp add: new_docker_cli_def)
  have sl: "0 \<le> slice + l" using lg [of 0] by (simp add: slice_def microsecond_def)
  have "(\<Sum>i < length (stoppers ?cli). slice + lag i) \<le> (\<Sum>i < length (stoppers ?cli). slice + l)"
    by (rule sum_mono) (simp add: lg(2))
  also have "\<dots> = of_nat (length (stoppers ?cli)) * (slice + l)" by simp
  also have "\<dots> \<le> of_nat (length ?ss) * (slice + l)" using len sl by (intro mult_right_mono) simp_all
  finally have sum: "(\<Sum>i < length (stoppers ?cli). slice + lag i) \<le> of_nat (length ?ss) * (slice + l)" .
  have "max ?T ?D \<le> ?T + of_int ?g + 10 + microsecond" using D(1) assms(9) by (simp add: microsecond_def)
  then have exit: "x \<le> ?T + of_int ?g + 10 + microsecond + of_nat (length ?ss) * (slice + l)" using b(2) sum by linarith
  have serve: "serve cfg sch t0 te r ats starts lag ?c = Some (Inr \<lparr>exit_time = x, unfinished = slow\<rparr>, c2)"
    by (simp only: serve_def loop c2 wait_stops_def w Let_def option.case sum.case prod.case)
  have each: "(\<not> still_runs x p \<or> sp_pid p \<in> set slow) \<and> (\<forall>e. sp_end p = Some e \<and> e \<le> ?T + of_int ?g + 10 - 2 * microsecond \<longrightarrow> e \<le> x)"
    if k: "k < length ?ss" "starts k [''docker'', ''stop'', ''-t'', int_str ?g, ?ss ! k] = Inr p" for k p
  proof (cases "still_runs ?T p")
    case True
    have "p \<in> set (stoppers ?cli)"
      by (rule start_stops_all [OF k(1) _ True]) (use k(2) in \<open>simp_all add: new_docker_cli_def\<close>)
    then show ?thesis using b(3) [of p] b(4) [of p] D(2) by fastforce
  next
    case False
    then have "\<not> still_runs x p" using still_runs_earlier [of x p ?T] b(1) by blast
    moreover have "e \<le> x" if "sp_end p = Some e" for e using False that b(1) by (simp add: still_runs_def)
    ultimately show ?thesis by blast
  qed
  have act: "\<forall>a \<in> set (active (db c2)). reclaiming a \<and> rs_container a \<in> set ?ss"
    using all_stopped_active [OF db_okD, OF conjunct1 [OF ok2] conjunct2 [OF ok2]] stops_of_event in_set_dropD by fast
  show ?thesis
    by (intro exI [of _ "\<lparr>exit_time = x, unfinished = slow\<rparr>"] exI [of _ c2] exI [of _ ?T] conjI serve act T(2))
      (simp only: shutdown.select_convs exit, simp only: shutdown.select_convs, intro allI impI, elim conjE, rule each)
qed

text \<open>The job of the database is stopped within two seconds of the call.\<close>

theorem orderly_shutdown_witness:
  "\<exists>sd c. serve demo_cfg demo_schedule 0 dark_env 1 (\<lambda>_. 12) (\<lambda>_ _. Inr \<lparr>sp_pid = 7, sp_end = Some 14\<rparr>) (\<lambda>_. 0)
     (new_controller demo_db) = Some (Inr sd, c) \<and> list_all reclaiming (active (db c))"
proof -
  have sch: "signal_at demo_schedule = Some 11" "\<And>k. 0 \<le> took demo_schedule k \<and> took demo_schedule k \<le> 1"
    by (simp_all add: demo_schedule_def)
  have g: "grace_seconds (reclaim demo_cfg) = 30" by code_simp
  have s: "\<And>x. is_ok (stop_answer dark_env x)" by (simp add: dark_env_def)
  from orderly_shutdown [OF demo_db_ok sch, of "\<lambda>_. 0" 0 dark_env 0 1 "\<lambda>_. 12" "\<lambda>_ _. Inr \<lparr>sp_pid = 7, sp_end = Some 14\<rparr>"] g s
  show ?thesis by (auto simp: list_all_iff)
qed

end
