(* ===== verification/Daemon_Live.thy ===== *)
theory Daemon_Live imports Daemon_Quiet Daemon_Keeps begin

text \<open>
  What a tick gets done when nothing gets in its way: no other process touches the database
  meanwhile and Docker starts what it is asked to. Then every planned launch becomes a
  running job, and no GPU that may be lent is left idle for want of trying.
\<close>

definition undisturbed :: "tick_env \<Rightarrow> bool" where
  "undisturbed te = ((\<forall>n. others te n = []) \<and> (\<forall>argv. is_ok (run_answer te argv)))"

text \<open>What the command line lets into the queue: no job of root, and no negative memory.\<close>

definition sane_row :: "job_row \<Rightarrow> bool" where
  "sane_row r = (uid r \<noteq> 0 \<and> (case from_json (spec_doc r) of Inl _ \<Rightarrow> True | Inr s \<Rightarrow> 0 \<le> ram s))"

definition job_ram :: "int \<Rightarrow> job_row \<Rightarrow> int" where
  "job_ram dflt r = (case from_json (spec_doc r) of Inl _ \<Rightarrow> 0 | Inr s \<Rightarrow> if ram s = 0 then dflt else ram s)"

section \<open>Steps\<close>

lemma ran_gpus_append [simp]: "ran_gpus (h @ h') = ran_gpus h @ ran_gpus h'"
  by (induction h rule: ran_gpus.induct) simp_all

interpretation rans: ctl_invariant "\<lambda>c. ran_gpus (history c) = R" for R
  by unfold_locales (simp_all add: note_event_def)

lemma rans_kept: "(\<And>R. keeps (\<lambda>c. ran_gpus (history c) = R) f) \<Longrightarrow> f c = (r, c') \<Longrightarrow> ran_gpus (history c') = ran_gpus (history c)"
  using keepsD [of "\<lambda>x. ran_gpus (history x) = ran_gpus (history c)" f c] by simp

text \<open>Nothing is started before a tick acts, and then only where it lends.\<close>

lemma phases_ran:
  assumes "read_store te f c = (r1, c1)" "observe_all te now os ss ok c1 = (r2, c2)" "reconcile te cfg ss c2 = (r3, c3)"
    and "decide_phase te cfg now kill ps obs c3 = (r4, c4)"
  shows "ran_gpus (history c4) = ran_gpus (history c)"
  using rans_kept [OF rans.keep_read assms(1)] rans_kept [OF rans.keep_observe_all assms(2)]
    rans_kept [OF rans.keep_reconcile assms(3)] rans_kept [OF rans.keep_decide_phase assms(4)] by simp

interpretation ran_on: ctl_invariant "\<lambda>c. \<exists>new. ran_gpus (history c) = R @ new \<and> (\<forall>u \<in> set new. P u)" for R P
  by unfold_locales (simp_all add: note_event_def)

lemma act_phase_ran:
  assumes "act_phase te cfg ok as vs c = (r, c')"
  shows "\<exists>new. ran_gpus (history c') = ran_gpus (history c) @ new \<and> (\<forall>u \<in> set new. \<exists>v. dict_get vs u = Some v \<and> lendable v)"
proof -
  let ?P = "\<lambda>u. \<exists>v. dict_get vs u = Some v \<and> lendable v"
  let ?I = "\<lambda>c1. \<exists>new. ran_gpus (history c1) = ran_gpus (history c) @ new \<and> (\<forall>u \<in> set new. ?P u)"
  have run: "?I (note_event (Ran u argv) c1)" if "?P u" "?I c1" for u argv c1
  proof -
    from that(2) obtain new where "ran_gpus (history c1) = ran_gpus (history c) @ new" "\<forall>u \<in> set new. ?P u" by blast
    with that(1) show ?thesis by (intro exI [of _ "new @ [u]"]) (auto simp: note_event_def)
  qed
  have "keeps ?I (do_launch te cfg hook la)" if "?P (la_gpu_uuid la)" for hook la
    unfolding do_launch_def start_job_def start_container_def
    by (intro step_intros keeps_modify ran_on.keep_read ran_on.keep_write ran_on.keep_transact run [OF that])
  then have "keeps ?I (act_phase te cfg ok as vs)"
    using plan_launch by (intro ran_on.keep_act_phase_if) blast
  from keepsD [OF this, of c] assms show ?thesis by simp
qed

lemma quiet_transact: "undisturbed te \<Longrightarrow> transact te f c =
    (case f (store_clock te (accesses c)) (db c) of (r, st) \<Rightarrow> (r, c\<lparr>db := st, accesses := accesses c + 1\<rparr>))"
  by (simp add: transact_def undisturbed_def)

lemma quiet_read: "undisturbed te \<Longrightarrow> read_store te f c = (f (db c), c\<lparr>accesses := accesses c + 1\<rparr>)"
  by (simp add: read_store_def quiet_transact)

lemma quiet_write: "undisturbed te \<Longrightarrow> write_store te f c =
    (Inr (), c\<lparr>db := f (store_clock te (accesses c)) (db c), accesses := accesses c + 1\<rparr>)"
  by (simp add: write_store_def quiet_transact)

text \<open>A launch of a queued job starts it.\<close>

lemma bnd_InrI: "f c = (Inr x, c1) \<Longrightarrow> g x c1 = (Inr y, c') \<Longrightarrow> bnd f g c = (Inr y, c')"
  by (simp add: bnd_def)

lemma catch_InrI: "f c = (Inr x, c1) \<Longrightarrow> catch f P h c = (Inr x, c1)"
  by (simp add: catch_def)

lemma launch_starts:
  assumes te: "undisturbed te" and row: "row_of (db c) (la_job_id la) = Some r" "state r = QUEUED"
    and spec: "from_json (spec_doc r) = Inr s" and u: "uid r \<noteq> 0"
  shows "\<exists>cont now c'. do_launch te cfg hook la c = (Inr (), c') \<and>
    db c' = snd (mark_running (la_job_id la) (la_gpu_uuid la) cont now (db c)) \<and>
    ran_gpus (history c') = ran_gpus (history c) @ [la_gpu_uuid la]"
proof -
  let ?i = "la_job_id la" and ?g = "la_gpu_uuid la"
  let ?c1 = "c\<lparr>accesses := accesses c + 1\<rparr>"
  let ?c2 = "?c1\<lparr>accesses := accesses ?c1 + 1\<rparr>"
  have jid: "jid (fst (r, s)) = ?i" using row_of_Some [OF row(1)] by simp
  have r1: "read_store te (\<lambda>st. get_job st ?i) c = (Inr (Some (r, s)), ?c1)"
    by (simp add: quiet_read [OF te] get_job_def row(1) record_of_def spec)
  have r2: "read_store te (\<lambda>st. next_attempt st ?i) ?c1 = (Inr (attempts r + 1), ?c2)"
    by (simp add: quiet_read [OF te] next_attempt_def row(1))
  obtain argv where argv: "build_run_args (jid r) (attempts r + 1) s (uid r) (gid r) ?g (gpu_mem_limit la)
      (la_ram la) (spot cfg) hook (attach_gpus te) = Inr argv"
    using u by (simp add: build_run_args_def)
  obtain cont where cont: "run_answer te argv = Inr cont"
    using te unfolding undisturbed_def by (metis is_okE)
  let ?c3 = "note_event (Ran ?g argv) ?c2"
  have "start_job te cfg la hook (attempts r + 1) (r, s) ?c2 = (Inr cont, ?c3)"
    by (simp add: start_job_def start_container_def bnd_def lift_def modify_def argv cont)
  then have r3: "bnd (start_job te cfg la hook (attempts r + 1) (r, s)) (\<lambda>cont. ret (Some cont)) ?c2 = (Inr (Some cont), ?c3)"
    by (rule bnd_InrI) (simp add: ret_def)
  let ?now = "store_clock te (accesses ?c3)"
  have "row_sat (db c) ?i (\<lambda>r. state r = QUEUED)" using row by (simp add: row_sat_def)
  from started_row [OF this, of ?g cont ?now] obtain n st where mr: "mark_running ?i ?g cont ?now (db c) = (Inr n, st)"
    by (metis prod.collapse)
  let ?c4 = "?c3\<lparr>db := st, accesses := accesses ?c3 + 1\<rparr>"
  have "db ?c3 = db c" by (simp add: note_event_def)
  then have r4: "transact te (\<lambda>now. mark_running (jid (fst (r, s))) ?g cont now) ?c3 = (Inr n, ?c4)"
    unfolding quiet_transact [OF te] jid by (simp only: mr prod.case)
  have "do_launch te cfg hook la c = (Inr (), ?c4)"
    unfolding do_launch_def
  proof (rule bnd_InrI, rule r1)
    let ?e = "\<lambda>e. is_docker_error e \<or> is_value_error e"
    let ?h = "\<lambda>e. bnd (write_store te (\<lambda>now. fail_job (jid (fst (r, s))) (''launch failed: '' @ exc_str e) now)) (\<lambda>_. ret None)"
    let ?k = "\<lambda>started. case started of None \<Rightarrow> ret ()
      | Some cont \<Rightarrow> bnd (transact te (\<lambda>now. mark_running (jid (fst (r, s))) ?g cont now)) (\<lambda>_. ret ())"
    have k: "?k (Some cont) ?c3 = (Inr (), ?c4)"
      unfolding option.case by (rule bnd_InrI, rule r4) (simp add: ret_def)
    have "bnd (catch (bnd (start_job te cfg la hook (attempts r + 1) (r, s)) (\<lambda>cont. ret (Some cont))) ?e ?h) ?k ?c2 = (Inr (), ?c4)"
      by (rule bnd_InrI, rule catch_InrI, rule r3, rule k)
    then have "bnd (read_store te (\<lambda>st. next_attempt st ?i)) (\<lambda>att.
        bnd (catch (bnd (start_job te cfg la hook att (r, s)) (\<lambda>cont. ret (Some cont))) ?e ?h) ?k) ?c1 = (Inr (), ?c4)"
      by - (rule bnd_InrI, rule r2)
    then show "(case Some (r, s) of None \<Rightarrow> ret ()
       | Some rec \<Rightarrow> if state (fst rec) \<noteq> QUEUED then ret ()
         else bnd (read_store te (\<lambda>st. next_attempt st ?i)) (\<lambda>attempt.
            bnd (catch (bnd (start_job te cfg la hook attempt rec) (\<lambda>cont. ret (Some cont))) ?e
                (\<lambda>e. bnd (write_store te (\<lambda>now. fail_job (jid (fst rec)) (''launch failed: '' @ exc_str e) now)) (\<lambda>_. ret None)))
              (\<lambda>started. case started of None \<Rightarrow> ret ()
                | Some cont \<Rightarrow> bnd (transact te (\<lambda>now. mark_running (jid (fst rec)) ?g cont now)) (\<lambda>_. ret ())))) ?c1 = (Inr (), ?c4)"
      by (simp only: option.case fst_conv row(2) not_True_eq_False if_False simp_thms)
  qed
  moreover have "db ?c4 = st" by simp
  then have "db ?c4 = snd (mark_running ?i ?g cont ?now (db c))" by (simp only: mr snd_conv)
  moreover have "ran_gpus (history ?c4) = ran_gpus (history c) @ [?g]" by (simp add: note_event_def)
  ultimately show ?thesis by blast
qed

text \<open>Starting a job leaves the other queued ones as they are.\<close>

lemma mark_running_rows:
  assumes "distinct (map jid (jobs st))" "row_of st i = Some r" "state r = QUEUED"
  shows "\<exists>r'. row_of (snd (mark_running i g cont now st)) i = Some r' \<and> state r' = RUNNING \<and> gpu_uuid r' = Some g \<and>
      spec_doc r' = spec_doc r"
    "jid q \<noteq> i \<Longrightarrow> q \<in> set (jobs (snd (mark_running i g cont now st))) \<longleftrightarrow> q \<in> set (jobs st)"
    "map jid (jobs (snd (mark_running i g cont now st))) = map jid (jobs st)"
proof -
  let ?f = "\<lambda>q. q\<lparr>state := RUNNING, attempts := attempts r + 1, gpu_uuid := Some g, container := Some cont,
    started_at := Some now, reason := None\<rparr>"
  have js: "jobs (snd (mark_running i g cont now st)) = map (\<lambda>q. if jid q = i then ?f q else q) (jobs st)"
    using assms(2,3) by (simp add: mark_running_def Let_def)
  show ids: "map jid (jobs (snd (mark_running i g cont now st))) = map jid (jobs st)" unfolding js by simp
  have r: "r \<in> set (jobs st)" "jid r = i" using row_of_Some [OF assms(2)] by blast+
  have "?f r \<in> set (jobs (snd (mark_running i g cont now st)))" unfolding js using r by force
  from row_of_unique [OF _ this] r(2) assms(1) ids
  show "\<exists>r'. row_of (snd (mark_running i g cont now st)) i = Some r' \<and> state r' = RUNNING \<and> gpu_uuid r' = Some g \<and>
      spec_doc r' = spec_doc r" by simp
  show "jid q \<noteq> i \<Longrightarrow> q \<in> set (jobs (snd (mark_running i g cont now st))) \<longleftrightarrow> q \<in> set (jobs st)"
    unfolding js by auto
qed

definition ready :: "store \<Rightarrow> int \<Rightarrow> bool" where
  "ready st i = (case row_of st i of None \<Rightarrow> False
     | Some r \<Rightarrow> state r = QUEUED \<and> uid r \<noteq> 0 \<and> is_ok (from_json (spec_doc r)))"

text \<open>The row of a launch that was carried out on the jobs of \<open>st\<close>.\<close>

definition started :: "store \<Rightarrow> store \<Rightarrow> launch \<Rightarrow> job_row \<Rightarrow> bool" where
  "started st st' l r \<longleftrightarrow> row_of st' (la_job_id l) = Some r \<and> state r = RUNNING \<and> gpu_uuid r = Some (la_gpu_uuid l) \<and>
     (\<exists>q. row_of st (la_job_id l) = Some q \<and> spec_doc r = spec_doc q)"

lemma launches_start:
  assumes te: "undisturbed te" and "distinct (map la_job_id ls)" "\<And>l. l \<in> set ls \<Longrightarrow> ready (db c) (la_job_id l)"
    "distinct (map jid (jobs (db c)))"
  shows "\<exists>c'. for_each (do_launch te cfg hook) ls c = (Inr (), c') \<and> map jid (jobs (db c')) = map jid (jobs (db c)) \<and>
    ran_gpus (history c') = ran_gpus (history c) @ map la_gpu_uuid ls \<and>
    (\<forall>l \<in> set ls. \<exists>r. started (db c) (db c') l r) \<and>
    (\<forall>q. jid q \<notin> la_job_id ` set ls \<longrightarrow> q \<in> set (jobs (db c')) \<longleftrightarrow> q \<in> set (jobs (db c)))"
  using assms(2-4)
proof (induction ls arbitrary: c)
  case Nil
  then show ?case by (simp add: ret_def)
next
  case (Cons l ls)
  have "ready (db c) (la_job_id l)" by (rule Cons.prems(2)) simp
  then obtain r s where r: "row_of (db c) (la_job_id l) = Some r" "state r = QUEUED" "uid r \<noteq> 0" "from_json (spec_doc r) = Inr s"
    by (auto simp: ready_def elim!: is_okE split: option.splits)
  from launch_starts [OF te r(1,2,4,3), of cfg hook] obtain cont now c1 where
    c1: "do_launch te cfg hook l c = (Inr (), c1)" "db c1 = snd (mark_running (la_job_id l) (la_gpu_uuid l) cont now (db c))"
      "ran_gpus (history c1) = ran_gpus (history c) @ [la_gpu_uuid l]" by blast
  note rows = mark_running_rows [OF Cons.prems(3) r(1,2), where g = "la_gpu_uuid l" and cont = cont and now = now, folded c1(2)]
  have dist: "distinct (map jid (jobs (db c1)))" using rows(3) Cons.prems(3) by simp
  have same_row: "row_of (db c1) i = row_of (db c) i" if "i \<noteq> la_job_id l" for i
  proof (cases "row_of (db c) i")
    case (Some q)
    then have "q \<in> set (jobs (db c1))" "jid q = i" using row_of_Some [OF Some] rows(2) that by auto
    then show ?thesis using Some row_of_unique [OF dist] by metis
  next
    case None
    have "row_of (db c1) i = None"
    proof (rule ccontr)
      assume "row_of (db c1) i \<noteq> None"
      then obtain q where q: "row_of (db c1) i = Some q" by blast
      then have "q \<in> set (jobs (db c))" "jid q = i" using row_of_Some [OF q] rows(2) that by auto
      then show False using None row_of_unique [OF Cons.prems(3)] by fastforce
    qed
    with None show ?thesis by simp
  qed
  have other: "la_job_id k \<noteq> la_job_id l" if "k \<in> set ls" for k using Cons.prems(1) that by (auto simp: image_iff)
  have ready': "ready (db c1) (la_job_id k)" if "k \<in> set ls" for k
    using Cons.prems(2) [of k] that same_row [OF other [OF that]] by (simp add: ready_def)
  have "distinct (map la_job_id ls)" using Cons.prems(1) by simp
  from Cons.IH [OF this ready' dist] obtain c' where
    c': "for_each (do_launch te cfg hook) ls c1 = (Inr (), c')" "map jid (jobs (db c')) = map jid (jobs (db c1))"
    "ran_gpus (history c') = ran_gpus (history c1) @ map la_gpu_uuid ls"
    "\<forall>l \<in> set ls. \<exists>r. started (db c1) (db c') l r"
    "\<forall>q. jid q \<notin> la_job_id ` set ls \<longrightarrow> q \<in> set (jobs (db c')) \<longleftrightarrow> q \<in> set (jobs (db c1))" by blast
  obtain r1 where r1: "row_of (db c1) (la_job_id l) = Some r1" "state r1 = RUNNING" "gpu_uuid r1 = Some (la_gpu_uuid l)"
    "spec_doc r1 = spec_doc r" using rows(1) by blast
  have l_other: "la_job_id l \<notin> la_job_id ` set ls" using Cons.prems(1) by simp
  have "r1 \<in> set (jobs (db c'))" "jid r1 = la_job_id l" using row_of_Some [OF r1(1)] c'(5) l_other by auto
  moreover have "distinct (map jid (jobs (db c')))" using c'(2) dist by simp
  ultimately have "row_of (db c') (la_job_id l) = Some r1" using row_of_unique by metis
  then have "started (db c) (db c') l r1" using r1 r(1) by (simp add: started_def)
  moreover have "started (db c) (db c') k q" if "k \<in> set ls" "started (db c1) (db c') k q" for k q
    using that same_row [OF other [OF that(1)]] by (simp add: started_def)
  ultimately have "\<forall>k \<in> set (l # ls). \<exists>r. started (db c) (db c') k r" using c'(4) by (metis set_ConsD)
  moreover have "for_each (do_launch te cfg hook) (l # ls) c = (Inr (), c')" using c1(1) c'(1) by (simp add: bnd_def)
  moreover have "map jid (jobs (db c')) = map jid (jobs (db c))" using c'(2) rows(3) by simp
  moreover have "ran_gpus (history c') = ran_gpus (history c) @ map la_gpu_uuid (l # ls)" using c'(3) c1(3) by simp
  moreover have "\<forall>q. jid q \<notin> la_job_id ` set (l # ls) \<longrightarrow> q \<in> set (jobs (db c')) \<longleftrightarrow> q \<in> set (jobs (db c))"
    using c'(5) rows(2) by simp
  ultimately show ?case by blast
qed

text \<open>Reclaiming leaves the queued jobs as they are.\<close>

definition same_queue :: "store \<Rightarrow> ctl \<Rightarrow> bool" where
  "same_queue st c = (map jid (jobs (db c)) = map jid (jobs st) \<and>
     (\<forall>q. state q = QUEUED \<longrightarrow> q \<in> set (jobs (db c)) \<longleftrightarrow> q \<in> set (jobs st)))"

lemma reclaims_keep_queue: "undisturbed te \<Longrightarrow> keeps (same_queue st) (for_each (do_reclaim te) rs)"
proof (intro keeps_for_each)
  fix r assume te: "undisturbed te"
  have "keeps (same_queue st) (write_store te (\<lambda>_. mark_preempting i why))" for i why
  proof (rule keepsI)
    fix c assume q: "same_queue st c"
    have "q \<in> set (jobs (mark_preempting i why (db c))) \<longleftrightarrow> q \<in> set (jobs (db c))" if "state q = QUEUED" for q
      using that by (auto simp: mark_preempting_def image_iff)
    moreover have "map jid (jobs (mark_preempting i why (db c))) = map jid (jobs (db c))" by (simp add: mark_preempting_def)
    ultimately show "same_queue st (snd (write_store te (\<lambda>_. mark_preempting i why) c))"
      using q by (simp add: quiet_write [OF te] same_queue_def)
  qed
  moreover have "keeps (same_queue st) (stop_container te cont)" for cont
    using stop_db [of te cont] by (intro keepsI) (simp add: same_db_def same_queue_def)
  ultimately show "keeps (same_queue st) (do_reclaim te r)" unfolding do_reclaim_def by (intro step_intros)
qed

section \<open>A tick\<close>

lemma pendings_db: "for_each (pending_stop te) as c = (r, c') \<Longrightarrow> db c' = db c"
proof -
  have "same_db (for_each (pending_stop te) as)"
    using pending_db [of te] by (intro same_db_keeps keeps_for_each keepsI) (simp add: same_db_def)
  then show "for_each (pending_stop te) as c = (r, c') \<Longrightarrow> db c' = db c" by (rule same_db_run)
qed

text \<open>The jobs in the queue are the queued rows.\<close>

lemma queued_rows:
  assumes "queued dflt st = Inr q"
  shows "j \<in> set q \<longleftrightarrow> (\<exists>r \<in> set (jobs st). state r = QUEUED \<and> queued_of dflt r = Inr j)"
proof -
  let ?rs = "filter (\<lambda>r. state r = QUEUED) (jobs st)"
  have l: "list_all2 (\<lambda>r j. queued_of dflt r = Inr j) ?rs q" using assms by (simp add: queued_def traverse_Inr_iff)
  then have len: "length ?rs = length q" "\<And>i. i < length q \<Longrightarrow> queued_of dflt (?rs ! i) = Inr (q ! i)"
    by (auto simp: list_all2_conv_all_nth)
  show "j \<in> set q \<longleftrightarrow> (\<exists>r \<in> set (jobs st). state r = QUEUED \<and> queued_of dflt r = Inr j)"
  proof
    assume "j \<in> set q"
    then obtain i where i: "i < length q" "j = q ! i" by (auto simp: in_set_conv_nth)
    then have "?rs ! i \<in> set ?rs" using len(1) by (intro nth_mem) simp
    then have "?rs ! i \<in> set (jobs st) \<and> state (?rs ! i) = QUEUED" unfolding set_filter by blast
    then show "\<exists>r \<in> set (jobs st). state r = QUEUED \<and> queued_of dflt r = Inr j"
      using len(2) [OF i(1)] i(2) by (intro bexI [of _ "?rs ! i"]) simp_all
  next
    assume "\<exists>r \<in> set (jobs st). state r = QUEUED \<and> queued_of dflt r = Inr j"
    then obtain r where r: "r \<in> set ?rs" "queued_of dflt r = Inr j" by auto
    from r(1) obtain i where i: "i < length ?rs" "r = ?rs ! i" unfolding in_set_conv_nth by metis
    then have "q ! i = j" using len r(2) by fastforce
    then show "j \<in> set q" using i(1) len(1) by (metis nth_mem)
  qed
qed

text \<open>The acting part of a tick that nothing disturbs. The rows \<open>rs\<close> are the jobs it starts.\<close>

lemma act_phase_live:
  assumes te: "undisturbed te" and act: "act_phase te cfg True as vs c = (Inr (), c')"
    and inv: "store_inv m (db c)" "store_inv m (db c')"
    and budget: "ram_budget_of te cfg = Inr budget" and hook: "hook_file te = Inr hook" "hook \<or> allow_unenforced (spot cfg)"
    and sane: "\<forall>r \<in> set (jobs (db c)). sane_row r" "0 \<le> default_ram (spot cfg)"
    and u: "dict_get vs u = Some v" "lendable v" "u \<notin> rs_gpu_uuid ` set as" "u \<notin> rs_gpu_uuid ` set (active (db c'))"
    and q: "queued (default_ram (spot cfg)) (db c') = Inr q" "j \<in> set q" "suits v j"
  shows "\<exists>rs. set rs \<subseteq> set (jobs (db c')) \<and> distinct (map jid rs) \<and> (\<forall>r \<in> set rs. state r = RUNNING) \<and>
    map Some (ran_gpus (history c')) = map Some (ran_gpus (history c)) @ map gpu_uuid rs \<and>
    budget < sum_list (map (job_ram (default_ram (spot cfg))) rs) + qj_ram j"
proof -
  let ?dr = "default_ram (spot cfg)"
  from act [unfolded act_phase_def Let_def] obtain c1 queue c2 c3 where
    c1: "for_each (pending_stop te) as c = (Inr (), c1)"
    and queue: "read_store te (queued ?dr) c1 = (Inr queue, c2)"
    and c3: "for_each (do_reclaim te) (reclaims (plan vs as queue budget True)) c2 = (Inr (), c3)"
    and last: "for_each (do_launch te cfg hook) (launches (plan vs as queue budget True)) c3 = (Inr (), c')"
    using hook(2) by (auto simp: bnd_Inr lift_Inr budget hook(1))
  have db1: "db c1 = db c" using pendings_db [OF c1] .
  have queue': "queued ?dr (db c) = Inr queue" and db2: "db c2 = db c" and h2: "history c2 = history c1"
    using queue db1 by (auto simp: quiet_read [OF te])
  let ?p = "plan vs as queue budget True" and ?ls = "launches (plan vs as queue budget True)"
  have same3: "same_queue (db c) c3"
    using keepsD [OF reclaims_keep_queue [OF te], of "db c" c2 "reclaims ?p"] c3 db2 by (simp add: same_queue_def)
  have "ran_gpus (history c1) = ran_gpus (history c)"
    by (rule rans_kept [OF keeps_for_each c1]) (rule rans.keep_pending_stop)
  moreover have "ran_gpus (history c3) = ran_gpus (history c2)"
    by (rule rans_kept [OF keeps_for_each c3]) (rule rans.keep_do_reclaim)
  ultimately have h3: "ran_gpus (history c3) = ran_gpus (history c)" using h2 by simp
  have ids3: "distinct (map jid (jobs (db c3)))"
    using same3 store_invD(1) [OF inv(1)] by (simp only: same_queue_def)
  have rowj: "\<exists>r \<in> set (jobs (db c)). state r = QUEUED \<and> jid r = qj_job_id k \<and> uid r \<noteq> 0 \<and> is_ok (from_json (spec_doc r)) \<and>
      0 \<le> qj_ram k \<and> job_ram ?dr r = qj_ram k" if "k \<in> set queue" for k
  proof -
    from that obtain r where r: "r \<in> set (jobs (db c))" "state r = QUEUED" "queued_of ?dr r = Inr k"
      using queued_rows [OF queue'] by blast
    from r(3) obtain s where s: "from_json (spec_doc r) = Inr s" "jid r = qj_job_id k" "qj_ram k = (if ram s = 0 then ?dr else ram s)"
      by (auto simp: queued_of_def rmap_Inr_iff)
    have "uid r \<noteq> 0" "0 \<le> ram s" using sane(1) r(1) s(1) by (auto simp: sane_row_def)
    with r s sane(2) show ?thesis by (intro bexI [of _ r]) (simp_all add: job_ram_def)
  qed
  have planned: "\<exists>r. row_of (db c3) (la_job_id l) = Some r \<and> state r = QUEUED \<and> uid r \<noteq> 0 \<and> is_ok (from_json (spec_doc r)) \<and>
      job_ram ?dr r = la_ram l" if "l \<in> set ?ls" for l
  proof -
    from plan_launch [OF that] obtain k where k: "k \<in> set queue" "la_job_id l = qj_job_id k" "la_ram l = qj_ram k" by blast
    from rowj [OF k(1)] obtain r where r: "r \<in> set (jobs (db c))" "state r = QUEUED" "jid r = qj_job_id k" "uid r \<noteq> 0"
      "is_ok (from_json (spec_doc r))" "job_ram ?dr r = qj_ram k" by blast
    have "r \<in> set (jobs (db c3))" using same3 r(1,2) by (simp add: same_queue_def)
    from row_of_unique [OF ids3 this] show ?thesis using r k(2,3) by simp
  qed
  have ready: "ready (db c3) (la_job_id l)" if "l \<in> set ?ls" for l using planned [OF that] by (auto simp: ready_def)
  obtain c4 where "for_each (do_launch te cfg hook) ?ls c3 = (Inr (), c4)"
    "ran_gpus (history c4) = ran_gpus (history c3) @ map la_gpu_uuid ?ls" "\<forall>l \<in> set ?ls. \<exists>r. started (db c3) (db c4) l r"
    "\<forall>q. jid q \<notin> la_job_id ` set ?ls \<longrightarrow> q \<in> set (jobs (db c4)) \<longleftrightarrow> q \<in> set (jobs (db c3))"
    using launches_start [OF te plan_jobs ready ids3] by blast
  with last have hist: "ran_gpus (history c') = ran_gpus (history c3) @ map la_gpu_uuid ?ls"
    and begun: "\<forall>l \<in> set ?ls. \<exists>r. started (db c3) (db c') l r"
    and others: "\<forall>q. jid q \<notin> la_job_id ` set ?ls \<longrightarrow> q \<in> set (jobs (db c')) \<longleftrightarrow> q \<in> set (jobs (db c3))" by simp_all
  from begun obtain row where row: "\<forall>l \<in> set ?ls. started (db c3) (db c') l (row l)" by metis
  let ?rs = "map row ?ls"
  have row_facts: "row l \<in> set (jobs (db c'))" "jid (row l) = la_job_id l" "state (row l) = RUNNING"
    "gpu_uuid (row l) = Some (la_gpu_uuid l)" "job_ram ?dr (row l) = la_ram l" if "l \<in> set ?ls" for l
  proof -
    have s: "started (db c3) (db c') l (row l)" using row that by blast
    then show "row l \<in> set (jobs (db c'))" "jid (row l) = la_job_id l" "state (row l) = RUNNING"
      "gpu_uuid (row l) = Some (la_gpu_uuid l)" using row_of_Some by (auto simp: started_def)
    show "job_ram ?dr (row l) = la_ram l" using s planned [OF that] by (auto simp: started_def job_ram_def)
  qed
  have free: "u \<notin> la_gpu_uuid ` set ?ls"
  proof
    assume "u \<in> la_gpu_uuid ` set ?ls"
    then obtain l where l: "l \<in> set ?ls" "u = la_gpu_uuid l" by blast
    have "spot_of (row l) \<in> set (active (db c'))" using row_facts(1,3) [OF l(1)] by (force simp: active_iff is_active_def)
    moreover have "rs_gpu_uuid (spot_of (row l)) = u" using row_facts(4) [OF l(1)] l(2) by (simp add: spot_of_def or_empty_def)
    ultimately show False using u(4) by blast
  qed
  obtain r where r: "r \<in> set (jobs (db c'))" "state r = QUEUED" "queued_of ?dr r = Inr j"
    using q(2) queued_rows [OF q(1)] by blast
  have jid: "jid r = qj_job_id j" using r(3) by (auto simp: queued_of_def rmap_Inr_iff)
  have "jid r \<notin> la_job_id ` set ?ls"
  proof
    assume "jid r \<in> la_job_id ` set ?ls"
    then obtain l where l: "l \<in> set ?ls" "jid r = la_job_id l" by auto
    then have "row_of (db c') (jid r) = Some (row l)" using row by (simp add: started_def)
    then show False using row_of_unique [OF store_invD(1) [OF inv(2)] r(1)] r(2) row_facts(3) [OF l(1)] by simp
  qed
  then have new: "qj_job_id j \<notin> la_job_id ` set ?ls" and "r \<in> set (jobs (db c3))" using others r(1) jid by auto
  then have "r \<in> set (jobs (db c))" using same3 r(2) by (simp add: same_queue_def)
  then have j: "j \<in> set queue" using queued_rows [OF queue'] r(2,3) by blast
  have "u \<in> set (dict_keys vs)" using u(1) by (force dest: map_of_SomeD)
  moreover have "\<forall>k \<in> set (sort_key queue_key queue). 0 \<le> qj_ram k" using rowj by (simp only: set_sort) blast
  ultimately have "budget < sum_list (map la_ram ?ls) + qj_ram j"
    using assign_maximal [of "sort_key queue_key queue" u "sort (dict_keys vs)" vs "rs_gpu_uuid ` set as" v "{}" budget j]
      u free new j q(3) by (auto simp: plan_launches free_gpu_def)
  moreover have maps: "map (job_ram ?dr) ?rs = map la_ram ?ls" "map jid ?rs = map la_job_id ?ls"
    "map gpu_uuid ?rs = map Some (map la_gpu_uuid ?ls)" using row_facts by simp_all
  ultimately have room: "budget < sum_list (map (job_ram ?dr) ?rs) + qj_ram j" by (simp only: maps(1))
  have dist: "distinct (map jid ?rs)" unfolding maps(2) by (rule plan_jobs)
  have gpus: "map Some (ran_gpus (history c')) = map Some (ran_gpus (history c)) @ map gpu_uuid ?rs"
    unfolding maps(3) hist h3 by simp
  have rows: "set ?rs \<subseteq> set (jobs (db c'))" "\<forall>r \<in> set ?rs. state r = RUNNING" using row_facts(1,3) by auto
  show ?thesis using room dist gpus rows by blast
qed

text \<open>What was submitted stays in the row whatever is committed.\<close>

lemma request_kept: "store_inv m st \<Longrightarrow> r \<in> set (jobs st) \<Longrightarrow>
    \<exists>r' \<in> set (jobs (fold (store_step m) es st)). same_request r r'"
proof (induction es rule: rev_induct)
  case Nil
  then show ?case by (intro bexI [of _ r]) (simp_all add: same_request_def)
next
  case (snoc e es)
  then obtain r1 where r1: "r1 \<in> set (jobs (fold (store_step m) es st))" "same_request r r1" by blast
  have "store_inv m (fold (store_step m) es st)" using snoc.prems(1) by (rule sm.inv_run)
  from store_step_rows [OF store_invD(1) [OF this] r1(1), of m e] obtain r2 where
    r2: "r2 \<in> set (jobs (store_step m e (fold (store_step m) es st)))" "row_step m e r1 r2" by blast
  then have "same_request r r2" using r1(2) by (auto simp: row_step_defs)
  with r2(1) show ?case by (intro bexI [of _ r2]) simp_all
qed

text \<open>What acting does to the database, and the spots it found stay where they are.\<close>

lemma act_outcome:
  assumes dec: "decided cfg st0 now kill ps obs as vs c4"
    and on: "act_on cfg st0 as {} (rs_job_id ` {a \<in> set as. reclaiming a}) {} c4"
    and act: "act_phase te cfg True as vs c4 = (Inr (), c')"
  shows "store_inv (max_attempts (spot cfg)) (db c4)" "store_inv (max_attempts (spot cfg)) (db c')"
    "\<exists>es. db c' = fold (store_step (max_attempts (spot cfg))) es (db c4)"
    "rs_gpu_uuid ` set as \<subseteq> rs_gpu_uuid ` set (active (db c'))"
proof -
  note ok4 = act_onD [OF on]
  have vs: "distinct (dict_keys vs)" using dec by (simp add: decided_def judged_def)
  have "db_ok (max_attempts (spot cfg)) (db c4) (db c4)" using ok4 by (simp add: db_ok_def reach_refl)
  then have "act_on cfg (db c4) as {} (rs_job_id ` {a \<in> set as. reclaiming a}) {} c4" using on by (simp add: acting_def)
  from hoareD(1) [OF act_phase_ok [OF vs] this act] obtain G where
    fin: "act_on cfg (db c4) as G (due as vs) (stopping as vs) c'" by blast
  note ok' = act_onD [OF fin]
  show "store_inv (max_attempts (spot cfg)) (db c4)" "store_inv (max_attempts (spot cfg)) (db c')"
    using db_okD [OF ok4] db_okD [OF ok'] .
  show "\<exists>es. db c' = fold (store_step (max_attempts (spot cfg))) es (db c4)" using ok' by (auto simp: db_ok_def reach_def)
  have hold: "trip ` set as \<subseteq> set (holders (db c'))" using fin unfolding acting_def by blast
  show "rs_gpu_uuid ` set as \<subseteq> rs_gpu_uuid ` set (active (db c'))"
  proof (rule image_subsetI)
    fix a assume "a \<in> set as"
    then have "trip a \<in> set (holders (db c'))" using hold by blast
    then show "rs_gpu_uuid a \<in> rs_gpu_uuid ` set (active (db c'))" by (auto simp: holders_active [OF db_okD [OF ok']] trip_def)
  qed
qed

lemma lendable_used:
  assumes "undisturbed te" "tick te cfg now c = (Inr (), c')"
    and "store_inv (max_attempts (spot cfg)) (db c)" "distinct (map rs_gpu_uuid (active (db c)))"
    and "owners_answer te = Inr os" "spots_answer te = Inr ss"
    and "ram_budget_of te cfg = Inr budget" "hook_file te = Inr hook" "hook \<or> allow_unenforced (spot cfg)"
    and "\<forall>r \<in> set (jobs (db c')). sane_row r" "0 \<le> default_ram (spot cfg)"
    and "dict_get (last_verdicts c') u = Some v" "lendable v" "u \<notin> rs_gpu_uuid ` set (active (db c'))"
    and "queued (default_ram (spot cfg)) (db c') = Inr q" "j \<in> set q" "suits v j"
  shows "\<exists>rs. set rs \<subseteq> set (jobs (db c')) \<and> distinct (map jid rs) \<and> (\<forall>r \<in> set rs. state r = RUNNING) \<and>
    map Some (ran_gpus (history c')) = map Some (ran_gpus (history c)) @ map gpu_uuid rs \<and>
    budget < sum_list (map (job_ram (default_ram (spot cfg))) rs) + qj_ram j"
proof -
  let ?m = "max_attempts (spot cfg)"
  have "okc cfg (db c) c" using new_ok [OF assms(3,4)] by simp
  from tick_phases [OF this assms(2,5,6)] obtain ps kill obs as c1 c2 c3 c4 where
    c1: "read_store te (\<lambda>st. Inr (paused st)) c = (Inr ps, c1)"
    and c2: "observe_all te now os ss True c1 = (Inr obs, c2)" and c3: "reconcile te cfg ss c2 = (Inr (), c3)"
    and c4: "decide_phase te cfg now kill ps obs c3 = (Inr (as, last_verdicts c'), c4)"
    and act: "act_phase te cfg True as (last_verdicts c') c4 = (Inr (), c')"
    and dec: "decided cfg (db c) now kill ps obs as (last_verdicts c') c4"
    and on: "act_on cfg (db c) as {} (rs_job_id ` {a \<in> set as. reclaiming a}) {} c4" .
  let ?vs = "last_verdicts c'"
  note h4 = phases_ran [OF c1 c2 c3 c4]
  note out = act_outcome [OF dec on act]
  have u: "u \<notin> rs_gpu_uuid ` set as" using out(4) assms(14) by blast
  obtain es where es: "db c' = fold (store_step ?m) es (db c4)" using out(3) by blast
  have "sane_row r" if r: "r \<in> set (jobs (db c4))" for r
  proof -
    from request_kept [OF out(1) r, of es] es obtain r' where "r' \<in> set (jobs (db c'))" "same_request r r'" by metis
    then show ?thesis using assms(10) by (auto simp: same_request_def sane_row_def)
  qed
  then show ?thesis
    using act_phase_live [OF assms(1) act out(1,2) assms(7,8,9) _ assms(11) _ assms(13) u assms(14,15,16,17)]
      assms(12) unfolding h4 by blast
qed

text \<open>C10: no GPU stays idle that could serve a job. When a tick that nothing disturbs returns, a
  GPU it judged lendable and on which no job is active afterwards suits no job that is still
  queued, unless that job needs more host memory than is left after the jobs the tick has
  started: the rows \<open>rs\<close>, which are running, one for each GPU it started a container for.
  This is for jobs as the command line queues them, and limits that can be enforced or need
  not be.\<close>

theorem lendable_gpus_are_used:
  assumes "undisturbed te" "tick te cfg now c = (Inr (), c')"
    and "store_inv (max_attempts (spot cfg)) (db c)" "distinct (map rs_gpu_uuid (active (db c)))"
    and "owners_answer te = Inr os" "spots_answer te = Inr ss"
    and "ram_budget_of te cfg = Inr budget" "hook_file te = Inr hook" "hook \<or> allow_unenforced (spot cfg)"
    and "\<forall>r \<in> set (jobs (db c')). sane_row r" "0 \<le> default_ram (spot cfg)"
    and "dict_get (last_verdicts c') u = Some v" "lendable v" "u \<notin> rs_gpu_uuid ` set (active (db c'))"
    and "queued (default_ram (spot cfg)) (db c') = Inr q" "j \<in> set q" "suits v j"
  shows "\<exists>rs. set rs \<subseteq> set (jobs (db c')) \<and> distinct (map jid rs) \<and> (\<forall>r \<in> set rs. state r = RUNNING) \<and>
    map Some (ran_gpus (history c')) = map Some (ran_gpus (history c)) @ map gpu_uuid rs \<and>
    budget < sum_list (map (job_ram (default_ram (spot cfg))) rs) + qj_ram j"
  by (rule lendable_used [OF assms])

text \<open>The idle GPU again, but with a gibibyte of host memory to spare: the job stays queued.\<close>

definition idle_store :: store where
  "idle_store = store_step 20 (Submit demo_spec 1000 1000 0) empty_store"

definition idle_ctl :: ctl where
  "idle_ctl = run_loop demo_cfg [idle_round 0] (new_controller idle_store)"

definition tight_env :: tick_env where
  "tight_env = (idle_env 100)\<lparr>spots_answer := Inr [], ram_answer := Inr (33 * GiB)\<rparr>"

text \<open>A sighting, and what is seen of the idle GPU.\<close>

definition seen_at :: "rat \<Rightarrow> gpu_observation \<Rightarrow> tick_input" where
  "seen_at now ob = \<lparr>ti_obs = ob, ti_time = now, ti_lent = False, ti_reclaiming = False, ti_blocked = None\<rparr>"

definition idle_obs :: gpu_observation where
  "idle_obs = \<lparr>obs_uuid = ''GPU-a'', obs_index = 0, obs_ok = True, total_memory = 96 * GiB, used_memory = 0, processes = [],
     owner_containers = {}, owner_cpu_cores = None, obs_error = None, obs_model = ''NVIDIA''\<rparr>"

lemma tight_tick: "(case Some idle_ctl of None \<Rightarrow> False | Some c \<Rightarrow>
    active (db c) = [] \<and> \<not> fst (paused (db c)) \<and> ''GPU-a'' \<notin> snd (paused (db c)) \<and>
    sightings ''GPU-a'' (history c) = [seen_at 0 idle_obs] \<and>
    (case tick tight_env demo_cfg 100 c of (r, c') \<Rightarrow>
      sightings ''GPU-a'' (history c') = [seen_at 0 idle_obs, seen_at 100 idle_obs] \<and>
      is_ok r \<and> list_all sane_row (jobs (db c')) \<and> map rs_gpu_uuid (active (db c')) = [] \<and>
      (case dict_get (last_verdicts c') ''GPU-a'' of None \<Rightarrow> False | Some v \<Rightarrow> lendable v \<and>
        (case queued (16 * GiB) (db c') of Inl _ \<Rightarrow> False | Inr q \<Rightarrow> map (\<lambda>j. (suits v j, qj_ram j)) q = [(True, 16 * GiB)]))))"
  by code_simp

lemma idle_store_ok: "store_inv 20 idle_store" "distinct (map rs_gpu_uuid (active idle_store))"
proof -
  show "store_inv 20 idle_store"
    unfolding idle_store_def using sm.inv_reachable [OF refl, of 20 "[Submit demo_spec 1000 1000 0]"] by simp
  have "active idle_store = []" by code_simp
  then show "distinct (map rs_gpu_uuid (active idle_store))" by simp
qed

lemma idle_ctl_ok: "store_inv (max_attempts (spot demo_cfg)) (db idle_ctl)" "distinct (map rs_gpu_uuid (active (db idle_ctl)))"
proof -
  have m: "max_attempts (spot demo_cfg) = 20" by code_simp
  have "okc demo_cfg idle_store (new_controller idle_store)"
    using new_ok [of demo_cfg idle_store] idle_store_ok m by (simp add: new_controller_def)
  from db_okD [OF run_loop_ok [OF this]] show "store_inv (max_attempts (spot demo_cfg)) (db idle_ctl)" unfolding idle_ctl_def .
  have "active (db idle_ctl) = []" using tight_tick by simp
  then show "distinct (map rs_gpu_uuid (active (db idle_ctl)))" by simp
qed
theorem lendable_gpus_are_used_witness:
  "\<exists>c' rs. tick tight_env demo_cfg 100 idle_ctl = (Inr (), c') \<and>
     map Some (ran_gpus (history c')) = map Some (ran_gpus (history idle_ctl)) @ map gpu_uuid rs \<and>
     GiB < sum_list (map (job_ram (16 * GiB)) rs) + 16 * GiB"
proof -
  obtain r c' where rc: "tick tight_env demo_cfg 100 idle_ctl = (r, c')" by fastforce
  from tight_tick rc obtain v q j where
    facts: "is_ok r" "list_all sane_row (jobs (db c'))" "map rs_gpu_uuid (active (db c')) = []"
      "dict_get (last_verdicts c') ''GPU-a'' = Some v" "lendable v" "queued (16 * GiB) (db c') = Inr q"
      "j \<in> set q" "suits v j" "qj_ram j = 16 * GiB"
    by (auto split: option.splits sum.splits)
  have t: "tick tight_env demo_cfg 100 idle_ctl = (Inr (), c')" using facts(1) rc by (auto elim: is_okE)
  have te: "undisturbed tight_env" "owners_answer tight_env = Inr []" "spots_answer tight_env = Inr []"
    "hook_file tight_env = Inr True"
    by (simp_all add: undisturbed_def tight_env_def idle_env_def dark_env_def)
  have b: "ram_budget_of tight_env demo_cfg = Inr GiB" "default_ram (spot demo_cfg) = 16 * GiB" by code_simp+
  from lendable_gpus_are_used [OF te(1) t idle_ctl_ok te(2,3) b(1) te(4), of "''GPU-a''" v q j] facts b(2)
  have "\<exists>rs. map Some (ran_gpus (history c')) = map Some (ran_gpus (history idle_ctl)) @ map gpu_uuid rs \<and>
      GiB < sum_list (map (job_ram (16 * GiB)) rs) + 16 * GiB"
    by (auto simp: list_all_iff GiB_def)
  with t show ?thesis by blast
qed

end
