(* ===== verification/Run_Daemon.thy ===== *)
theory Run_Daemon imports Serve Daemon_Quiet Reader Hostinfo begin

text \<open>
  The daemon as a process: \<open>cmd_daemon\<close> and \<open>_store\<close> of \<open>labgpu/spot/cli.py\<close> and the wiring of
  \<open>Controller.__init__\<close> in \<open>labgpu/spot/daemon.py\<close>, which connects the controller with a
  reader, Docker, the job database and the host's files.
\<close>

section \<open>Connecting a controller\<close>

text \<open>The outside of one round: how the \<open>docker\<close> command and the decoder of its output answer, what
  starting \<open>docker stop\<close> comes to, the driver library, the files, and the transactions of
  others.\<close>

record machine =
  docker_exec :: "string list \<Rightarrow> proc_end"
  json_loads :: "string \<Rightarrow> pyval result"
  popen :: "string list \<Rightarrow> py_exc + stop_process"
  log_dir_made :: bool
  library :: nvml_host
  meminfo_file :: "string result"
  cpu_file :: cpu_files
  kill_exists :: "bool result"
  hook_exists :: "bool result"
  status_result :: "unit result"
  commits :: "nat \<Rightarrow> user_event list"
  commit_clock :: "nat \<Rightarrow> rat"

text \<open>What \<open>Controller.__init__\<close> stores with its default arguments: the reader's own mapping of
  processes, \<open>mem_available\<close>, the test for the library file; and a fake reader's GPUs are not
  attached.\<close>

definition connect :: "config \<Rightarrow> nvml_reader \<Rightarrow> machine \<Rightarrow> tick_env" where
  "connect cfg r m = \<lparr>kill_file = kill_exists m,
     owners_answer = list_owners (docker_exec m) (json_loads m), spots_answer = list_spots (docker_exec m) (json_loads m),
     gpus_answer = reader_list (library m) r, snapshot_answer = (\<lambda>i. fst (reader_snapshot (library m) i r)),
     pids_answer = reader_pids (library m) r, cpu_reads = cpu_file m, ram_answer = mem_available (meminfo_file m),
     hook_file = hook_exists m, run_answer = docker_run (docker_exec m),
     stop_answer = (\<lambda>cont. fst (cli_stop 0 (popen m) cont (grace_seconds (reclaim cfg)) new_docker_cli)),
     archive_answer = (\<lambda>cont. rmap (\<lambda>_. ()) (save_logs_and_remove (log_dir_made m) (docker_exec m) cont)),
     attach_gpus = (\<not> reader_is_fake r), others = commits m, store_clock = commit_clock m\<rparr>"

text \<open>The outcome of a stop depends neither on the time nor on the stops before it.\<close>

lemma cli_stop_result: "fst (cli_stop t start cont grace cli) = fst (cli_stop t' start cont grace (cli\<lparr>stoppers := ps\<rparr>))"
  by (simp add: cli_stop_def stop_async_def Let_def split_beta split: sum.split)

definition connect_round :: "config \<Rightarrow> nvml_reader \<Rightarrow> machine \<Rightarrow> loop_round" where
  "connect_round cfg r m = \<lparr>round_time = 0, round_env = connect cfg r m, status_written = status_result m,
     error_env = connect cfg r m\<rparr>"

section \<open>The command\<close>

text \<open>\<open>_store\<close>: the directory is made, the database opened and its tables created unless they
  exist.\<close>

definition open_store :: "unit result \<Rightarrow> store option result \<Rightarrow> store result" where
  "open_store mkdir file = rbind mkdir (\<lambda>_. rmap (\<lambda>tables. case tables of None \<Rightarrow> empty_store | Some st \<Rightarrow> st) file)"

definition fake_warning :: "nvml_reader \<Rightarrow> string list" where
  "fake_warning r = (if reader_is_fake r
     then [''FAKE NVML mode: GPUs are simulated and spot containers get no GPU attached''] else [])"

definition hook_warning :: "config \<Rightarrow> bool \<Rightarrow> string list" where
  "hook_warning cfg present = (if present then []
     else [''HAMi-core '' @ path_str (hook_path (spot cfg)) @ '' missing: spot GPU memory cannot be limited; '' @
       (if allow_unenforced (spot cfg) then ''lending anyway (allow_unenforced)'' else ''not lending'')])"

text \<open>A run of the process: what it finds when it starts, and then round by round; \<open>reader_at n\<close>
  is the reader in round \<open>n\<close>, whose time stamps advance.\<close>

record process_run =
  first_library :: nvml_host
  state_dir_made :: "unit result"
  database :: "store option result"
  first_hook :: "bool result"
  machines :: "nat \<Rightarrow> machine"
  reader_at :: "nat \<Rightarrow> nvml_reader"
  round_took :: "nat \<Rightarrow> rat"
  signalled :: "rat option"
  wall_clock :: "rat \<Rightarrow> rat"
  started_at_time :: rat
  last_machine :: machine
  last_reader :: nvml_reader
  reclaim_took :: rat
  stop_times :: "nat \<Rightarrow> rat"
  stop_starts :: "nat \<Rightarrow> string list \<Rightarrow> py_exc + stop_process"
  wait_lags :: "nat \<Rightarrow> rat"
  nvml_shutdown :: "unit result"

definition process_schedule :: "config \<Rightarrow> process_run \<Rightarrow> schedule" where
  "process_schedule cfg w = \<lparr>outside = (\<lambda>n. connect_round cfg (reader_at w n) (machines w n)), took = round_took w,
     signal_at = signalled w, wall = wall_clock w\<rparr>"

text \<open>How the process ends: its exit status or the exception it dies of, the warnings it logged at
  the start, whether the reader was closed, and the controller if there was one.\<close>

record process_end =
  exit_result :: "int result"
  warnings :: "string list"
  reader_closed :: bool
  final_ctl :: "ctl option"

definition dies :: "py_exc \<Rightarrow> string list \<Rightarrow> process_end option" where
  "dies e ws = Some \<lparr>exit_result = Inl e, warnings = ws, reader_closed = False, final_ctl = None\<rparr>"

text \<open>\<open>try: run_forever(controller) finally: nvml.close()\<close>.\<close>

definition run_and_close :: "unit result \<Rightarrow> nvml_reader \<Rightarrow> 'a result \<Rightarrow> int result" where
  "run_and_close shut r res = rbind (close_reader shut r) (\<lambda>_. rmap (\<lambda>_. 0) res)"

definition cmd_daemon :: "config \<Rightarrow> process_run \<Rightarrow> process_end option" where
  "cmd_daemon cfg w = (case open_reader (first_library w) of
     Inl e \<Rightarrow> dies e []
   | Inr r \<Rightarrow> (case open_store (state_dir_made w) (database w) of
       Inl e \<Rightarrow> dies e (fake_warning r)
     | Inr st \<Rightarrow> (case first_hook w of
         Inl e \<Rightarrow> dies e (fake_warning r)
       | Inr present \<Rightarrow>
           (case serve cfg (process_schedule cfg w) (started_at_time w) (connect cfg (last_reader w) (last_machine w))
                   (reclaim_took w) (stop_times w) (stop_starts w) (wait_lags w) (new_controller st) of
              None \<Rightarrow> None
            | Some (res, c) \<Rightarrow> Some \<lparr>exit_result = run_and_close (nvml_shutdown w) (last_reader w) res,
                warnings = fake_warning r @ hook_warning cfg present, reader_closed = True, final_ctl = Some c\<rparr>))))"

section \<open>What containers get\<close>

text \<open>The argument vector of a container for a GPU, as \<open>build_run_args\<close> makes it.\<close>

definition vector_for :: "spot_config \<Rightarrow> bool \<Rightarrow> string \<Rightarrow> pyval list \<Rightarrow> bool" where
  "vector_for sc attach g argv \<longleftrightarrow> (\<exists>i n s u gid mlimit mem enforced. u \<noteq> 0 \<and> (enforced \<or> allow_unenforced sc) \<and>
     build_run_args i n s u gid g mlimit mem sc enforced attach = Inr argv)"

abbreviation all_vectors :: "(string \<Rightarrow> pyval list \<Rightarrow> bool) \<Rightarrow> ctl \<Rightarrow> bool" where
  "all_vectors P c \<equiv> \<forall>g argv. Ran g argv \<in> set (history c) \<longrightarrow> P g argv"

interpretation vectors: ctl_invariant "all_vectors P" for P
  by unfold_locales (auto simp: note_event_def)

lemma launch_vectors:
  assumes "attach_gpus te = attach" "hook \<or> allow_unenforced (spot cfg)"
  shows "keeps (all_vectors (vector_for (spot cfg) attach)) (do_launch te cfg hook la)"
proof -
  let ?I = "all_vectors (vector_for (spot cfg) attach)"
  have start: "keeps ?I (start_job te cfg la hook n rec)" for n rec
  proof (cases "build_run_args (jid (fst rec)) n (snd rec) (uid (fst rec)) (gid (fst rec)) (la_gpu_uuid la)
      (gpu_mem_limit la) (la_ram la) (spot cfg) hook (attach_gpus te)")
    case (Inl e)
    then show ?thesis by (auto simp: start_job_def bnd_def lift_def intro: keepsI)
  next
    case (Inr argv)
    then have "uid (fst rec) \<noteq> 0" by (auto simp: build_run_args_def)
    then have v: "vector_for (spot cfg) attach (la_gpu_uuid la) argv" using Inr assms unfolding vector_for_def by blast
    have "keeps ?I (start_container te (la_gpu_uuid la) argv)"
      unfolding start_container_def by (intro step_intros keeps_modify) (auto simp: note_event_def v)
    moreover have "start_job te cfg la hook n rec = start_container te (la_gpu_uuid la) argv"
      by (simp add: start_job_def Inr bnd_def lift_def fun_eq_iff)
    ultimately show ?thesis by simp
  qed
  show ?thesis
    unfolding do_launch_def
    by (intro step_intros vectors.keep_read vectors.keep_write vectors.keep_transact start)
qed

lemma loop_vectors:
  assumes "\<And>rd. rd \<in> set rds \<Longrightarrow> attach_gpus (round_env rd) = attach" "all_vectors (vector_for (spot cfg) attach) c"
  shows "all_vectors (vector_for (spot cfg) attach) (run_loop cfg rds c)"
proof (rule vectors.keep_run_loop_if [OF vectors.keep_round_if assms(2)])
  fix rd vs as q b hook la
  assume rd: "rd \<in> set rds" and la: "la \<in> set (launches (plan vs as q b (hook \<or> allow_unenforced (spot cfg))))"
  from plan_launch [OF la] have "hook \<or> allow_unenforced (spot cfg)" by blast
  from launch_vectors [OF assms(1) [OF rd] this]
  show "keeps (all_vectors (vector_for (spot cfg) attach)) (do_launch (round_env rd) cfg hook la)" .
qed

lemma serve_run:
  assumes "serve cfg sch t0 te r ats starts lag c = Some (res, c')"
  shows "\<exists>ts t c1. serve_loop cfg sch 0 t0 c = Some (ts, t, c1) \<and> c' = snd (reclaim_all te ''controller shutdown'' c1)"
proof -
  from assms obtain ts t c1 where l: "serve_loop cfg sch 0 t0 c = Some (ts, t, c1)"
    unfolding serve_def by (cases "serve_loop cfg sch 0 t0 c") auto
  obtain q c2 where r: "reclaim_all te ''controller shutdown'' c1 = (q, c2)" by fastforce
  have "c' = c2" using assms unfolding serve_def l option.case prod.case r by (cases q) (auto simp: Let_def split: prod.splits)
  then show ?thesis using l r by auto
qed

lemma rounds_at_member: "rd \<in> set (rounds_at sch n ts) \<Longrightarrow> \<exists>k t. rd = round_at sch k t"
  by (induction ts arbitrary: n) auto

text \<open>What docker is told by a vector.\<close>

definition confined :: "spot_config \<Rightarrow> bool \<Rightarrow> string \<Rightarrow> pyval list \<Rightarrow> bool" where
  "confined sc attach g argv = (let os = fst (read_opts (drop 2 (map the_str argv))) in
     opt_values ''--gpus'' os = (if attach then [''device='' @ g] else []) \<and>
     (\<exists>u k. u \<noteq> 0 \<and> opt_values ''--user'' os = [int_str u @ '':'' @ int_str k]) \<and>
     (\<exists>m. opt_values ''--memory'' os = [m] \<and> opt_values ''--memory-swap'' os = [m]) \<and>
     (allow_unenforced sc \<or>
        path_str (hook_path sc) @ '':/opt/labgpu/libvgpu.so:ro'' \<in> set (opt_values ''-v'' os) \<and>
        ''LD_PRELOAD=/opt/labgpu/libvgpu.so'' \<in> set (opt_values ''-e'' os) \<and>
        (\<exists>n \<ge> 1. ''CUDA_DEVICE_MEMORY_LIMIT_0='' @ int_str n @ ''m'' \<in> set (opt_values ''-e'' os))))"

lemma built_confined:
  assumes b: "build_run_args i n s u k g mlimit mem sc e attach = Inr argv"
    and im: "image s \<noteq> []" "hd (image s) \<noteq> CHR ''-''" and e: "e \<or> allow_unenforced sc"
  shows "confined sc attach g argv"
proof -
  let ?os = "(''-d'', []) # option_pairs i n s u k g mlimit mem sc e attach"
  have os: "fst (read_opts (drop 2 (map the_str argv))) = ?os" by (simp only: ropts.reads_argv [OF b im] fst_conv)
  have u: "u \<noteq> 0" using b by (auto simp: build_run_args_def)
  have env: "k' @ ''='' @ v \<in> set (opt_values ''-e'' ?os)" if "dict_get (final_env s i n mlimit e) k' = Some v" for k' v
    using map_of_SomeD [OF that] by (force simp: option_pairs_def option_values opt_values_if)
  have "dict_get (final_env s i n mlimit True) ''LD_PRELOAD'' = Some HOOK_IN_CONTAINER"
    "dict_get (final_env s i n mlimit True) ''CUDA_DEVICE_MEMORY_LIMIT_0'' = Some (int_str (max (mlimit div MiB) 1) @ ''m'')"
    by (simp_all add: final_env_get enforce_env_def)
  then have "e \<Longrightarrow> ''LD_PRELOAD=/opt/labgpu/libvgpu.so'' \<in> set (opt_values ''-e'' ?os)"
    "e \<Longrightarrow> ''CUDA_DEVICE_MEMORY_LIMIT_0='' @ int_str (max (mlimit div MiB) 1) @ ''m'' \<in> set (opt_values ''-e'' ?os)"
    using env [of "''LD_PRELOAD''" HOOK_IN_CONTAINER] env [of "''CUDA_DEVICE_MEMORY_LIMIT_0''"] by (simp_all add: HOOK_IN_CONTAINER_def)
  moreover have "1 \<le> max (mlimit div MiB) 1" by simp
  moreover have "e \<Longrightarrow> path_str (hook_path sc) @ '':/opt/labgpu/libvgpu.so:ro'' \<in> set (opt_values ''-v'' ?os)"
    by (simp add: option_pairs_def option_values opt_values_if HOOK_IN_CONTAINER_def)
  ultimately have hook: "allow_unenforced sc \<or>
        path_str (hook_path sc) @ '':/opt/labgpu/libvgpu.so:ro'' \<in> set (opt_values ''-v'' ?os) \<and>
        ''LD_PRELOAD=/opt/labgpu/libvgpu.so'' \<in> set (opt_values ''-e'' ?os) \<and>
        (\<exists>n \<ge> 1. ''CUDA_DEVICE_MEMORY_LIMIT_0='' @ int_str n @ ''m'' \<in> set (opt_values ''-e'' ?os))" using e by blast
  have "opt_values ''--gpus'' ?os = (if attach then [''device='' @ g] else [])"
    "opt_values ''--user'' ?os = [int_str u @ '':'' @ int_str k]"
    "opt_values ''--memory'' ?os = [int_str mem]" "opt_values ''--memory-swap'' ?os = [int_str mem]"
    by (simp_all add: option_pairs_def option_values opt_values_if)
  with u hook show ?thesis unfolding confined_def os Let_def by blast
qed

section \<open>Properties\<close>

text \<open>C6: the daemon never starts an unconfined container. Of every container that a run of the
  daemon starts for a GPU, over all its rounds and whatever the machine answers, the vector is
  one that \<open>build_run_args\<close> makes for a job; and when the job's image is a name, docker is told
  to run it as a user other than root, with one memory limit and no swap beyond it, with the
  enforcement library mounted and preloaded and a GPU memory limit unless the configuration
  waives enforcement, and with exactly that GPU, or with none when the GPUs are fake.\<close>

theorem daemon_containers_confined:
  assumes "cmd_daemon cfg w = Some d" "final_ctl d = Some c"
    and "\<And>k. reader_is_fake (reader_at w k) = (fake_wanted (environ (first_library w)) \<noteq> None)"
    and "Ran g argv \<in> set (history c)"
  shows "\<exists>i n s u k mlimit mem e. build_run_args i n s u k g mlimit mem (spot cfg) e (fake_wanted (environ (first_library w)) = None) = Inr argv \<and>
    (image s \<noteq> [] \<and> hd (image s) \<noteq> CHR ''-'' \<longrightarrow> confined (spot cfg) (fake_wanted (environ (first_library w)) = None) g argv)"
proof -
  let ?attach = "fake_wanted (environ (first_library w)) = None" and ?sch = "process_schedule cfg w"
  let ?V = "all_vectors (vector_for (spot cfg) ?attach)"
  let ?te = "connect cfg (last_reader w) (last_machine w)"
  from assms(1,2) obtain r st present res where
    "serve cfg ?sch (started_at_time w) (connect cfg (last_reader w) (last_machine w)) (reclaim_took w)
       (stop_times w) (stop_starts w) (wait_lags w) (new_controller st) = Some (res, c)"
    by (auto simp: cmd_daemon_def dies_def split: sum.splits option.splits prod.splits)
  from serve_run [OF this] obtain ts t c1 where loop: "serve_loop cfg ?sch 0 (started_at_time w) (new_controller st) = Some (ts, t, c1)"
    and c: "c = snd (reclaim_all ?te ''controller shutdown'' c1)" by blast
  have c1: "c1 = run_loop cfg (rounds_at ?sch 0 ts) (new_controller st)" using serve_loop_run [OF loop] by blast
  have att: "attach_gpus (round_env rd) = ?attach" if "rd \<in> set (rounds_at ?sch 0 ts)" for rd
    using rounds_at_member [OF that] assms(3) by (auto simp: process_schedule_def round_at_def connect_round_def connect_def)
  have "?V c1" unfolding c1 by (rule loop_vectors [OF att]) (simp_all add: new_controller_def)
  from keepsD [OF vectors.keep_reclaim_all this] have "?V c" unfolding c .
  with assms(4) obtain i n s u k mlimit mem e where
    "build_run_args i n s u k g mlimit mem (spot cfg) e ?attach = Inr argv" "e \<or> allow_unenforced (spot cfg)"
    unfolding vector_for_def by blast
  then show ?thesis using built_confined by blast
qed

text \<open>A fake GPU, a queue with one job, and two rounds a hundred seconds apart.\<close>

definition fake_library :: nvml_host where
  "fake_library = \<lparr>environ = [(''LABGPU_FAKE_NVML'', ''/tmp/gpus.json'')], lib_present = False, lib_init = None,
     lib_driver = Inl [], lib_devices = Inl [], lib_device = \<lambda>_. Inl [],
     fake_text = \<lambda>_. Inr (PDict [(''gpus'', PList [PDict [(''uuid'', PStr ''GPU-a''), (''name'', PStr ''NVIDIA''),
       (''memory'', PInt (96 * GiB))]])]),
     cgroup_text = \<lambda>_. Inl (OSError [])\<rparr>"

definition fake_machine :: machine where
  "fake_machine = \<lparr>docker_exec = \<lambda>args. if hd args = ''run'' then Ended 0 ''c1'' [] else Ended 0 [] [],
     json_loads = \<lambda>_. Inl (ValueError []), popen = \<lambda>_. Inr \<lparr>sp_pid = 7, sp_end = Some 300\<rparr>, log_dir_made = True,
     library = fake_library, meminfo_file = Inr ''MemAvailable: 100000000 kB'',
     cpu_file = \<lparr>cgroup_of = \<lambda>_. Inr [], cpu_stat_of = \<lambda>_. Inr []\<rparr>, kill_exists = Inr False, hook_exists = Inr True,
     status_result = Inr (), commits = \<lambda>_. [], commit_clock = \<lambda>_. 0\<rparr>"

definition fake_run :: process_run where
  "fake_run = \<lparr>first_library = fake_library, state_dir_made = Inr (),
     database = Inr (Some (store_step 20 (Submit demo_spec 1000 1000 0) empty_store)), first_hook = Inr True,
     machines = \<lambda>_. fake_machine, reader_at = \<lambda>_. FakeReader ''/tmp/gpus.json'', round_took = \<lambda>_. 100, signalled = Some 150,
     wall_clock = \<lambda>t. t, started_at_time = 0, last_machine = fake_machine, last_reader = FakeReader ''/tmp/gpus.json'',
     reclaim_took = 1, stop_times = \<lambda>_. 200, stop_starts = \<lambda>_ _. Inr \<lparr>sp_pid = 7, sp_end = Some 210\<rparr>, wait_lags = \<lambda>_. 0,
     nvml_shutdown = Inr ()\<rparr>"

declare serve_loop.simps [code]

lemma fake_run_ends: "(case cmd_daemon demo_cfg fake_run of None \<Rightarrow> False
   | Some d \<Rightarrow> exit_result d = Inr 0 \<and> length (warnings d) = 1 \<and> reader_closed d \<and>
       (case final_ctl d of None \<Rightarrow> False
        | Some c \<Rightarrow> stops_of (history c) = [''c1''] \<and> ran_gpus (history c) = [''GPU-a'']))"
  by code_simp

theorem daemon_containers_confined_witness:
  "\<exists>d c argv i n s u k mlimit mem e. cmd_daemon demo_cfg fake_run = Some d \<and> final_ctl d = Some c \<and>
     Ran ''GPU-a'' argv \<in> set (history c) \<and>
     build_run_args i n s u k ''GPU-a'' mlimit mem (spot demo_cfg) e False = Inr argv"
proof -
  from fake_run_ends obtain d c where d: "cmd_daemon demo_cfg fake_run = Some d" "final_ctl d = Some c"
    "ran_gpus (history c) = [''GPU-a'']"
    by (auto split: option.splits)
  then have "''GPU-a'' \<in> set (ran_gpus (history c))" by simp
  then obtain pre argv post where "history c = pre @ Ran ''GPU-a'' argv # post" using ran_gpus_split by blast
  then have a: "Ran ''GPU-a'' argv \<in> set (history c)" by simp
  have fake: "fake_wanted (environ (first_library fake_run)) = Some ''/tmp/gpus.json''" by code_simp
  have "reader_is_fake (reader_at fake_run k) = (fake_wanted (environ (first_library fake_run)) \<noteq> None)" for k
    unfolding fake by (simp add: fake_run_def)
  from daemon_containers_confined [OF d(1,2) this a] obtain i n s u k mlimit mem e where
    "build_run_args i n s u k ''GPU-a'' mlimit mem (spot demo_cfg) e False = Inr argv"
    unfolding fake by auto
  with d(1,2) a show ?thesis by blast
qed

end
