(* ===== verification/Owner_First.thy ===== *)
theory Owner_First imports Plugin_Owners Daemon_Live begin

text \<open>
  The two halves of the program together: a container to which the accelerator plugin gave
  GPUs, and the controller that finds its processes at work there. What the plugin writes
  into the container, what \<open>docker inspect\<close> shows of it, the snapshot of the GPU, the
  detector's rules and the acts of the tick make one chain.
\<close>

section \<open>An owner at work\<close>

text \<open>The processes of a container on a GPU, as far as they can be seen at all, use more of it
  than an idle owner may.\<close>

definition owner_busy :: "tick_env \<Rightarrow> config \<Rightarrow> string \<Rightarrow> gpu_info \<Rightarrow> bool" where
  "owner_busy te cfg cid g = (\<forall>s pm. snapshot_answer te (index g) = Inr s \<and> pids_answer te (map pid (snap_processes s)) = Inr pm \<longrightarrow>
     (\<forall>p \<in> set (snap_processes s). 0 \<le> proc_sm p) \<and>
     owner_util_threshold (idle cfg) <
       sum_list (map proc_sm (filter (\<lambda>p. get_or None pm (pid p) = Some cid) (snap_processes s))))"

lemma update_busy_state: "\<not> obs_ok ob \<or> util_rule ob ic \<Longrightarrow>
    v_state (fst (update t ob now ic rc lent recl b)) \<notin> {LENT, LENDABLE} \<and> \<not> lendable (fst (update t ob now ic rc lent recl b))"
  by (auto simp: verdict_defs activity_reasons_def split: if_splits)

lemma sum_filter_mono:
  fixes f :: "'a \<Rightarrow> int"
  assumes "\<And>x. x \<in> set xs \<Longrightarrow> 0 \<le> f x" "\<And>x. x \<in> set xs \<Longrightarrow> P x \<Longrightarrow> Q x"
  shows "sum_list (map f (filter P xs)) \<le> sum_list (map f (filter Q xs))"
  using assms by (induction xs) (auto intro: add_mono order_trans)

text \<open>Its processes are the owner's in the observation of the GPU.\<close>

lemma owner_busy_observed:
  assumes o: "observe gpus (snapshot_answer te) os ss (pids_answer te) cpu = Inr obs"
    and d: "distinct (map index gpus)" "distinct (map uuid gpus)" "distinct (map sc_id ss)"
    and g: "g \<in> set gpus" and ob: "ob \<in> set obs" "obs_uuid ob = uuid g"
    and own: "attached_owner gpus os g cid" "cid \<notin> sc_id ` set ss" and busy: "owner_busy te cfg cid g"
  shows "\<not> obs_ok ob \<or> util_rule ob (idle cfg)"
proof (cases "obs_ok ob")
  case True
  let ?og = "\<lambda>g. observe_gpu (snapshot_answer te) (pids_answer te) (owners_of gpus os (uuid g)) (spot_gpus ss) cpu g"
  have l2: "list_all2 (\<lambda>g ob. ?og g = Inr ob) gpus obs" using o by (simp add: observe_def traverse_Inr_iff)
  from ob(1) obtain i where i: "i < length obs" "ob = obs ! i" by (auto simp: in_set_conv_nth)
  then have og: "?og (gpus ! i) = Inr ob" and gi: "gpus ! i \<in> set gpus"
    using l2 by (auto simp: list_all2_conv_all_nth)
  from og True obtain s pm where s: "snapshot_answer te (index (gpus ! i)) = Inr s" "uuid (info s) = uuid (gpus ! i)"
    "pids_answer te (map pid (snap_processes s)) = Inr pm"
    and b: "ob = build_observation s pm (owners_of gpus os (uuid (gpus ! i))) (spot_gpus ss) cpu"
    by (auto simp: observe_gpu_def rbind_Inr_iff rmap_Inr_iff failed_observation_def split: sum.splits if_splits prod.splits)
  have "uuid (gpus ! i) = uuid g" using b s(2) ob(2) by (simp add: build_observation_def)
  then have same: "gpus ! i = g" using d(2) gi g by (auto simp: distinct_map dest: inj_onD)
  let ?k = "\<lambda>p. classify (uuid (info s)) (owners_of gpus os (uuid g)) (spot_gpus ss) (get_or None pm (pid p))"
  have owner: "?k p = OWNER" if "get_or None pm (pid p) = Some cid" for p
  proof -
    have "dict_get (spot_gpus ss) cid \<noteq> Some k" for k using spot_gpus_get [OF d(3), of cid k] own(2) by auto
    then have "dict_get (spot_gpus ss) cid = None" by (cases "dict_get (spot_gpus ss) cid") auto
    then show ?thesis using that own(1) owners_of_mem [OF d(1,2) g] by (simp add: classify_def)
  qed
  have bz: "\<forall>p \<in> set (snap_processes s). 0 \<le> proc_sm p"
    "owner_util_threshold (idle cfg) < sum_list (map proc_sm (filter (\<lambda>p. get_or None pm (pid p) = Some cid) (snap_processes s)))"
    using busy s(1,3) unfolding owner_busy_def same by blast+
  have "sum_list (map proc_sm (filter (\<lambda>p. get_or None pm (pid p) = Some cid) (snap_processes s))) \<le>
      sum_list (map proc_sm (filter (\<lambda>p. ?k p = OWNER) (snap_processes s)))"
    by (rule sum_filter_mono) (use bz(1) in blast, rule owner)
  also have "\<dots> = owner_util ob"
    unfolding b same by (simp add: owner_util_def build_observation_def Let_def filter_map comp_def)
  finally show ?thesis using bz(2) by (simp add: util_rule_def)
qed simp

section \<open>Properties\<close>

text \<open>C3: the owner comes first, from the plugin to the controller. Take a container that runs with
  the arguments the plugin generated for an allocation, whatever variables its image adds
  before and others add after without redefining the plugin's, and a GPU of that allocation. When the
  container's processes use the GPU above the idle threshold (or the GPU cannot be observed),
  then a tick of the controller, after any rounds, that returns leaves no spot running there:
  every job active on the GPU is being reclaimed and \<open>docker stop\<close> was started for its
  container, in this tick unless an earlier round had called it already; and the tick starts
  nothing on the GPU, whatever the controller remembered of it before.\<close>

theorem owner_comes_first:
  assumes plugin: "generate_docker_args p alloc = Inr args" "limits p alloc = Inr ls" "enabled p" "ls \<noteq> []"
      "dict_get args ''Env'' = Some (PList vars)"
      "dget2 inspect ''Config'' ''Env'' = Inr (PList (map PStr before @ vars @ map PStr after))"
      "\<forall>s \<in> set after. fst (partition (CHR ''='') s) \<noteq> ''LABGPU_DEVICE_UUIDS''"
      "\<forall>d \<in> set (device_list p). cd_uuid d \<notin> {'''', ''all''} \<and> CHR '','' \<notin> set (cd_uuid d) \<and> cd_uuid d \<in> uuid ` set gpus"
    and docker: "owners_answer te = Inr os" "parse_owner inspect = Inr oc" "oc \<in> set os"
      "spots_answer te = Inr ss" "distinct (map sc_id ss)" "oc_id oc \<notin> sc_id ` set ss"
    and gpu: "gpus_answer te = Inr gpus" "distinct (map index gpus)" "distinct (map uuid gpus)" "g \<in> set gpus"
      "uuid g \<in> lim_uuid ` set ls"
    and busy: "owner_busy te cfg (oc_id oc) g"
    and tick: "store_inv (max_attempts (spot cfg)) st" "distinct (map rs_gpu_uuid (active st))"
      "c = run_loop cfg rds (new_controller st)" "tick te cfg now c = (Inr (), c')"
  shows "(\<forall>a \<in> set (active (db c')). rs_gpu_uuid a = uuid g \<longrightarrow>
      reclaiming a \<and> (rs_container a \<noteq> [] \<longrightarrow> stop_given c c' (rs_container a))) \<and>
    (\<exists>new. ran_gpus (history c') = ran_gpus (history c) @ new \<and> uuid g \<notin> set new)"
proof -
  have ok: "okc cfg st c" unfolding tick(3) by (rule controller_ok [OF tick(1,2)])
  from tick_phases [OF ok tick(4) docker(1,4)] obtain ps kill obs as c1 c2 c3 c4 where
    ph: "read_store te (\<lambda>st. Inr (paused st)) c = (Inr ps, c1)" "observe_all te now os ss True c1 = (Inr obs, c2)"
      "reconcile te cfg ss c2 = (Inr (), c3)" "decide_phase te cfg now kill ps obs c3 = (Inr (as, last_verdicts c'), c4)"
    and act: "act_phase te cfg True as (last_verdicts c') c4 = (Inr (), c')"
    and dec: "decided cfg st now kill ps obs as (last_verdicts c') c4" .
  from ph(2) obtain cpu where o: "observe gpus (snapshot_answer te) os ss (pids_answer te) cpu = Inr obs"
    by (auto simp: observe_all_def gpu(1) bnd_Inr lift_Inr)
  have refs: "gpu_refs oc = map lim_uuid ls"
    using docker(2) refs_recovered(1) [OF plugin] by (auto simp: parse_owner_def rbind_Inr_iff)
  have own: "attached_owner gpus os g (oc_id oc)"
    using gpu(5) unfolding attached_owner_def refs [symmetric] list.set_map [symmetric]
    by (intro bexI [OF _ docker(3)] conjI refl bexI [of _ "uuid g"]) (simp_all add: names_gpu_def)
  have v: "v_state v \<notin> {LENT, LENDABLE} \<and> \<not> lendable v" if "dict_get (last_verdicts c') (uuid g) = Some v" for v
  proof -
    from dec have j: "judged cfg now kill ps as obs (last_verdicts c')" by (simp add: decided_def)
    from judgedD [OF j that] obtain ob t where ob: "ob \<in> set obs" "obs_uuid ob = uuid g" "v = judgement cfg now kill ps as ob t" by blast
    from owner_busy_observed [OF o gpu(2,3) docker(5) gpu(4) ob(1,2) own docker(6) busy] show ?thesis
      unfolding ob(3) judgement_def by (rule update_busy_state)
  qed
  have given: "stop_given c c' s" if "s \<in> stop_issued c'" for s
    using tick_gives [OF tick(4) _ that] run_called unfolding tick(3) by blast
  have gone: "reclaiming a \<and> (rs_container a \<noteq> [] \<longrightarrow> stop_given c c' (rs_container a))"
    if "a \<in> set (active (db c'))" "rs_gpu_uuid a = uuid g" for a
    using lent_or_stopped [OF hoareD(1) [OF tick_ok ok tick(4)] that(1)] v that(2) given by auto
  from act_phase_ran [OF act] obtain new where new: "ran_gpus (history c') = ran_gpus (history c4) @ new"
    "\<forall>u \<in> set new. \<exists>v. dict_get (last_verdicts c') u = Some v \<and> lendable v" by blast
  have "uuid g \<notin> set new" using new(2) v by blast
  then show ?thesis using gone new(1) phases_ran [OF ph] by auto
qed

text \<open>Half of a GPU for a container, whose process uses sixty percent of it, and a spot there.\<close>

definition owner_inspect :: "pyval list \<Rightarrow> pyval" where
  "owner_inspect vars = PDict [(''Id'', PStr ''c2''), (''State'', PDict [(''Pid'', PInt 77)]),
     (''Config'', PDict [(''Env'', PList (map PStr [''PATH=/bin''] @ vars @ map PStr [''HOME=/root'']))])]"

definition shared_gpus :: "gpu_info list" where
  "shared_gpus = [\<lparr>index = 0, uuid = ''GPU-a'', name = ''NVIDIA'', memory = 96 * GiB, pci_bus_id = ''0''\<rparr>,
     \<lparr>index = 1, uuid = ''GPU-b'', name = ''NVIDIA'', memory = 48 * GiB, pci_bus_id = ''1''\<rparr>]"

definition working_env :: "owner_container \<Rightarrow> tick_env" where
  "working_env oc = dark_env\<lparr>kill_file := Inr False, owners_answer := Inr [oc],
     spots_answer := Inr [\<lparr>sc_id = ''c1'', sc_name = ''labgpu-spot-1-1'', sc_job_id = Some 1, sc_gpu_uuid = Some ''GPU-b'',
       running = True, sc_exit_code = None\<rparr>],
     gpus_answer := Inr shared_gpus,
     snapshot_answer := (\<lambda>i. if i = 1 then Inr \<lparr>info = shared_gpus ! 1, snap_used = 4 * GiB, gpu_util = 60,
         snap_processes = [\<lparr>pid = 78, proc_memory = 4 * GiB, proc_sm = 60\<rparr>]\<rparr> else Inl (NvmlError ''gone'')),
     pids_answer := (\<lambda>_. Inr [(78, Some ''c2'')])\<rparr>"

definition lent_store :: store where
  "lent_store = fold (store_step 20) [Submit demo_spec 1000 1000 0, MarkRunning 1 ''GPU-b'' ''c1'' 5] empty_store"

lemma lent_store_ok: "store_inv (max_attempts (spot demo_cfg)) lent_store" "distinct (map rs_gpu_uuid (active lent_store))"
proof -
  have m: "max_attempts (spot demo_cfg) = 20" by code_simp
  show "store_inv (max_attempts (spot demo_cfg)) lent_store" unfolding m lent_store_def by (rule sm.inv_reachable [OF refl])
  show "distinct (map rs_gpu_uuid (active lent_store))" by code_simp
qed

lemma working_tick: "(case tick (working_env \<lparr>oc_id = ''c2'', oc_pid = 77, gpu_refs = [''GPU-b'']\<rparr>) demo_cfg 10 (new_controller lent_store) of
    (r, c) \<Rightarrow> is_ok r \<and> map (\<lambda>a. (rs_gpu_uuid a, rs_container a)) (active (db c)) = [(''GPU-b'', ''c1'')])"
  by code_simp

theorem owner_comes_first_witness:
  "\<exists>vars oc c' a. parse_owner (owner_inspect vars) = Inr oc \<and>
     tick (working_env oc) demo_cfg 10 (new_controller lent_store) = (Inr (), c') \<and>
     a \<in> set (active (db c')) \<and> rs_gpu_uuid a = ''GPU-b'' \<and> reclaiming a \<and> Stopping (rs_container a) True \<in> set (history c')"
proof -
  from demo_limit obtain l where l: "limits demo_plugin demo_alloc = Inr [l]" "lim_uuid l = ''GPU-b''" by blast
  then have args: "generate_docker_args demo_plugin demo_alloc = Inr (docker_args demo_plugin [l])"
    by (simp add: generate_docker_args_def)
  obtain vars where vars: "dict_get (docker_args demo_plugin [l]) ''Env'' = Some (PList vars)" by (simp add: docker_args_def)
  have env: "dget2 (owner_inspect vars) ''Config'' ''Env'' = Inr (PList (map PStr [''PATH=/bin''] @ vars @ map PStr [''HOME=/root'']))"
    by (simp add: owner_inspect_def dget2_def dget_def or_dict_def get_or_def)
  have after: "\<forall>s \<in> set [''HOME=/root'']. fst (partition (CHR ''='') s) \<noteq> ''LABGPU_DEVICE_UUIDS''" by code_simp
  have dev: "\<forall>d \<in> set (device_list demo_plugin). cd_uuid d \<notin> {'''', ''all''} \<and> CHR '','' \<notin> set (cd_uuid d) \<and>
      cd_uuid d \<in> uuid ` set shared_gpus"
    by (simp add: demo_plugin_def device_list_def demo_device_def shared_gpus_def)
  have ne: "[l] \<noteq> []" by simp
  let ?oc = "\<lparr>oc_id = ''c2'', oc_pid = 77, gpu_refs = [''GPU-b'']\<rparr>"
  from refs_recovered(1) [OF args l(1) demo_fields(1) ne vars env after dev]
  have "parse_gpu_refs (owner_inspect vars) = Inr [''GPU-b'']" using l(2) by simp
  then have oc: "parse_owner (owner_inspect vars) = Inr ?oc"
    by (simp add: parse_owner_def inspect_id_def owner_inspect_def dget2_def dget_def or_dict_def get_or_def doc_key_def
        untyped_def int_of_def)
  let ?te = "working_env ?oc" and ?g = "shared_gpus ! 1"
  obtain r c' where t: "tick ?te demo_cfg 10 (new_controller lent_store) = (r, c')" by fastforce
  from working_tick have c: "is_ok r" "map (\<lambda>a. (rs_gpu_uuid a, rs_container a)) (active (db c')) = [(''GPU-b'', ''c1'')]"
    unfolding t by simp_all
  from c(1) t have tick: "tick ?te demo_cfg 10 (new_controller lent_store) = (Inr (), c')" by (auto elim: is_okE)
  from c(2) obtain a where a: "a \<in> set (active (db c'))" "rs_gpu_uuid a = ''GPU-b''" "rs_container a = ''c1''"
    by (cases "active (db c')") auto
  have thr: "owner_util_threshold (idle demo_cfg) = 5" by code_simp
  have busy: "owner_busy ?te demo_cfg (oc_id ?oc) ?g"
    by (simp add: owner_busy_def working_env_def thr shared_gpus_def get_or_def)
  have new: "new_controller lent_store = run_loop demo_cfg [] (new_controller lent_store)" by (simp add: run_loop_def)
  have docker: "owners_answer ?te = Inr [?oc]" "gpus_answer ?te = Inr shared_gpus"
    by (simp_all add: working_env_def dark_env_def)
  obtain ss where ss: "spots_answer ?te = Inr ss" "map sc_id ss = [''c1'']" by (simp add: working_env_def dark_env_def)
  have d: "distinct (map sc_id ss)" "oc_id ?oc \<notin> sc_id ` set ss" unfolding list.set_map [symmetric] ss(2) by simp_all
  have g: "distinct (map index shared_gpus)" "distinct (map uuid shared_gpus)" "?g \<in> set shared_gpus"
    "uuid ?g \<in> lim_uuid ` set [l]" "uuid ?g = ''GPU-b''" using l(2) by (simp_all add: shared_gpus_def)
  have "?oc \<in> set [?oc]" by simp
  from owner_comes_first [OF args l(1) demo_fields(1) ne vars env after dev docker(1) oc this ss(1) d docker(2) g(1-4) busy lent_store_ok new tick]
  have "reclaiming a \<and> stop_given (new_controller lent_store) c' (rs_container a)" using a g(5) by auto
  then have "reclaiming a \<and> Stopping (rs_container a) True \<in> set (history c')"
    by (simp add: stop_given_def new_events_def new_controller_def)
  with oc tick a show ?thesis by blast
qed

end
