(* ===== verification/Daemon_Idle.thy ===== *)
theory Daemon_Idle imports Daemon_Live begin

text \<open>
  The converse of \<open>Daemon_Quiet\<close>: a GPU that its owners have left alone for the idle window is
  offered, and \<open>Daemon_Live\<close> then says that a job runs on it or none fits.
\<close>

section \<open>Trackers at rest\<close>

text \<open>Nothing in a later observation \<open>b\<close> that the detector takes for activity after \<open>a\<close>.\<close>

definition still :: "idle_config \<Rightarrow> gpu_observation \<Rightarrow> gpu_observation \<Rightarrow> bool" where
  "still ic a b = (quiet_obs ic b \<and> owner_memory b \<le> owner_memory a + owner_mem_delta ic \<and>
     owner_containers b \<subseteq> owner_containers a)"

text \<open>What a tracker remembers of observations without activity since \<open>t0\<close>: its baseline is the
  owners' memory in one of them, and its owners are those of one of them.\<close>

definition at_rest :: "gpu_tracker \<Rightarrow> rat \<Rightarrow> gpu_observation list \<Rightarrow> bool" where
  "at_rest t t0 xs = (last_active t = t0 \<and> (\<exists>x \<in> set xs. mem_baseline t = owner_memory x) \<and>
     (\<exists>x \<in> set xs. prev_owners t = owner_containers x))"

lemma at_rest_quiet:
  assumes "at_rest t t0 xs" "\<forall>x \<in> set xs. still ic x b"
  shows "obs_ok b" "activity_reasons t b ic = []"
  using assms by (auto simp: at_rest_def still_def quiet_obs_def activity_Nil_iff mem_rule_def new_owners_def)

lemma at_rest_step:
  assumes "at_rest t t0 xs" "\<forall>x \<in> set xs. still ic x b"
  shows "at_rest (track t b now ic) t0 (xs @ [b])"
  using assms(1) at_rest_quiet [OF assms] by (auto simp: track_def at_rest_def min_def)

lemma at_rest_run:
  assumes "at_rest t t0 [a]" "sorted_wrt (still ic) (a # map ti_obs ks)"
  shows "at_rest (fold (tracker_step ic rc) ks t) t0 (a # map ti_obs ks)"
  using assms(2)
proof (induction ks rule: rev_induct)
  case (snoc k ks)
  let ?xs = "a # map ti_obs ks"
  have "sorted_wrt (still ic) (?xs @ [ti_obs k])" using snoc.prems by simp
  then have "sorted_wrt (still ic) ?xs" "\<forall>x \<in> set ?xs. still ic x (ti_obs k)" by (simp_all only: sorted_wrt_append) simp_all
  from at_rest_step [OF snoc.IH [OF this(1)] this(2), of "ti_time k"] show ?case by (simp add: tracker_step_def)
qed (use assms(1) in simp)

text \<open>The window begins with the first sighting, or with one that is activity for itself.\<close>

lemma at_rest_begin:
  assumes "obs_ok (ti_obs k)" "t = new_tracker (ti_obs k) (ti_time k) \<or> \<not> quiet_obs ic (ti_obs k)"
  shows "at_rest (tracker_step ic rc k t) (ti_time k) [ti_obs k]"
proof (cases "activity_reasons t (ti_obs k) ic = []")
  case True
  then have "quiet_obs ic (ti_obs k)" using assms(1) by (simp add: activity_Nil_iff quiet_obs_def)
  then show ?thesis using assms True by (simp add: tracker_step_def track_def at_rest_def new_tracker_def)
next
  case False
  then show ?thesis using assms(1) by (simp add: tracker_step_def track_def at_rest_def)
qed

lemma tracker_at_rest:
  assumes "obs_ok (ti_obs k)" "ks1 = [] \<or> \<not> quiet_obs (idle cfg) (ti_obs k)"
    and "sorted_wrt (still (idle cfg)) (ti_obs k # map ti_obs ks2)"
  shows "\<exists>t. tracker_of cfg (ks1 @ k # ks2) = Some t \<and> at_rest t (ti_time k) (ti_obs k # map ti_obs ks2)"
proof -
  let ?step = "tracker_step (idle cfg) (reclaim cfg)"
  obtain k0 where k0: "hd (ks1 @ k # ks2) = k0" "ks1 = [] \<Longrightarrow> k0 = k" by (cases ks1) auto
  let ?t = "fold ?step ks1 (new_tracker (ti_obs k0) (ti_time k0))"
  have "?t = new_tracker (ti_obs k) (ti_time k) \<or> \<not> quiet_obs (idle cfg) (ti_obs k)" using assms(2) k0(2) by auto
  from at_rest_run [OF at_rest_begin [OF assms(1) this] assms(3), of "reclaim cfg" "reclaim cfg"]
  show ?thesis using k0(1) by (cases ks1) (auto simp: tracker_of_def)
qed

section \<open>One judgement per GPU\<close>

lemma judge_sightings: "sightings u (history (snd (judge cfg now kill ps as ob vc))) =
    sightings u (history (snd vc)) @ (if u = obs_uuid ob then [seen_at now ob] else [])"
  by (auto simp: judge_def Let_def note_event_def seen_at_def split: prod.splits)

lemma judge_tracker: "obs_uuid o1 \<noteq> obs_uuid ob \<Longrightarrow>
    tracker_for o1 t (snd (judge cfg now kill ps as ob vc)) = tracker_for o1 t (snd vc)"
  by (auto simp: judge_def Let_def note_event_def tracker_for_def get_or_def update_conv' split: prod.splits)

lemma judge_run:
  assumes "distinct (map obs_uuid obs)" "fold (judge cfg now kill ps as) obs vc = (vs, c')"
  shows "(\<forall>ob \<in> set obs. dict_get vs (obs_uuid ob) = Some (judgement cfg now kill ps as ob (tracker_for ob now (snd vc))) \<and>
      sightings (obs_uuid ob) (history c') = sightings (obs_uuid ob) (history (snd vc)) @ [seen_at now ob]) \<and>
    (\<forall>u. u \<notin> obs_uuid ` set obs \<longrightarrow> dict_get vs u = dict_get (fst vc) u \<and>
      sightings u (history c') = sightings u (history (snd vc)))"
  using assms
proof (induction obs arbitrary: vc)
  case (Cons o1 obs)
  let ?vc = "judge cfg now kill ps as o1 vc"
  have d: "distinct (map obs_uuid obs)" "obs_uuid o1 \<notin> obs_uuid ` set obs" and f: "fold (judge cfg now kill ps as) obs ?vc = (vs, c')"
    using Cons.prems by auto
  note ih = Cons.IH [OF d(1) f]
  have first: "dict_get vs (obs_uuid o1) = Some (judgement cfg now kill ps as o1 (tracker_for o1 now (snd vc)))"
    "sightings (obs_uuid o1) (history c') = sightings (obs_uuid o1) (history (snd vc)) @ [seen_at now o1]"
    using ih d(2) by (simp_all add: judge_fst judge_sightings update_conv')
  have rest: "dict_get vs (obs_uuid ob) = Some (judgement cfg now kill ps as ob (tracker_for ob now (snd vc))) \<and>
      sightings (obs_uuid ob) (history c') = sightings (obs_uuid ob) (history (snd vc)) @ [seen_at now ob]" if "ob \<in> set obs" for ob
  proof -
    have "obs_uuid ob \<noteq> obs_uuid o1" using that d(2) by (metis imageI)
    then show ?thesis using ih that by (simp add: judge_sightings judge_tracker)
  qed
  have "dict_get vs u = dict_get (fst vc) u \<and> sightings u (history c') = sightings u (history (snd vc))"
    if "u \<notin> obs_uuid ` set (o1 # obs)" for u
    using ih that by (simp add: judge_fst judge_sightings update_conv')
  with first rest show ?case by simp
qed simp

interpretation unseen: ctl_still_run "\<lambda>c. trackers c = ts \<and> sightings u (history c) = ks" for ts u ks
  by unfold_locales (simp_all add: note_event_def)

lemma unseen_kept: "(\<And>ts ks. keeps (\<lambda>c. trackers c = ts \<and> sightings u (history c) = ks) f) \<Longrightarrow> f c = (r, c') \<Longrightarrow>
    trackers c' = trackers c \<and> sightings u (history c') = sightings u (history c)"
  using keepsD [of "\<lambda>x. trackers x = trackers c \<and> sightings u (history x) = sightings u (history c)" f c] by simp

lemma observe_all_uuids:
  assumes "observe_all te now os ss True c = (Inr obs, c')" "gpus_answer te = Inr gpus"
  shows "map obs_uuid obs = map uuid gpus"
proof -
  from assms obtain cpu where "observe gpus (snapshot_answer te) os ss (pids_answer te) cpu = Inr obs"
    by (auto simp: observe_all_def bnd_Inr lift_Inr)
  then have l: "list_all2 (\<lambda>g ob. observe_gpu (snapshot_answer te) (pids_answer te) (owners_of gpus os (uuid g)) (spot_gpus ss) cpu g = Inr ob)
      gpus obs" by (simp add: observe_def traverse_Inr_iff)
  have "obs_uuid ob = uuid g"
    if "observe_gpu (snapshot_answer te) (pids_answer te) (owners_of gpus os (uuid g)) (spot_gpus ss) cpu g = Inr ob" for g ob
    using that by (cases rule: observe_gpu_cases) (simp_all add: failed_observation_def build_observation_def)
  with l have "list_all2 (\<lambda>g ob. obs_uuid ob = uuid g) gpus obs" by (auto elim!: list_all2_mono)
  then show ?thesis by (induction rule: list_all2_induct) simp_all
qed

text \<open>What a tick judges of a GPU whose sightings it adds one to.\<close>

lemma tick_judgement:
  assumes ph: "read_store te (\<lambda>st. Inr (paused st)) c = (Inr ps, c1)" "observe_all te now os ss True c1 = (Inr obs, c2)"
      "reconcile te cfg ss c2 = (Inr (), c3)" "decide_phase te cfg now kill ps obs c3 = (Inr (as, last_verdicts c'), c4)"
      "act_phase te cfg True as (last_verdicts c') c4 = (Inr (), c')"
    and gpus: "gpus_answer te = Inr gpus" "distinct (map uuid gpus)"
    and seen: "sightings u (history c') = sightings u (history c) @ [x]"
  shows "ti_time x = now \<and> dict_get (last_verdicts c') u = Some (judgement cfg now kill ps as (ti_obs x) (tracker_for (ti_obs x) now c)) \<and>
    obs_uuid (ti_obs x) = u"
proof -
  have d: "distinct (map obs_uuid obs)" using observe_all_uuids [OF ph(2) gpus(1)] gpus(2) by simp
  obtain c3' where r: "read_store te (\<lambda>st. Inr (active st)) c3 = (Inr as, c3')"
    and j: "judge_all cfg now kill ps as obs c3' = (Inr (last_verdicts c'), c4)"
    using ph(4) by (auto simp: decide_phase_def bnd_Inr ret_def)
  obtain vs c5 where f: "fold (judge cfg now kill ps as) obs ([], c3') = (vs, c5)" by fastforce
  with j have vs: "vs = last_verdicts c'" and h5: "history c5 = history c4" by (auto simp: judge_all_def)
  have pre: "trackers c3' = trackers c \<and> sightings w (history c3') = sightings w (history c)" for w
    using unseen_kept [OF unseen.keep_read ph(1), of w] unseen_kept [OF unseen.keep_observe_all ph(2), of w]
      unseen_kept [OF unseen.keep_reconcile ph(3), of w] unseen_kept [OF unseen.keep_read r, of w] by simp
  have post: "sightings u (history c') = sightings u (history c5)"
    using unseen_kept [OF unseen.keep_act_phase ph(5), of u] h5 by simp
  note run = judge_run [OF d f]
  have "u \<in> obs_uuid ` set obs"
  proof (rule ccontr)
    assume "u \<notin> obs_uuid ` set obs"
    then show False using run post pre [of u] seen by simp
  qed
  then obtain ob where ob: "ob \<in> set obs" "u = obs_uuid ob" by blast
  have "x = seen_at now ob" using run ob(1) post pre [of u] seen unfolding ob(2) by simp
  moreover have "tracker_for ob now c3' = tracker_for ob now c" using pre by (simp add: tracker_for_def)
  ultimately show ?thesis using run ob(1) unfolding ob(2) vs by (simp add: seen_at_def)
qed

section \<open>Properties\<close>

text \<open>C9: a GPU whose owners stay away is lent. Take a GPU that the controller has seen, in rounds at
  non-decreasing times, and a sighting \<open>k\<close> of it that is its first or shows activity. If from
  then on, up to the observation \<open>x\<close> of the present tick, every sighting was quiet, with no
  rise of the owners' memory by more than the delta and no new owner container, if the window
  has elapsed since \<open>k\<close> (the short one when no owner is attached), if memory is left beyond the
  reserve, and if nothing is paused, then an undisturbed tick that returns leaves a job on the
  GPU, or it has offered the GPU with all its free memory but the reserve and every queued job
  that suits the offer needs more host memory than the jobs it started have left.\<close>

theorem idle_gpu_is_lent:
  assumes run: "c = run_loop cfg rds (new_controller st)" "sorted (map round_time rds)"
      "store_inv (max_attempts (spot cfg)) st" "distinct (map rs_gpu_uuid (active st))"
    and tick: "undisturbed te" "tick te cfg now c = (Inr (), c')"
    and docker: "owners_answer te = Inr os" "spots_answer te = Inr ss"
    and gpus: "gpus_answer te = Inr gpus" "distinct (map uuid gpus)"
    and seen: "sightings u (history c) = ks1 @ k # ks2" "sightings u (history c') = ks1 @ k # ks2 @ [x]"
      "obs_ok (ti_obs k)" "ks1 = [] \<or> \<not> quiet_obs (idle cfg) (ti_obs k)"
      "sorted_wrt (still (idle cfg)) (ti_obs k # map ti_obs ks2 @ [ti_obs x])"
      "wait_seconds (ti_obs x) (idle cfg) \<le> fsub now (ti_time k)" "mem_reserve (reclaim cfg) < free_memory (ti_obs x)"
    and free: "kill_file te = Inr False" "\<not> fst (paused (db c))" "u \<notin> snd (paused (db c))"
    and host: "ram_budget_of te cfg = Inr budget" "hook_file te = Inr hook" "hook \<or> allow_unenforced (spot cfg)"
    and queue: "\<forall>r \<in> set (jobs (db c')). sane_row r" "0 \<le> default_ram (spot cfg)" "queued (default_ram (spot cfg)) (db c') = Inr q"
  shows "u \<in> rs_gpu_uuid ` set (active (db c')) \<or>
    (\<exists>v. dict_get (last_verdicts c') u = Some v \<and> lendable v \<and>
       lendable_memory v = free_memory (ti_obs x) - mem_reserve (reclaim cfg) \<and>
       (\<forall>j \<in> set q. suits v j \<longrightarrow> (\<exists>rs. set rs \<subseteq> set (jobs (db c')) \<and> distinct (map jid rs) \<and> (\<forall>r \<in> set rs. state r = RUNNING) \<and>
          map Some (ran_gpus (history c')) = map Some (ran_gpus (history c)) @ map gpu_uuid rs \<and>
          budget < sum_list (map (job_ram (default_ram (spot cfg))) rs) + qj_ram j)))"
proof (cases "u \<in> rs_gpu_uuid ` set (active (db c'))")
  case False
  have "okc cfg st (new_controller st)" using new_ok [OF run(3,4)] by (simp add: new_controller_def)
  from run_loop_ok [OF this] have okst: "okc cfg st c" unfolding run(1) .
  have inv: "store_inv (max_attempts (spot cfg)) (db c)" "distinct (map rs_gpu_uuid (active (db c)))"
    using db_okD [OF okst] active_acting(2) [OF okst] by blast+
  have "okc cfg (db c) c" using new_ok [OF inv] .
  from tick_phases [OF this tick(2) docker] obtain ps kill obs as c1 c2 c3 c4 where
    ph: "read_store te (\<lambda>st. Inr (paused st)) c = (Inr ps, c1)" "observe_all te now os ss True c1 = (Inr obs, c2)"
      "reconcile te cfg ss c2 = (Inr (), c3)" "decide_phase te cfg now kill ps obs c3 = (Inr (as, last_verdicts c'), c4)"
      "act_phase te cfg True as (last_verdicts c') c4 = (Inr (), c')"
    and kill: "kill_file te = Inr kill"
    and dec: "decided cfg (db c) now kill ps obs as (last_verdicts c') c4"
    and on: "act_on cfg (db c) as {} (rs_job_id ` {a \<in> set as. reclaiming a}) {} c4" .
  have "sightings u (history c') = sightings u (history c) @ [x]" using seen(1,2) by simp
  from tick_judgement [OF ph gpus this] have
    v: "dict_get (last_verdicts c') u = Some (judgement cfg now kill ps as (ti_obs x) (tracker_for (ti_obs x) now c))"
    and x: "obs_uuid (ti_obs x) = u" by blast+
  have "histc cfg c"
    unfolding run(1) by (rule run_loop_hist [OF run(2)]) (simp_all add: new_controller_def hist_ok_def tracker_of_def seen_by_def saw_times_def)
  moreover have srt: "sorted_wrt (still (idle cfg)) (ti_obs k # map ti_obs ks2)"
    "\<forall>y \<in> set (ti_obs k # map ti_obs ks2). still (idle cfg) y (ti_obs x)"
    using seen(5) by (simp_all add: sorted_wrt_append)
  ultimately obtain t where t: "tracker_for (ti_obs x) now c = t" "at_rest t (ti_time k) (ti_obs k # map ti_obs ks2)"
    using tracker_at_rest [OF seen(3,4) srt(1)] seen(1) x by (auto simp: tracker_for_def get_or_def hist_ok_def)
  note quiet = at_rest_quiet [OF t(2) srt(2)]
  have as: "\<not> (\<exists>a \<in> set as. rs_gpu_uuid a = u)" using act_outcome(4) [OF dec on ph(5)] False by blast
  have ps: "ps = paused (db c)" using ph(1) by (simp add: quiet_read [OF tick(1)])
  have nb: "blocked_by kill (fst ps) (snd ps) (ti_obs x) = None" using free kill x by (simp add: blocked_by_def ps)
  have len: "lendable (judgement cfg now kill ps as (ti_obs x) t)"
    using quiet t(2) as seen(6,7) unfolding judgement_def nb x by (simp add: update_lendable at_rest_def block_reasons_def)
  then have mem: "lendable_memory (judgement cfg now kill ps as (ti_obs x) t) = free_memory (ti_obs x) - mem_reserve (reclaim cfg)"
    unfolding judgement_def by (simp add: update_lendable_memory)
  have "\<exists>rs. set rs \<subseteq> set (jobs (db c')) \<and> distinct (map jid rs) \<and> (\<forall>r \<in> set rs. state r = RUNNING) \<and>
      map Some (ran_gpus (history c')) = map Some (ran_gpus (history c)) @ map gpu_uuid rs \<and>
      budget < sum_list (map (job_ram (default_ram (spot cfg))) rs) + qj_ram j"
    if "j \<in> set q" "suits (judgement cfg now kill ps as (ti_obs x) t) j" for j
    by (rule lendable_used [OF tick inv docker host queue(1,2) v [unfolded t(1)] len False queue(3) that])
  with v [unfolded t(1)] len mem show ?thesis by blast
qed simp

text \<open>The idle GPU of \<open>Daemon_Live\<close>, first seen a hundred seconds ago.\<close>

lemma idle_still: "still (idle demo_cfg) idle_obs idle_obs" "wait_seconds idle_obs (idle demo_cfg) \<le> fsub 100 0"
  by code_simp+

theorem idle_gpu_is_lent_witness:
  "\<exists>c' v rs. tick tight_env demo_cfg 100 idle_ctl = (Inr (), c') \<and> dict_get (last_verdicts c') ''GPU-a'' = Some v \<and>
     lendable_memory v = 94 * GiB \<and> GiB < sum_list (map (job_ram (16 * GiB)) rs) + 16 * GiB"
proof -
  obtain r c' where rc: "tick tight_env demo_cfg 100 idle_ctl = (r, c')" by fastforce
  from tight_tick rc obtain v q j where
    facts: "is_ok r" "list_all sane_row (jobs (db c'))" "map rs_gpu_uuid (active (db c')) = []"
      "dict_get (last_verdicts c') ''GPU-a'' = Some v" "lendable v" "queued (16 * GiB) (db c') = Inr q"
      "j \<in> set q" "suits v j" "qj_ram j = 16 * GiB"
    by (auto split: option.splits sum.splits)
  have t: "tick tight_env demo_cfg 100 idle_ctl = (Inr (), c')" using facts(1) rc by (auto elim: is_okE)
  let ?k = "seen_at 0 idle_obs" and ?x = "seen_at 100 idle_obs"
  from tight_tick rc have ks: "sightings ''GPU-a'' (history idle_ctl) = [] @ ?k # []"
    "sightings ''GPU-a'' (history c') = [] @ ?k # [] @ [?x]"
    and p: "\<not> fst (paused (db idle_ctl)) \<and> ''GPU-a'' \<notin> snd (paused (db idle_ctl))" by simp_all
  have k: "obs_ok (ti_obs ?k)" "wait_seconds (ti_obs ?x) (idle demo_cfg) \<le> fsub 100 (ti_time ?k)" "free_memory (ti_obs ?x) = 96 * GiB"
    using idle_still(2) by (simp_all add: seen_at_def idle_obs_def free_memory_def)
  have te: "undisturbed tight_env" "owners_answer tight_env = Inr []" "spots_answer tight_env = Inr []"
    "hook_file tight_env = Inr True" "gpus_answer tight_env = Inr [idle_gpu]" "kill_file tight_env = Inr False"
    by (simp_all add: undisturbed_def tight_env_def idle_env_def dark_env_def)
  have b: "ram_budget_of tight_env demo_cfg = Inr GiB" "default_ram (spot demo_cfg) = 16 * GiB"
    "mem_reserve (reclaim demo_cfg) = 2 * GiB" "max_attempts (spot demo_cfg) = 20" by code_simp+
  have st: "store_inv (max_attempts (spot demo_cfg)) idle_store" "distinct (map rs_gpu_uuid (active idle_store))"
    unfolding b(4) by (rule idle_store_ok)+
  have srt: "sorted (map round_time [idle_round 0])" "distinct (map uuid [idle_gpu])" by simp_all
  have w: "sorted_wrt (still (idle demo_cfg)) (ti_obs ?k # map ti_obs [] @ [ti_obs ?x])" using idle_still(1) by (simp add: seen_at_def)
  have m: "mem_reserve (reclaim demo_cfg) < free_memory (ti_obs ?x)" unfolding k(3) b(3) by (simp add: GiB_def)
  have h: "True \<or> allow_unenforced (spot demo_cfg)" by simp
  have rows: "\<forall>r \<in> set (jobs (db c')). sane_row r" using facts(2) by (simp add: list_all_iff)
  have d0: "0 \<le> default_ram (spot demo_cfg)" unfolding b(2) by (simp add: GiB_def)
  have q: "queued (default_ram (spot demo_cfg)) (db c') = Inr q" unfolding b(2) by (rule facts(6))
  have none: "''GPU-a'' \<notin> rs_gpu_uuid ` set (active (db c'))" using facts(3) by simp
  from idle_gpu_is_lent [OF idle_ctl_def srt(1) st te(1) t te(2,3,5) srt(2) ks k(1) _ w k(2) m te(6) _ _ b(1) te(4) h rows d0 q]
    p none facts(4)
  have mem: "lendable_memory v = free_memory (ti_obs ?x) - mem_reserve (reclaim demo_cfg)"
    and jobs: "\<forall>j \<in> set q. suits v j \<longrightarrow> (\<exists>rs. GiB < sum_list (map (job_ram (default_ram (spot demo_cfg))) rs) + qj_ram j)" by auto
  from jobs facts(7,8) obtain rs where "GiB < sum_list (map (job_ram (16 * GiB)) rs) + 16 * GiB"
    unfolding b(2) facts(9) [symmetric] by blast
  moreover have "lendable_memory v = 94 * GiB" unfolding mem k(3) b(3) by simp
  ultimately show ?thesis using t facts(4) by blast
qed

end
