(* ===== verification/Daemon_Stuck.thy ===== *)
theory Daemon_Stuck imports Daemon_Safety begin

text \<open>
  Stops that are never called again: while the rounds return, a container in \<open>stop_issued\<close> that
  Docker reports as running is left alone, whether its \<open>docker stop\<close> was started or not.
\<close>

fun is_stopping :: "string \<Rightarrow> daemon_event \<Rightarrow> bool" where
  "is_stopping cont (Stopping k ok) = (k = cont)"
| "is_stopping cont e = False"

section \<open>The database\<close>

text \<open>No job counts as running in the container.\<close>

definition none_runs :: "string \<Rightarrow> store \<Rightarrow> bool" where
  "none_runs s st = (\<forall>r \<in> set (jobs st). container r = Some s \<longrightarrow> state r \<noteq> RUNNING)"

lemma none_runs_update: "none_runs s st \<Longrightarrow>
    (\<And>r. (container r = Some s \<longrightarrow> state r \<noteq> RUNNING) \<Longrightarrow> container (f r) = Some s \<longrightarrow> state (f r) \<noteq> RUNNING) \<Longrightarrow>
    none_runs s (update_row i f st)"
  by (auto simp: none_runs_def update_row_def)

lemma none_runs_jobs: "none_runs s st \<Longrightarrow> jobs st' = jobs st \<Longrightarrow> none_runs s st'"
  by (simp add: none_runs_def)

lemma none_runs_user: "none_runs s st \<Longrightarrow> none_runs s (user_commit e st)"
proof (cases e)
  case (UserSubmit sp u g now)
  then show "none_runs s st \<Longrightarrow> none_runs s (user_commit e st)" by (auto simp: none_runs_def submit_def)
next
  case (UserCancel i now)
  then show "none_runs s st \<Longrightarrow> none_runs s (user_commit e st)"
    by (auto simp: cancel_def intro: none_runs_update split: option.split)
next
  case (UserPause p gpu)
  then show "none_runs s st \<Longrightarrow> none_runs s (user_commit e st)"
    by (auto simp: set_paused_def Let_def intro: none_runs_jobs split: option.split)
qed

lemma none_runs_users: "none_runs s st \<Longrightarrow> none_runs s (fold user_commit es st)"
  by (induction es arbitrary: st) (simp_all add: none_runs_user)

lemma none_runs_preempting: "none_runs s st \<Longrightarrow> none_runs s (mark_preempting i why st)"
  unfolding mark_preempting_def by (rule none_runs_update) simp_all

lemma none_runs_fail: "none_runs s st \<Longrightarrow> none_runs s (fail_job i why now st)"
  unfolding fail_job_def by (rule none_runs_update) simp_all

lemma none_runs_started: "none_runs s st \<Longrightarrow> cont \<noteq> s \<Longrightarrow> none_runs s (snd (mark_running i g cont now st))"
  by (auto simp: none_runs_def mark_running_def update_row_def Let_def split: option.split)

lemma end_state_leaves_running: "fst (end_state row ec m v) \<noteq> RUNNING"
  by (simp add: end_state_def)

lemma none_runs_finished: "none_runs s st \<Longrightarrow> none_runs s (snd (finish i ec m v now st))"
proof (cases "row_of st i")
  case (Some row)
  obtain q out where e: "end_state row ec m v = (q, out)" by fastforce
  then have "q \<noteq> RUNNING" using end_state_leaves_running [of row ec m v] by simp
  then show "none_runs s st \<Longrightarrow> none_runs s (snd (finish i ec m v now st))"
    by (auto simp: finish_def Some Let_def e none_runs_def update_row_def)
qed (simp add: finish_def)

section \<open>The methods\<close>

text \<open>The stop is noted, nothing runs in the container, and the history has just these calls.\<close>

definition stuck :: "string \<Rightarrow> daemon_event list \<Rightarrow> ctl \<Rightarrow> bool" where
  "stuck s calls c = (s \<in> stop_issued c \<and> none_runs s (db c) \<and> filter (is_stopping s) (history c) = calls)"

lemma stuck_transact: "(\<And>now st. none_runs s st \<Longrightarrow> none_runs s (snd (f now st))) \<Longrightarrow> keeps (stuck s calls) (transact te f)"
  by (rule keepsI) (auto simp: transact_def stuck_def dest: none_runs_users split: prod.split, metis none_runs_users snd_conv)

lemma stuck_read: "keeps (stuck s calls) (read_store te f)"
  unfolding read_store_def by (rule stuck_transact) simp

lemma stuck_write: "(\<And>now st. none_runs s st \<Longrightarrow> none_runs s (f now st)) \<Longrightarrow> keeps (stuck s calls) (write_store te f)"
  unfolding write_store_def by (rule stuck_transact) simp

lemma stuck_note: "stuck s calls c \<Longrightarrow> \<not> is_stopping s e \<Longrightarrow> stuck s calls (note_event e c)"
  by (simp add: stuck_def note_event_def)

lemma stuck_archive: "keeps (stuck s calls) (archive te sc)"
  unfolding archive_def by (intro step_intros keeps_modify stuck_note) simp_all

lemma stuck_stop: "cont \<noteq> s \<Longrightarrow> keeps (stuck s calls) (stop_container te cont)"
  by (rule keepsI) (simp add: stop_container_run stuck_def note_event_def)

lemma stuck_observe: "keeps (stuck s calls) (observe_all te now os ss ok)"
proof -
  have samples: "keeps (stuck s calls) (sample_owners fs now ocs d)" for fs ocs d
  proof (induction ocs arbitrary: d)
    case (Cons oc ocs)
    have "keeps (stuck s calls) (\<lambda>c. case sample fs (oc_id oc) (oc_pid oc) now (cpu_last c) of (r, l) \<Rightarrow> (r, c\<lparr>cpu_last := l\<rparr>))"
      by (rule keepsI) (simp add: stuck_def split: prod.split)
    then show ?case using Cons by (auto intro: step_intros)
  qed (simp add: keeps_ret)
  show ?thesis
  proof (cases "gpus_answer te")
    case (Inl e)
    then show ?thesis by (simp add: observe_all_def keeps_if keeps_gets keeps_lift)
  next
    case (Inr gs)
    show ?thesis
      unfolding observe_all_def Inr sum.case by (intro step_intros keeps_modify samples) (simp_all add: stuck_def)
  qed
qed

text \<open>What Docker lists has the container, running.\<close>

definition listed_running :: "string \<Rightarrow> spot_container list \<Rightarrow> bool" where
  "listed_running s ss = (s \<in> sc_id ` set ss \<and> (\<forall>sc \<in> set ss. sc_id sc = s \<longrightarrow> running sc))"

lemma listed_running_still: "listed_running s ss \<Longrightarrow> rs_container a = s \<Longrightarrow> s \<noteq> [] \<Longrightarrow> still_running ss a"
proof -
  assume l: "listed_running s ss" and a: "rs_container a = s" "s \<noteq> []"
  let ?kvs = "rev (map (\<lambda>s. (sc_id s, s)) ss)"
  have "s \<in> fst ` set ?kvs" using l by (simp add: listed_running_def image_comp comp_def)
  then obtain sc where sc: "map_of ?kvs s = Some sc" by (cases "map_of ?kvs s") (simp_all only: map_of_eq_None_iff, blast)
  then have "sc \<in> set ss" "sc_id sc = s" using map_of_SomeD [OF sc] by auto
  with l sc a show ?thesis by (simp add: still_running_def container_of_def dict_get_of listed_running_def)
qed

lemma stuck_reconcile:
  assumes "listed_running s ss" "s \<noteq> []"
  shows "keeps (stuck s calls) (reconcile te cfg ss)"
proof -
  have "keeps (stuck s calls) (close_out te cfg ss a)" for a
  proof (cases "rs_container a = s")
    case True
    then show ?thesis using listed_running_still [OF assms(1) True assms(2)] by (simp add: close_out_def keeps_ret)
  next
    case False
    have f: "keeps (stuck s calls) (modify (\<lambda>c. c\<lparr>stop_issued := stop_issued c - {rs_container a}\<rparr>))"
      by (rule keeps_modify) (use False in \<open>simp add: stuck_def\<close>)
    show ?thesis unfolding close_out_def Let_def
      by (intro step_intros stuck_transact stuck_archive f none_runs_finished)
  qed
  then show ?thesis unfolding reconcile_def by (intro step_intros stuck_read stuck_archive)
qed

lemma stuck_judge_all: "keeps (stuck s calls) (judge_all cfg now kill ps as obs)"
proof -
  have one: "stuck s calls (snd (judge cfg now kill ps as ob vc))" if "stuck s calls (snd vc)" for ob vc
    using that by (simp add: judge_def Let_def stuck_def note_event_def split: prod.split)
  have all: "stuck s calls (snd vc) \<Longrightarrow> stuck s calls (snd (fold (judge cfg now kill ps as) obs vc))" for vc
    by (induction obs arbitrary: vc) (simp_all add: one)
  show ?thesis
  proof (rule keepsI)
    fix c assume "stuck s calls c"
    with all [of "([], c)"] show "stuck s calls (snd (judge_all cfg now kill ps as obs c))"
      by (cases "fold (judge cfg now kill ps as) obs ([], c)") (simp add: judge_all_def stuck_def)
  qed
qed

text \<open>The spots a tick decides on have the container's, if at all, as being reclaimed.\<close>

abbreviation noted :: "string \<Rightarrow> running_spot list \<Rightarrow> bool" where
  "noted s as \<equiv> \<forall>a \<in> set as. rs_container a = s \<longrightarrow> reclaiming a"

lemma stuck_decide: "s \<noteq> [] \<Longrightarrow> hoare (stuck s calls) (decide_phase te cfg now kill ps obs)
    (\<lambda>x c. noted s (fst x) \<and> stuck s calls c) (\<lambda>_. stuck s calls)"
  unfolding decide_phase_def
proof (rule hoare_bnd)
  assume s: "s \<noteq> []"
  show "hoare (stuck s calls) (read_store te (\<lambda>st. Inr (active st))) (\<lambda>as c. noted s as \<and> stuck s calls c) (\<lambda>_. stuck s calls)"
  proof (rule hoare_read)
    fix c es assume c: "stuck s calls c"
    then have "none_runs s (fold user_commit es (db c))" by (simp add: stuck_def none_runs_users)
    moreover from this s have "noted s (active (fold user_commit es (db c)))"
      by (auto simp: none_runs_def active_def spot_of_def or_empty_def split: option.splits)
    ultimately show "let st = fold user_commit es (db c); c' = c\<lparr>db := st, accesses := accesses c + 1\<rparr>
      in (\<forall>x. Inr (active st) = Inr x \<longrightarrow> noted s x \<and> stuck s calls c') \<and> (\<forall>e. Inr (active st) = Inl e \<longrightarrow> stuck s calls c')"
      using c by (simp add: Let_def stuck_def)
  qed
  fix as
  show "hoare (\<lambda>c. noted s as \<and> stuck s calls c) (bnd (judge_all cfg now kill ps as obs) (\<lambda>vs. ret (as, vs)))
      (\<lambda>x c. noted s (fst x) \<and> stuck s calls c) (\<lambda>_. stuck s calls)"
  proof (rule hoare_assume)
    assume n: "noted s as"
    show "hoare (stuck s calls) (bnd (judge_all cfg now kill ps as obs) (\<lambda>vs. ret (as, vs)))
      (\<lambda>x c. noted s (fst x) \<and> stuck s calls c) (\<lambda>_. stuck s calls)"
    proof (rule hoare_bnd [OF stuck_judge_all [unfolded keeps_def]])
      show "hoare (stuck s calls) (ret (as, x)) (\<lambda>x c. noted s (fst x) \<and> stuck s calls c) (\<lambda>_. stuck s calls)" for x :: verdicts
        by (rule hoare_pre [OF hoare_ret]) (simp add: n)
    qed
  qed
qed

lemma stuck_pending: "keeps (stuck s calls) (pending_stop te a)"
proof (rule keepsI)
  fix c assume c: "stuck s calls c"
  show "stuck s calls (snd (pending_stop te a c))"
  proof (cases "rs_container a = s")
    case True
    with c show ?thesis by (simp add: pending_stop_def bnd_def gets_def ret_def stuck_def)
  next
    case False
    from keepsD [OF stuck_stop [OF False] c] c show ?thesis by (simp add: pending_stop_def bnd_def gets_def ret_def)
  qed
qed

lemma stuck_launch:
  assumes "\<forall>argv. run_answer te argv \<noteq> Inr s"
  shows "keeps (stuck s calls) (do_launch te cfg hook la)"
proof -
  have "hoare (stuck s calls) (start_job te cfg la hook n rec) (\<lambda>cont c. cont \<noteq> s \<and> stuck s calls c) (\<lambda>_. stuck s calls)" for n :: int and rec
    unfolding start_job_def start_container_def
  proof (rule hoare_bnd [OF keeps_lift [unfolded keeps_def]], rule hoare_bnd)
    show "hoare (stuck s calls) (modify (note_event (Ran (la_gpu_uuid la) x))) (\<lambda>_. stuck s calls) (\<lambda>_. stuck s calls)" for x
      by (rule hoare_pre [OF hoare_modify]) (simp add: stuck_note)
    show "hoare (stuck s calls) (lift (run_answer te x)) (\<lambda>cont c. cont \<noteq> s \<and> stuck s calls c) (\<lambda>_. stuck s calls)" for x
      by (rule hoare_pre [OF hoare_lift]) (use assms in auto)
  qed
  note job = this
  have some: "hoare (stuck s calls) (bnd (start_job te cfg la hook n rec) (\<lambda>cont. ret (Some cont)))
      (\<lambda>x c. x \<noteq> Some s \<and> stuck s calls c) (\<lambda>e c. stuck s calls c)" for n rec
    by (rule hoare_bnd [OF job]) (rule hoare_pre [OF hoare_ret], simp)
  have caught: "hoare (stuck s calls) (catch (bnd (start_job te cfg la hook n rec) (\<lambda>cont. ret (Some cont)))
        (\<lambda>e. is_docker_error e \<or> is_value_error e)
        (\<lambda>e. bnd (write_store te (\<lambda>now. fail_job i (why e) now)) (\<lambda>_. ret None)))
      (\<lambda>x c. x \<noteq> Some s \<and> stuck s calls c) (\<lambda>_. stuck s calls)" for n rec i why
  proof (rule hoare_catch [where R = "\<lambda>_. stuck s calls"])
    show "hoare (stuck s calls) (bnd (write_store te (\<lambda>now. fail_job i (why e) now)) (\<lambda>_. ret None))
        (\<lambda>x c. x \<noteq> Some s \<and> stuck s calls c) (\<lambda>_. stuck s calls)" for e
      by (rule hoare_bnd [OF stuck_write [unfolded keeps_def, OF none_runs_fail]]) (assumption, rule hoare_pre [OF hoare_ret], simp)
  qed (rule hoare_conseq [OF some]; simp)
  have mark: "hoare (\<lambda>c. x \<noteq> Some s \<and> stuck s calls c) (case x of None \<Rightarrow> ret ()
      | Some cont \<Rightarrow> bnd (transact te (\<lambda>now. mark_running i g cont now)) (\<lambda>_. ret ())) (\<lambda>_. stuck s calls) (\<lambda>_. stuck s calls)" for x i g
  proof (rule hoare_assume)
    assume "x \<noteq> Some s"
    then have "keeps (stuck s calls) (case x of None \<Rightarrow> ret ()
        | Some cont \<Rightarrow> bnd (transact te (\<lambda>now. mark_running i g cont now)) (\<lambda>_. ret ()))"
      by (intro step_intros stuck_transact none_runs_started) auto
    then show "hoare (stuck s calls) (case x of None \<Rightarrow> ret ()
        | Some cont \<Rightarrow> bnd (transact te (\<lambda>now. mark_running i g cont now)) (\<lambda>_. ret ())) (\<lambda>_. stuck s calls) (\<lambda>_. stuck s calls)"
      by (simp only: keeps_def)
  qed
  have rest: "keeps (stuck s calls) (bnd (catch (bnd (start_job te cfg la hook n rec) (\<lambda>cont. ret (Some cont)))
        (\<lambda>e. is_docker_error e \<or> is_value_error e)
        (\<lambda>e. bnd (write_store te (\<lambda>now. fail_job i (why e) now)) (\<lambda>_. ret None)))
      (\<lambda>x. case x of None \<Rightarrow> ret () | Some cont \<Rightarrow> bnd (transact te (\<lambda>now. mark_running i g cont now)) (\<lambda>_. ret ())))" for n rec i why g
    unfolding keeps_def by (rule hoare_bnd [OF caught mark])
  show ?thesis unfolding do_launch_def by (intro step_intros stuck_read rest)
qed

lemma stuck_acts:
  assumes "noted s as" "\<forall>argv. run_answer te argv \<noteq> Inr s"
  shows "keeps (stuck s calls) (act_phase te cfg ok as vs)"
proof -
  have "keeps (stuck s calls) (do_reclaim te r)" if "r \<in> set (reclaims (plan vs as q b e))" for r q b e
  proof -
    from that assms(1) have "re_container r \<noteq> s"
      by (auto simp: plan_def reclaim_of_def reclaim_for_def split: option.splits if_splits)
    then show ?thesis unfolding do_reclaim_def by (intro step_intros stuck_write stuck_stop none_runs_preempting)
  qed
  then show ?thesis
    unfolding act_phase_def Let_def by (intro step_intros stuck_pending stuck_read stuck_launch assms(2))
qed

lemma stuck_tick:
  assumes "s \<noteq> []" "\<forall>argv. run_answer te argv \<noteq> Inr s" "\<forall>ss. spots_answer te = Inr ss \<longrightarrow> listed_running s ss"
  shows "keeps (stuck s calls) (tick te cfg now)"
proof -
  have dock: "hoare (stuck s calls) (docker_state te) (\<lambda>x c. (fst x \<longrightarrow> spots_answer te = Inr (snd (snd x))) \<and> stuck s calls c) (\<lambda>_. stuck s calls)"
    by (rule hoareI) (auto simp: docker_state_def catch_def bnd_def lift_def ret_def split: sum.splits if_splits)
  have rec: "keeps (stuck s calls) (if ok then reconcile te cfg ss else ret ())" if "ok \<longrightarrow> spots_answer te = Inr ss" for ok ss
    using that assms(1,3) by (intro step_intros stuck_reconcile) auto
  have last: "hoare (\<lambda>c. noted s (fst x) \<and> stuck s calls c) (act_phase te cfg ok (fst x) (snd x)) (\<lambda>_. stuck s calls) (\<lambda>_. stuck s calls)" for x ok
    by (rule hoare_assume) (rule stuck_acts [OF _ assms(2), unfolded keeps_def])
  have rest: "keeps (stuck s calls) (bnd (decide_phase te cfg now k ps obs) (\<lambda>x. act_phase te cfg ok (fst x) (snd x)))" for k ps obs ok
    unfolding keeps_def by (rule hoare_bnd [OF stuck_decide [OF assms(1)] last])
  have after: "hoare (\<lambda>c. (fst x \<longrightarrow> spots_answer te = Inr (snd (snd x))) \<and> stuck s calls c)
      (bnd (observe_all te now (fst (snd x)) (snd (snd x)) (fst x)) (\<lambda>obs.
       bnd (if fst x then reconcile te cfg (snd (snd x)) else ret ()) (\<lambda>_.
       bnd (decide_phase te cfg now k ps obs) (\<lambda>y. act_phase te cfg (fst x) (fst y) (snd y)))))
      (\<lambda>_. stuck s calls) (\<lambda>_. stuck s calls)" for x k ps
  proof (rule hoare_assume)
    assume x: "fst x \<longrightarrow> spots_answer te = Inr (snd (snd x))"
    have "keeps (stuck s calls) (bnd (observe_all te now (fst (snd x)) (snd (snd x)) (fst x)) (\<lambda>obs.
       bnd (if fst x then reconcile te cfg (snd (snd x)) else ret ()) (\<lambda>_.
       bnd (decide_phase te cfg now k ps obs) (\<lambda>y. act_phase te cfg (fst x) (fst y) (snd y)))))"
      by (rule keeps_bnd [OF stuck_observe]) (rule keeps_bnd [OF rec [OF x] rest])
    then show "hoare (stuck s calls) (bnd (observe_all te now (fst (snd x)) (snd (snd x)) (fst x)) (\<lambda>obs.
       bnd (if fst x then reconcile te cfg (snd (snd x)) else ret ()) (\<lambda>_.
       bnd (decide_phase te cfg now k ps obs) (\<lambda>y. act_phase te cfg (fst x) (fst y) (snd y)))))
      (\<lambda>_. stuck s calls) (\<lambda>_. stuck s calls)" by (simp only: keeps_def)
  qed
  have tail: "keeps (stuck s calls) (bnd (docker_state te) (\<lambda>x. bnd (observe_all te now (fst (snd x)) (snd (snd x)) (fst x)) (\<lambda>obs.
       bnd (if fst x then reconcile te cfg (snd (snd x)) else ret ()) (\<lambda>_.
       bnd (decide_phase te cfg now k ps obs) (\<lambda>y. act_phase te cfg (fst x) (fst y) (snd y))))))" for k ps
    unfolding keeps_def by (rule hoare_bnd [OF dock after])
  show ?thesis unfolding tick_def split_beta by (intro keeps_bnd stuck_read keeps_lift tail)
qed

lemma stuck_round:
  assumes "s \<noteq> []" "\<forall>argv. run_answer (round_env rd) argv \<noteq> Inr s" "\<forall>ss. spots_answer (round_env rd) = Inr ss \<longrightarrow> listed_running s ss"
    and "fst (round_body cfg rd c) = Inr ()" "stuck s calls c"
  shows "stuck s calls (snd (loop_step cfg rd c))"
proof -
  have "keeps (stuck s calls) (round_body cfg rd)"
    unfolding round_body_def by (intro step_intros stuck_tick assms(1-3))
  from keepsD [OF this assms(5)] show ?thesis
    using assms(4) by (cases "round_body cfg rd c") (simp add: loop_step_def catch_def)
qed

section \<open>Properties\<close>

text \<open>C35: a stop that was noted is never called again, whether it could be started or not. The
  controller notes a container in \<open>stop_issued\<close> before it starts \<open>docker stop\<close>, so it is noted
  also when that raises; the job was marked as being reclaimed before, so none counts as running
  in the container. From then on, in any rounds that return, with whatever answers, as long as Docker goes on reporting the container as running, or cannot list the containers, and
  gives no new container its identifier, no stop is called for it again: after a failed
  start the container runs on. (A round that raises reclaims everything and does call it
  again.)\<close>

theorem failed_stop_not_retried:
  assumes "s \<noteq> []" "s \<in> stop_issued c" "\<forall>r \<in> set (jobs (db c)). container r = Some s \<longrightarrow> state r \<noteq> RUNNING"
    and "\<forall>rd \<in> set rds. (\<forall>argv. run_answer (round_env rd) argv \<noteq> Inr s) \<and>
      (\<forall>ss. spots_answer (round_env rd) = Inr ss \<longrightarrow> listed_running s ss)"
    and "\<forall>i < length rds. fst (round_body cfg (rds ! i) (run_loop cfg (take i rds) c)) = Inr ()"
  shows "filter (is_stopping s) (history (run_loop cfg rds c)) = filter (is_stopping s) (history c) \<and>
    s \<in> stop_issued (run_loop cfg rds c) \<and>
    (\<forall>te e c0. stop_answer te s = Inl e \<longrightarrow>
       fst (stop_container te s c0) = Inl e \<and> s \<in> stop_issued (snd (stop_container te s c0)))"
proof -
  let ?calls = "filter (is_stopping s) (history c)"
  have "stuck s ?calls (run_loop cfg (take i rds) c)" if "i \<le> length rds" for i
    using that
  proof (induction i)
    case 0
    then show ?case using assms(2,3) by (simp add: run_loop_def stuck_def none_runs_def)
  next
    case (Suc i)
    then have i: "i < length rds" by simp
    have "run_loop cfg (take (Suc i) rds) c = snd (loop_step cfg (rds ! i) (run_loop cfg (take i rds) c))"
      by (simp add: run_loop_def take_Suc_conv_app_nth [OF i])
    moreover have "\<forall>argv. run_answer (round_env (rds ! i)) argv \<noteq> Inr s"
      "\<forall>ss. spots_answer (round_env (rds ! i)) = Inr ss \<longrightarrow> listed_running s ss"
      using assms(4) nth_mem [OF i] by blast+
    from stuck_round [OF assms(1) this, of cfg "run_loop cfg (take i rds) c"]
    have "stuck s ?calls (snd (loop_step cfg (rds ! i) (run_loop cfg (take i rds) c)))"
      using assms(5) i Suc by simp
    ultimately show ?case by simp
  qed
  from this [of "length rds"] show ?thesis by (simp add: stuck_def stop_container_run note_event_def)
qed

text \<open>The job's container still runs on its GPU and the kill switch is set.\<close>

definition lent_env :: "unit result \<Rightarrow> tick_env" where
  "lent_env r = dark_env\<lparr>owners_answer := Inr [],
     spots_answer := Inr [\<lparr>sc_id = ''c1'', sc_name = ''labgpu-spot-1-1'', sc_job_id = Some 1, sc_gpu_uuid = Some ''GPU-a'',
       running = True, sc_exit_code = None\<rparr>],
     stop_answer := \<lambda>_. r\<rparr>"

definition lent_round :: "unit result \<Rightarrow> loop_round" where
  "lent_round r = \<lparr>round_time = 10, round_env = lent_env r, status_written = Inr (), error_env = lent_env r\<rparr>"

text \<open>\<open>docker stop\<close> cannot be started in the first round, twice; in the next two it could.\<close>

definition failed_ctl :: ctl where
  "failed_ctl = run_loop demo_cfg [lent_round (Inl (OSError ''fork''))] (new_controller demo_db)"

theorem failed_stop_not_retried_witness:
  "filter (is_stopping ''c1'') (history failed_ctl) = [Stopping ''c1'' False, Stopping ''c1'' False] \<and>
   filter (is_stopping ''c1'') (history (run_loop demo_cfg [lent_round (Inr ()), lent_round (Inr ())] failed_ctl)) =
     [Stopping ''c1'' False, Stopping ''c1'' False]"
proof -
  let ?rds = "[lent_round (Inr ()), lent_round (Inr ())]"
  have c: "filter (is_stopping ''c1'') (history failed_ctl) = [Stopping ''c1'' False, Stopping ''c1'' False]"
    "stop_issued failed_ctl = {''c1''}" "map state (jobs (db failed_ctl)) = [PREEMPTING]"
    unfolding failed_ctl_def by code_simp+
  have b: "fst (round_body demo_cfg (lent_round (Inr ())) failed_ctl) = Inr ()"
    "fst (round_body demo_cfg (lent_round (Inr ())) (run_loop demo_cfg [lent_round (Inr ())] failed_ctl)) = Inr ()"
    unfolding failed_ctl_def by code_simp+
  have st: "\<forall>r \<in> set (jobs (db failed_ctl)). container r = Some ''c1'' \<longrightarrow> state r \<noteq> RUNNING"
    using c(3) by (cases "jobs (db failed_ctl)") auto
  have env: "\<forall>rd \<in> set ?rds. (\<forall>argv. run_answer (round_env rd) argv \<noteq> Inr ''c1'') \<and>
      (\<forall>ss. spots_answer (round_env rd) = Inr ss \<longrightarrow> listed_running ''c1'' ss)"
    by (simp add: lent_round_def lent_env_def dark_env_def listed_running_def)
  have "fst (round_body demo_cfg (?rds ! i) (run_loop demo_cfg (take i ?rds) failed_ctl)) = Inr ()" if "i < length ?rds" for i
  proof -
    from that have "i = 0 \<or> i = 1" by auto
    then show ?thesis using b by (auto simp: run_loop_def)
  qed
  then have ret: "\<forall>i < length ?rds. fst (round_body demo_cfg (?rds ! i) (run_loop demo_cfg (take i ?rds) failed_ctl)) = Inr ()" by blast
  have "''c1'' \<noteq> []" "''c1'' \<in> stop_issued failed_ctl" using c(2) by simp_all
  from failed_stop_not_retried [OF this st env ret] c(1) show ?thesis by simp
qed

end
