(* ===== verification/Spec2Isabelle.thy ===== *)
theory Spec2Isabelle imports Procmap Fraction Selection Detector Planner Store_Machine Docker Hostinfo Nvml Observer Daemon_Quiet Plugin_Owners Plugin_Stats Plugin_Restart Cli Serve Daemon_Live Run_Daemon Owner_First Daemon_Idle Daemon_Stuck
begin

text \<open>
  A model of labgpu (\<open>src/src/labgpu\<close>), which shares the GPUs of a cluster in two ways. The
  accelerator plugins (\<open>accelerator/plugin.py\<close>) run in the agent of Backend.AI on each node
  and hand out fractions of GPUs, enforced by a preloaded library. The spot controller
  (\<open>spot/\<close>) lends GPUs whose owners leave them unused to queued jobs and reclaims them when
  the owners return. Both read the GPUs through \<open>nvml.py\<close>, both find the container of a
  process through \<open>procmap.py\<close>, and they meet in the environment the plugin gives a
  container and the controller reads back. The command line (\<open>spot/cli.py\<close>) and the
  controller share a job database.

  \<^bold>\<open>Foundations.\<close> \<open>Prelude\<close>: exceptions as values, results, traversals, insertion-ordered
  dictionaries, the locale \<open>invariant_machine\<close>. \<open>Py_State\<close>: methods that change an object and
  may raise, with the rules of a Hoare logic whose triples speak of both ways out. \<open>Py_Text\<close>,
  \<open>Py_Num\<close>, \<open>Py_Value\<close>, \<open>Py_Path\<close>: what the sources use of Python's strings, binary64
  floats, 28-digit decimals, dynamic values and paths. Characters have codes below 256. A
  float is the rational it denotes: every operation is the exact one followed by rounding
  to nearest even at 53 binary digits (28 decimal ones for \<open>Decimal\<close>), shown monotone,
  exact on representable values and of bounded error in the locale \<open>rounding\<close>; infinities
  and not-a-number are outside the model.

  \<^bold>\<open>Shared modules.\<close> \<open>Sizes\<close> (\<open>sizes.py\<close>), \<open>Devalloc\<close> (\<open>devalloc.py\<close>), \<open>Fraction\<close>
  (\<open>fraction.py\<close>), \<open>Procmap\<close> (\<open>procmap.py\<close>), \<open>Selection\<close> (\<open>selection.py\<close>), \<open>Nvml\<close> and
  \<open>Reader\<close> (\<open>nvml.py\<close>). \<open>Fraction\<close> shows that the memory limits of the sessions on a GPU exceed
  its memory by at most one MiB for each session whose share gives less than that minimum,
  that limits and environment variables belong to the right devices, and the formula of the
  specification; \<open>Selection\<close> that the search for a glob pattern agrees
  with its declarative meaning, and the exclusiveness of claims; \<open>Nvml\<close> states what clients
  rely on as the locale \<open>gpu_source\<close>, interpreted for both readers.

  \<^bold>\<open>The plugin.\<close> \<open>Plugin\<close> has the record \<open>plugin\<close> and one definition per method of
  \<open>LabGpuPlugin\<close>; what the host answers is the record \<open>agent_host\<close>. \<open>Plugin_Init\<close> proves the
  triple of \<open>init\<close>, through all its early returns and exceptions. \<open>Plugin_Safety\<close>: no fraction
  without enforcement, the announced capacity, disabled plugins, disjoint plugins.
  \<open>Plugin_Owners\<close>: the controller recovers a container's GPUs. \<open>Plugin_Stats\<close>: measurements
  against their meaning. \<open>Plugin_Restart\<close>: two starts of a plugin, the one that
  created a container and the one after the agent's restart, and what is restored between
  them, with and without a change of mode.

  \<^bold>\<open>The controller.\<close> \<open>Config\<close> (\<open>spot/config.py\<close>), \<open>Model\<close> (\<open>spot/model.py\<close>), \<open>Detector\<close>
  (\<open>spot/detector.py\<close>: when a GPU is lendable and when a spot must go), \<open>Planner\<close>
  (\<open>spot/planner.py\<close>: safety, order and completeness of a plan), \<open>Jobspec\<close>
  (\<open>spot/jobspec.py\<close>: reading, validating and storing job files), \<open>Jobs\<close> (\<open>spot/jobs.py\<close>:
  the tables and transactions) with \<open>Store_Machine\<close> (the invariant of the database and the life
  cycle of a job over any sequence of transactions: the state machine of the specification and
  the two places where the code leaves it), \<open>Docker\<close> (\<open>spot/docker.py\<close>: argument
  vectors; what docker's own reading of a command line has to satisfy is the locale
  \<open>docker_reader\<close>, interpreted on a small reader that is enough for these vectors), \<open>Hostinfo\<close> (\<open>spot/hostinfo.py\<close>), \<open>Observer\<close>
  (\<open>spot/observer.py\<close>: every process accounted for), and the loop of \<open>spot/daemon.py\<close>:
  \<open>Lending\<close> holds the abstract specification (which jobs hold which GPUs, and exclusiveness),
  \<open>Daemon\<close> the controller record with its tick and loop. Between any two accesses of the
  controller to the database other processes may commit transactions of their own, and every
  answer from outside is arbitrary, exceptions included. \<open>Daemon_Db\<close> and \<open>Daemon_Safety\<close> prove
  that whatever happens no GPU is lent twice, where jobs may run after a tick, and what
  failure and shutdown do; \<open>Daemon_Stops\<close> what has become of the containers noted in
  \<open>stop_issued\<close>: \<open>docker stop\<close> was called for each of them, and in a tick that returns each call
  was started, while \<open>Daemon_Stuck\<close> shows that a call that could not be started in an earlier
  round is never made again; \<open>Daemon_Quiet\<close> that every launch is preceded by a quiet window of
  observations, over a history the model keeps for that purpose; \<open>Daemon_Live\<close> that after a
  tick nothing interferes with no lendable GPU waits for a job that could use it, and
  \<open>Daemon_Idle\<close> that a GPU whose owners stay away for the idle window becomes one. \<open>Cli\<close>
  (\<open>spot/cli.py\<close> and the status file): what \<open>submit\<close> queues.

  \<^bold>\<open>The process.\<close> \<open>Docker_Cli\<close>: the object \<open>DockerCli\<close> with the stops it has started, and the
  wait for them. \<open>Serve\<close>: \<open>run_forever\<close> in time, with the stop event, the pauses, the reclaim at
  shutdown and the wait for the stops; it ends exactly because of a signal, within a bound,
  and leaves nothing running. \<open>Run_Daemon\<close>: the daemon command, which connects the controller
  with a reader of \<open>Reader\<close>, the commands of \<open>Docker_Cli\<close> and the files of \<open>Hostinfo\<close>, and what
  the containers it starts are given. \<open>Daemon_Keeps\<close> has a hierarchy of locales on predicates of
  controllers: \<open>ctl_base\<close> has the changes nearly every method makes, \<open>ctl_still\<close> adds the calls
  of \<open>docker stop\<close>, \<open>ctl_running\<close> the starts of containers, \<open>ctl_judging\<close> the judgements;
  \<open>ctl_still_run\<close>, \<open>ctl_invariant\<close> and \<open>ctl_run_invariant\<close> combine them, and \<open>ctl_returning\<close> is for
  assertions that survive only calls that succeed. What the elementary steps keep is kept by
  every method, the tick and the loop. The theories above interpret them on the controller
  for their assertions on its history.

  \<^bold>\<open>Both halves.\<close> \<open>Owner_First\<close> follows a GPU from the plugin's arguments through
  \<open>docker inspect\<close>, the observation and the detector to the acts of a tick: where an owner's
  process is at work, a spot is reclaimed with its \<open>docker stop\<close> started or called before, and
  none starts.

  \<^bold>\<open>Bounds.\<close> No definition uses fuel: every loop of the sources runs over a finite list, and the
  two functions that do not recurse on their argument's structure come with termination
  proofs. The loop of \<open>run_forever\<close> appears twice: \<open>run_loop\<close> is the fold over any number of
  rounds, and \<open>serve_loop\<close> is the loop itself, a partial function whose value is \<open>None\<close> when it
  never ends; with a signal it has a value, which is \<open>run_loop\<close> over the rounds that fit.
  Times are exact rationals and the differences the code computes are floats, which for
  clocks below \<open>2\<^sup>3\<^sup>2\<close> seconds are right to a microsecond. The bound of a petabyte and a million sessions in
  \<open>limits_never_oversubscribe\<close> is far above any machine and keeps the rounding errors below
  one byte.

  \<^bold>\<open>Parameters.\<close> The GPU driver library, Docker, SQLite's file, the file system, the clock and
  Backend.AI's classes appear as answers or as the arguments they are built from; JSON and
  TOML texts appear as the documents they denote.

  \<^bold>\<open>Not modelled.\<close> Log lines, except the warnings when the daemon starts; the lock of a reader,
  which puts the snapshots of concurrent threads one after the other, as the model has
  them; the installation of the signal handlers, whose effect is the time of the signal; the
  time-out of a locked database; \<open>argparse\<close>, whose results are the values of the datatype
  \<open>command\<close>; entry-point modules, which only import names; text formats of configuration
  files and of \<open>docker inspect\<close>; the tests, examples and end-to-end scripts. The time stamps a
  reader remembers from round to round are those of an arbitrary sequence of readers.
\<close>

end
